(* ===== verification/Prelude.thy ===== *)
theory Prelude
  imports Main "HOL-Library.Word"
begin

unbundle bit_operations_syntax

text \<open>
  Shared vocabulary of the development: the machine types of the C code, results of code that
  may fault (a C assertion, a bad pointer, an access out of bounds), sequencing of such code,
  and the accesses to byte buffers that \<open>memcpy\<close>, \<open>memmove\<close>, \<open>calloc\<close> and \<open>realloc\<close> make.
\<close>

section \<open>Machine types\<close>

type_synonym byte = "8 word"
type_synonym size_t = "64 word"
type_synonym flags = "32 word"
type_synonym addr = nat

section \<open>Results of code that may fault\<close>

text \<open>
  \<open>Assert_Failed\<close>: a C \<open>assert\<close> aborts the process. \<open>Bad_Pointer\<close>: a dereference of an address
  at which nothing is allocated (NULL, a list poison, freed memory). \<open>Out_Of_Bounds\<close>: an access
  outside its object. \<open>Realloc_Zero\<close>: \<open>realloc\<close> to size 0, undefined in C23. \<open>Uninitialised\<close>:
  a use of a value never written. \<open>Deadlock\<close>: a wait that never ends, for a mutex that the
  only running thread holds or for a thread that does not end. \<open>Not_Locked\<close>: an unlock of a mutex that is free. \<open>No_Fuel\<close>: the bound on loop iterations of the model is used up; it is no
  behaviour of the code, and every loop comes with a lemma that says how much is enough.
\<close>

datatype fault =
    Assert_Failed
  | Bad_Pointer
  | Out_Of_Bounds
  | Realloc_Zero
  | Uninitialised
  | Deadlock
  | Not_Locked
  | No_Fuel

type_synonym 'a cres = "fault + 'a"

text \<open>\<open>bnd m k\<close> runs \<open>m\<close>, then \<open>k\<close> on its value; a fault of \<open>m\<close> ends the run.\<close>

definition bnd :: "'a cres \<Rightarrow> ('a \<Rightarrow> 'b cres) \<Rightarrow> 'b cres" where
  "bnd m k = (case m of Inl e \<Rightarrow> Inl e | Inr x \<Rightarrow> k x)"

text \<open>C's \<open>assert\<close>: the rest of the function runs only where the condition holds.\<close>

definition c_assert :: "bool \<Rightarrow> 'a cres \<Rightarrow> 'a cres" where
  "c_assert b k = (if b then k else Inl Assert_Failed)"

text \<open>Reading what a pointer points to.\<close>

definition deref :: "('k \<rightharpoonup> 'v) \<Rightarrow> 'k \<Rightarrow> 'v cres" where
  "deref h p = (case h p of None \<Rightarrow> Inl Bad_Pointer | Some v \<Rightarrow> Inr v)"

named_theorems cres_simps \<open>evaluation of sequenced, faulting code\<close>

lemma bnd_Inl [simp, cres_simps]: "bnd (Inl e) k = Inl e"
  by (simp add: bnd_def)

lemma bnd_Inr [simp, cres_simps]: "bnd (Inr x) k = k x"
  by (simp add: bnd_def)

lemma bnd_eq_Inr: "bnd m k = Inr y \<longleftrightarrow> (\<exists>x. m = Inr x \<and> k x = Inr y)"
  by (cases m) auto

lemma bnd_InrE [elim!]:
  assumes "bnd m k = Inr y"
  obtains x where "m = Inr x" "k x = Inr y"
  using assms by (auto simp: bnd_eq_Inr)

lemma bnd_assoc: "bnd (bnd m k) l = bnd m (\<lambda>x. bnd (k x) l)"
  by (cases m) auto

lemma bnd_cong [fundef_cong]:
  assumes "m = m'" and "\<And>x. m' = Inr x \<Longrightarrow> k x = k' x"
  shows "bnd m k = bnd m' k'"
  using assms by (cases m') auto

lemma c_assert_True [simp, cres_simps]: "c_assert True k = k"
  by (simp add: c_assert_def)

lemma c_assert_False [simp, cres_simps]: "c_assert False k = Inl Assert_Failed"
  by (simp add: c_assert_def)

lemma c_assert_eq_Inr [simp]: "c_assert b k = Inr y \<longleftrightarrow> b \<and> k = Inr y"
  by (simp add: c_assert_def)

lemma deref_Some [simp, cres_simps]: "h p = Some v \<Longrightarrow> deref h p = Inr v"
  by (simp add: deref_def)

lemma deref_None [simp, cres_simps]: "h p = None \<Longrightarrow> deref h p = Inl Bad_Pointer"
  by (simp add: deref_def)

lemma deref_eq_Inr [simp]: "deref h p = Inr v \<longleftrightarrow> h p = Some v"
  by (simp add: deref_def split: option.splits)

section \<open>Byte buffers\<close>

text \<open>
  \<open>rd buf off n\<close> is the block of \<open>n\<close> bytes at offset \<open>off\<close> (the source of a \<open>memcpy\<close> or
  \<open>memmove\<close>), \<open>wr buf off bs\<close> stores the block \<open>bs\<close> at offset \<open>off\<close>. Both fault when the block
  leaves the buffer. A \<open>memmove\<close> inside one buffer is a read of the whole block, then a write.
\<close>

definition rd :: "byte list \<Rightarrow> nat \<Rightarrow> nat \<Rightarrow> byte list cres" where
  "rd buf off n = (if off + n \<le> length buf then Inr (take n (drop off buf)) else Inl Out_Of_Bounds)"

definition wr :: "byte list \<Rightarrow> nat \<Rightarrow> byte list \<Rightarrow> byte list cres" where
  "wr buf off bs =
     (if off + length bs \<le> length buf
      then Inr (take off buf @ bs @ drop (off + length bs) buf) else Inl Out_Of_Bounds)"

lemma rd_in [simp, cres_simps]: "off + n \<le> length buf \<Longrightarrow> rd buf off n = Inr (take n (drop off buf))"
  by (simp add: rd_def)

lemma wr_in [simp, cres_simps]:
  "off + length bs \<le> length buf \<Longrightarrow>
     wr buf off bs = Inr (take off buf @ bs @ drop (off + length bs) buf)"
  by (simp add: wr_def)

lemma rd_eq_Inr: "rd buf off n = Inr bs \<longleftrightarrow> off + n \<le> length buf \<and> bs = take n (drop off buf)"
  by (auto simp: rd_def)

lemma wr_eq_Inr:
  "wr buf off bs = Inr buf' \<longleftrightarrow>
     off + length bs \<le> length buf \<and> buf' = take off buf @ bs @ drop (off + length bs) buf"
  by (auto simp: wr_def)

lemma length_wr: "wr buf off bs = Inr buf' \<Longrightarrow> length buf' = length buf"
  by (auto simp: wr_eq_Inr)

text \<open>What was written at an offset is read back there.\<close>

lemma rd_wr: "wr buf off bs = Inr buf' \<Longrightarrow> rd buf' off (length bs) = Inr bs"
  by (auto simp: wr_eq_Inr rd_eq_Inr)

lemma take_drop_extend:
  assumes "o1 \<le> i"
  shows "take (i + l - o1) (drop o1 xs) = take (i - o1) (drop o1 xs) @ take l (drop i xs)"
proof -
  have "i + l - o1 = (i - o1) + l" using assms by simp
  with assms show ?thesis by (simp only: take_add drop_drop) simp
qed

text \<open>
  No object is larger than \<open>PTRDIFF_MAX\<close>: the allocator refuses such a request (glibc, ENOMEM).
  \<open>c_calloc\<close> gives zeroed memory. \<open>c_realloc\<close> keeps the old bytes up to the new size and fills
  the rest with bytes of no particular value (\<open>junk\<close>). Whether the allocator has memory is its
  own choice: \<open>False\<close> and \<open>None\<close> say that it had none.
\<close>

definition OBJECT_MAX :: nat where
  "OBJECT_MAX = 2 ^ 63"

definition c_calloc :: "bool \<Rightarrow> size_t \<Rightarrow> byte list option" where
  "c_calloc ok n = (if ok \<and> unat n < OBJECT_MAX then Some (replicate (unat n) 0) else None)"

definition c_realloc ::
  "(nat \<Rightarrow> byte) option \<Rightarrow> byte list \<Rightarrow> size_t \<Rightarrow> byte list option cres" where
  "c_realloc ra old n =
     (if n = 0 then Inl Realloc_Zero
      else Inr (case ra of
          None \<Rightarrow> None
        | Some junk \<Rightarrow>
            if unat n < OBJECT_MAX
            then Some (take (unat n) old @ map junk [length old..<unat n])
            else None))"

lemma length_realloc: "length (take n old @ map junk [length old..<n]) = n"
  by simp

section \<open>Machine words\<close>

text \<open>Sums and differences that do not wrap, and the test against 0, read on natural numbers.\<close>

lemma unat_add_nowrap: "unat (x :: size_t) + unat y < 2 ^ 64 \<Longrightarrow> unat (x + y) = unat x + unat y"
  by (simp add: unat_word_ariths)

lemma unat_sub_nowrap: "y \<le> (x :: size_t) \<Longrightarrow> unat (x - y) = unat x - unat y"
  by (simp add: unat_sub)

lemma unat_size_t_less: "unat (x :: size_t) < 2 ^ 64"
  using unsigned_less [of x, where 'a=nat] by simp

lemma unat_double: "unat (x :: size_t) < 2 ^ 63 \<Longrightarrow> unat (push_bit 1 x) = 2 * unat x"
  by (simp add: push_bit_eq_mult unat_word_ariths)

lemma unat_quarter: "unat (drop_bit 2 (x :: size_t)) = unat x div 4"
  by (simp add: drop_bit_eq_div unat_div)

end
