(* ===== verification/List_Head.thy ===== *)
theory List_Head
  imports Prelude
begin

text \<open>
  The circular doubly linked list of \<open>src/list.h\<close>: \<open>struct list_head\<close>, its operations as
  sequences of pointer stores on a heap, the plain loops as walks over the links, and the
  abstraction \<open>ring\<close>: the nodes reached from a head, in order. The lemmas show that every
  operation changes that list as its comment says, that no access faults, and that nothing
  outside the list changes. The locale \<open>intrusive_list\<close> is the contract an owner of such a
  list relies on; the operations of the file are its interpretations.
\<close>

section \<open>Nodes and operations\<close>

record list_head =
  prv :: addr
  nxt :: addr

type_synonym lheap = "addr \<rightharpoonup> list_head"

text \<open>
  The poison values are addresses at which nothing is ever allocated: no heap has them in
  its domain, so following one faults, as the comment of the source says.
\<close>

definition LIST_POISON1 :: addr where "LIST_POISON1 = 0x00100100"
definition LIST_POISON2 :: addr where "LIST_POISON2 = 0x00200200"

definition get_nxt :: "addr \<Rightarrow> lheap \<Rightarrow> addr cres" where
  "get_nxt p h = bnd (deref h p) (\<lambda>n. Inr (nxt n))"

definition get_prv :: "addr \<Rightarrow> lheap \<Rightarrow> addr cres" where
  "get_prv p h = bnd (deref h p) (\<lambda>n. Inr (prv n))"

definition set_nxt :: "addr \<Rightarrow> addr \<Rightarrow> lheap \<Rightarrow> lheap cres" where
  "set_nxt p v h = bnd (deref h p) (\<lambda>n. Inr (h(p \<mapsto> n\<lparr>nxt := v\<rparr>)))"

definition set_prv :: "addr \<Rightarrow> addr \<Rightarrow> lheap \<Rightarrow> lheap cres" where
  "set_prv p v h = bnd (deref h p) (\<lambda>n. Inr (h(p \<mapsto> n\<lparr>prv := v\<rparr>)))"

definition INIT_LIST_HEAD :: "addr \<Rightarrow> lheap \<Rightarrow> lheap cres" where
  "INIT_LIST_HEAD head h = bnd (set_nxt head head h) (set_prv head head)"

definition list_add_between :: "addr \<Rightarrow> addr \<Rightarrow> addr \<Rightarrow> lheap \<Rightarrow> lheap cres" where
  "list_add_between new p n h =
     bnd (set_prv n new h) (\<lambda>h.
     bnd (set_nxt new n h) (\<lambda>h.
     bnd (set_prv new p h) (\<lambda>h.
     set_nxt p new h)))"

definition list_add :: "addr \<Rightarrow> addr \<Rightarrow> lheap \<Rightarrow> lheap cres" where
  "list_add new head h = bnd (get_nxt head h) (\<lambda>n. list_add_between new head n h)"

definition list_add_tail :: "addr \<Rightarrow> addr \<Rightarrow> lheap \<Rightarrow> lheap cres" where
  "list_add_tail new head h = bnd (get_prv head h) (\<lambda>p. list_add_between new p head h)"

definition list_del_between :: "addr \<Rightarrow> addr \<Rightarrow> lheap \<Rightarrow> lheap cres" where
  "list_del_between p n h = bnd (set_prv n p h) (set_nxt p n)"

definition list_del_entry :: "addr \<Rightarrow> lheap \<Rightarrow> lheap cres" where
  "list_del_entry entry h =
     bnd (get_prv entry h) (\<lambda>p. bnd (get_nxt entry h) (\<lambda>n. list_del_between p n h))"

definition list_del :: "addr \<Rightarrow> lheap \<Rightarrow> lheap cres" where
  "list_del entry h =
     bnd (list_del_entry entry h) (\<lambda>h.
     bnd (set_nxt entry LIST_POISON1 h) (\<lambda>h.
     set_prv entry LIST_POISON2 h))"

definition list_replace :: "addr \<Rightarrow> addr \<Rightarrow> lheap \<Rightarrow> lheap cres" where
  "list_replace old new h =
     bnd (get_nxt old h) (\<lambda>n.
     bnd (set_nxt new n h) (\<lambda>h.
     bnd (get_nxt new h) (\<lambda>n.
     bnd (set_prv n new h) (\<lambda>h.
     bnd (get_prv old h) (\<lambda>p.
     bnd (set_prv new p h) (\<lambda>h.
     bnd (get_prv new h) (\<lambda>p.
     set_nxt p new h)))))))"

definition list_replace_init :: "addr \<Rightarrow> addr \<Rightarrow> lheap \<Rightarrow> lheap cres" where
  "list_replace_init old new h = bnd (list_replace old new h) (INIT_LIST_HEAD old)"

definition list_del_init :: "addr \<Rightarrow> lheap \<Rightarrow> lheap cres" where
  "list_del_init entry h = bnd (list_del_entry entry h) (INIT_LIST_HEAD entry)"

definition list_move :: "addr \<Rightarrow> addr \<Rightarrow> lheap \<Rightarrow> lheap cres" where
  "list_move l head h = bnd (list_del_entry l h) (list_add l head)"

definition list_move_tail :: "addr \<Rightarrow> addr \<Rightarrow> lheap \<Rightarrow> lheap cres" where
  "list_move_tail l head h = bnd (list_del_entry l h) (list_add_tail l head)"

definition list_is_last :: "addr \<Rightarrow> addr \<Rightarrow> lheap \<Rightarrow> bool cres" where
  "list_is_last l head h = bnd (get_nxt l h) (\<lambda>n. Inr (n = head))"

definition list_empty :: "addr \<Rightarrow> lheap \<Rightarrow> bool cres" where
  "list_empty head h = bnd (get_nxt head h) (\<lambda>n. Inr (n = head))"

definition list_empty_careful :: "addr \<Rightarrow> lheap \<Rightarrow> bool cres" where
  "list_empty_careful head h =
     bnd (get_nxt head h) (\<lambda>n.
     if n = head then bnd (get_prv head h) (\<lambda>p. Inr (n = p)) else Inr False)"

definition list_is_singular :: "addr \<Rightarrow> lheap \<Rightarrow> bool cres" where
  "list_is_singular head h =
     bnd (list_empty head h) (\<lambda>e.
     if e then Inr False
     else bnd (get_nxt head h) (\<lambda>n. bnd (get_prv head h) (\<lambda>p. Inr (n = p))))"

text \<open>
  \<open>list_for_each\<close> and \<open>list_for_each_prev\<close>: the cursor starts at a neighbour of the head and
  follows the links until it is back at the head; the model returns the nodes the loop body
  sees. \<open>list_for_each_entry\<close> is the same loop over the enclosing structures: \<open>container_of\<close>
  subtracts a constant, and a node is named here by its enclosing structure, so it is the
  identity on addresses.
\<close>

fun list_walk :: "(addr \<Rightarrow> lheap \<Rightarrow> addr cres) \<Rightarrow> nat \<Rightarrow> addr \<Rightarrow> addr \<Rightarrow> lheap \<Rightarrow> addr list cres" where
  "list_walk step 0 pos head h = Inl No_Fuel"
| "list_walk step (Suc k) pos head h =
     (if pos = head then Inr []
      else bnd (step pos h) (\<lambda>n. bnd (list_walk step k n head h) (\<lambda>r. Inr (pos # r))))"

definition list_for_each :: "nat \<Rightarrow> addr \<Rightarrow> lheap \<Rightarrow> addr list cres" where
  "list_for_each k head h = bnd (get_nxt head h) (\<lambda>pos. list_walk get_nxt k pos head h)"

definition list_for_each_prev :: "nat \<Rightarrow> addr \<Rightarrow> lheap \<Rightarrow> addr list cres" where
  "list_for_each_prev k head h = bnd (get_prv head h) (\<lambda>pos. list_walk get_prv k pos head h)"

section \<open>The ring of a list head\<close>

text \<open>
  \<open>dseg N P a xs b\<close>: from \<open>a\<close> the next links run through \<open>xs\<close> to \<open>b\<close>, and every node on
  the way points back to the one before. \<open>ring h head xs\<close>: the list of \<open>head\<close> holds \<open>xs\<close>.
\<close>

definition nxt_of :: "lheap \<Rightarrow> addr \<rightharpoonup> addr" where
  "nxt_of h p = map_option nxt (h p)"

definition prv_of :: "lheap \<Rightarrow> addr \<rightharpoonup> addr" where
  "prv_of h p = map_option prv (h p)"

fun dseg :: "(addr \<rightharpoonup> addr) \<Rightarrow> (addr \<rightharpoonup> addr) \<Rightarrow> addr \<Rightarrow> addr list \<Rightarrow> addr \<Rightarrow> bool" where
  "dseg N P a [] b \<longleftrightarrow> N a = Some b \<and> P b = Some a"
| "dseg N P a (x # xs) b \<longleftrightarrow> N a = Some x \<and> P x = Some a \<and> dseg N P x xs b"

definition ring :: "lheap \<Rightarrow> addr \<Rightarrow> addr list \<Rightarrow> bool" where
  "ring h head xs \<longleftrightarrow> dseg (nxt_of h) (prv_of h) head xs head \<and> distinct (head # xs)"

text \<open>Nothing outside the set \<open>A\<close> of nodes differs, and the same nodes are allocated.\<close>

definition same_off :: "addr set \<Rightarrow> lheap \<Rightarrow> lheap \<Rightarrow> bool" where
  "same_off A h h' \<longleftrightarrow> (\<forall>p. p \<notin> A \<longrightarrow> h' p = h p) \<and> dom h' = dom h"

named_theorems heap_simps \<open>reading and writing link fields\<close>

lemma get_nxt_eq [heap_simps]: "nxt_of h p = Some v \<Longrightarrow> get_nxt p h = Inr v"
  by (auto simp: get_nxt_def nxt_of_def)

lemma get_prv_eq [heap_simps]: "prv_of h p = Some v \<Longrightarrow> get_prv p h = Inr v"
  by (auto simp: get_prv_def prv_of_def)

text \<open>
  A store to an allocated node is the total update \<open>upd_nxt\<close> or \<open>upd_prv\<close>, so that a sequence
  of stores rewrites to one heap expression whose fields the rules below read.
\<close>

definition upd_nxt :: "addr \<Rightarrow> addr \<Rightarrow> lheap \<Rightarrow> lheap" where
  "upd_nxt p v h = h(p := map_option (nxt_update (\<lambda>_. v)) (h p))"

definition upd_prv :: "addr \<Rightarrow> addr \<Rightarrow> lheap \<Rightarrow> lheap" where
  "upd_prv p v h = h(p := map_option (prv_update (\<lambda>_. v)) (h p))"

lemma set_nxt_eq [heap_simps]: "p \<in> dom h \<Longrightarrow> set_nxt p v h = Inr (upd_nxt p v h)"
  by (auto simp: set_nxt_def upd_nxt_def)

lemma set_prv_eq [heap_simps]: "p \<in> dom h \<Longrightarrow> set_prv p v h = Inr (upd_prv p v h)"
  by (auto simp: set_prv_def upd_prv_def)

lemma dom_upd [heap_simps]: "dom (upd_nxt p v h) = dom h" "dom (upd_prv p v h) = dom h"
  by (auto simp: upd_nxt_def upd_prv_def split: if_splits)

lemma upd_off [heap_simps]: "a \<noteq> p \<Longrightarrow> upd_nxt p v h a = h a" "a \<noteq> p \<Longrightarrow> upd_prv p v h a = h a"
  by (simp_all add: upd_nxt_def upd_prv_def)

lemma nxt_of_upd [heap_simps]:
  "nxt_of (upd_nxt p v h) a = (if a = p \<and> p \<in> dom h then Some v else nxt_of h a)"
  "nxt_of (upd_prv p v h) = nxt_of h"
  by (cases "h p"; auto simp: nxt_of_def upd_nxt_def upd_prv_def fun_eq_iff)+

lemma prv_of_upd [heap_simps]:
  "prv_of (upd_prv p v h) a = (if a = p \<and> p \<in> dom h then Some v else prv_of h a)"
  "prv_of (upd_nxt p v h) = prv_of h"
  by (cases "h p"; auto simp: prv_of_def upd_nxt_def upd_prv_def fun_eq_iff)+

lemma nxt_of_dom: "nxt_of h p = Some v \<Longrightarrow> p \<in> dom h"
  by (auto simp: nxt_of_def)

lemma prv_of_dom: "prv_of h p = Some v \<Longrightarrow> p \<in> dom h"
  by (auto simp: prv_of_def)

lemma same_off_upd [heap_simps]:
  "p \<in> A \<Longrightarrow> same_off A h (upd_nxt p v h') \<longleftrightarrow> same_off A h h'"
  "p \<in> A \<Longrightarrow> same_off A h (upd_prv p v h') \<longleftrightarrow> same_off A h h'"
  by (auto simp: same_off_def heap_simps; metis upd_off)+

lemma same_off_refl [simp]: "same_off A h h"
  by (simp add: same_off_def)

lemma same_off_trans: "same_off A h h' \<Longrightarrow> same_off B h' h'' \<Longrightarrow> same_off (A \<union> B) h h''"
  by (auto simp: same_off_def)

lemma same_off_mono: "same_off A h h' \<Longrightarrow> A \<subseteq> B \<Longrightarrow> same_off B h h'"
  by (auto simp: same_off_def)

lemma same_off_dom: "same_off A h h' \<Longrightarrow> dom h' = dom h"
  by (simp add: same_off_def)

text \<open>A segment depends only on the next links of its nodes and the links back to them.\<close>

lemma dseg_cong:
  assumes "\<And>p. p \<in> set (a # xs) \<Longrightarrow> N p = N' p" and "\<And>p. p \<in> set (xs @ [b]) \<Longrightarrow> P p = P' p"
  shows "dseg N P a xs b = dseg N' P' a xs b"
  using assms by (induction xs arbitrary: a) auto

lemma dseg_append: "dseg N P a (xs @ y # ys) b \<longleftrightarrow> dseg N P a xs y \<and> dseg N P y ys b"
  by (induction xs arbitrary: a) auto

lemma dseg_dom:
  assumes "dseg (nxt_of h) (prv_of h) a xs b"
  shows "set (a # xs @ [b]) \<subseteq> dom h"
  using assms by (induction xs arbitrary: a) (auto dest: nxt_of_dom prv_of_dom)

lemma ring_dom: "ring h head xs \<Longrightarrow> set (head # xs) \<subseteq> dom h"
  using dseg_dom [of h head xs head] by (simp add: ring_def)

lemma ring_distinct: "ring h head xs \<Longrightarrow> distinct (head # xs)"
  by (simp add: ring_def)

lemma ring_cong:
  assumes "ring h head xs" and "\<And>p. p \<in> set (head # xs) \<Longrightarrow> h' p = h p"
  shows "ring h' head xs"
proof -
  have "dseg (nxt_of h') (prv_of h') head xs head = dseg (nxt_of h) (prv_of h) head xs head"
    by (rule dseg_cong) (use assms(2) in \<open>auto simp: nxt_of_def prv_of_def\<close>)
  with assms(1) show ?thesis by (simp add: ring_def)
qed

lemma ring_frame: "ring h head xs \<Longrightarrow> same_off A h h' \<Longrightarrow> A \<inter> set (head # xs) = {} \<Longrightarrow> ring h' head xs"
  by (erule ring_cong) (auto simp: same_off_def)

text \<open>A heap holds one list per head.\<close>

lemma dseg_unique:
  assumes "dseg N P a xs b" and "dseg N P a ys b" and "b \<notin> set xs" and "b \<notin> set ys"
  shows "xs = ys"
  using assms
proof (induction xs arbitrary: a ys)
  case Nil
  then show ?case by (cases ys) auto
next
  case (Cons x xs)
  then show ?case by (cases ys) auto
qed

lemma ring_unique: "ring h head xs \<Longrightarrow> ring h head ys \<Longrightarrow> xs = ys"
  by (auto simp: ring_def dest: dseg_unique)

lemma dseg_upd [heap_simps]:
  "p \<notin> set (a # xs) \<Longrightarrow> dseg (nxt_of (upd_nxt p v h)) P a xs b = dseg (nxt_of h) P a xs b"
  "p \<notin> set (xs @ [b]) \<Longrightarrow> dseg N (prv_of (upd_prv p v h)) a xs b = dseg N (prv_of h) a xs b"
  by (rule dseg_cong; auto simp: heap_simps)+

section \<open>The operations on a ring\<close>

text \<open>The node before position \<open>as\<close> of a ring and the node at position \<open>bs\<close>.\<close>

abbreviation before :: "addr \<Rightarrow> addr list \<Rightarrow> addr" where "before head as \<equiv> last (head # as)"
abbreviation behind :: "addr list \<Rightarrow> addr \<Rightarrow> addr" where "behind bs head \<equiv> hd (bs @ [head])"

lemma ring_insert:
  assumes "ring h head (as @ bs)" and "new \<in> dom h" and "new \<notin> set (head # as @ bs)"
  shows "\<exists>h'. list_add_between new (before head as) (behind bs head) h = Inr h' \<and>
    ring h' head (as @ new # bs) \<and> same_off (set (head # as @ new # bs)) h h'"
proof -
  have d: "set (head # as @ bs) \<subseteq> dom h" by (rule ring_dom [OF assms(1)])
  show ?thesis
    using assms d
    by (cases as rule: rev_cases; cases bs)
      (auto simp: ring_def list_add_between_def dseg_append heap_simps)
qed

lemma ring_neighbours:
  assumes "ring h head (as @ x # bs)"
  shows "get_prv x h = Inr (before head as)" and "get_nxt x h = Inr (behind bs head)"
  using assms by (cases as rule: rev_cases; cases bs; auto simp: ring_def dseg_append heap_simps)+

lemma ring_ends:
  assumes "ring h head xs"
  shows "get_nxt head h = Inr (behind xs head)" and "get_prv head h = Inr (before head xs)"
  using assms
  by (cases xs, auto simp: ring_def heap_simps)
    (cases xs rule: rev_cases, auto simp: ring_def dseg_append heap_simps)

lemma ring_remove:
  assumes "ring h head (as @ x # bs)"
  shows "\<exists>h'. list_del_entry x h = Inr h' \<and> ring h' head (as @ bs) \<and>
    same_off (set (head # as @ bs)) h h' \<and> h' x = h x"
proof -
  have d: "set (head # as @ x # bs) \<subseteq> dom h" by (rule ring_dom [OF assms])
  show ?thesis
    unfolding list_del_entry_def ring_neighbours [OF assms] bnd_Inr list_del_between_def
    using assms d
    by (cases as rule: rev_cases; cases bs) (auto simp: ring_def dseg_append heap_simps)
qed

text \<open>Stores to a node outside a ring leave it as it is.\<close>

lemma INIT_LIST_HEAD_in:
  "p \<in> dom h \<Longrightarrow> \<exists>h'. INIT_LIST_HEAD p h = Inr h' \<and> ring h' p [] \<and> same_off {p} h h'"
  by (auto simp: INIT_LIST_HEAD_def heap_simps ring_def)

lemma ring_off_upd [heap_simps]:
  "p \<notin> set (head # xs) \<Longrightarrow> ring (upd_nxt p v h) head xs = ring h head xs"
  "p \<notin> set (head # xs) \<Longrightarrow> ring (upd_prv p v h) head xs = ring h head xs"
  by (auto simp: ring_def heap_simps)

lemma list_add_ring:
  assumes "ring h head xs" and "new \<in> dom h" and "new \<notin> set (head # xs)"
  shows "\<exists>h'. list_add new head h = Inr h' \<and> ring h' head (new # xs) \<and>
    same_off (set (head # new # xs)) h h'"
  using ring_insert [of h head "[]" xs new] assms ring_ends(1) [OF assms(1)]
  by (simp add: list_add_def)

lemma list_add_tail_ring:
  assumes "ring h head xs" and "new \<in> dom h" and "new \<notin> set (head # xs)"
  shows "\<exists>h'. list_add_tail new head h = Inr h' \<and> ring h' head (xs @ [new]) \<and>
    same_off (set (head # new # xs)) h h'"
  using ring_insert [of h head xs "[]" new] assms ring_ends(2) [OF assms(1)]
  by (simp add: list_add_tail_def insert_commute)

lemma list_del_entry_ring:
  assumes "ring h head xs" and "x \<in> set xs"
  shows "\<exists>h'. list_del_entry x h = Inr h' \<and> ring h' head (remove1 x xs) \<and>
    same_off (set (head # remove1 x xs)) h h' \<and> h' x = h x \<and> x \<notin> set (head # remove1 x xs)"
proof -
  obtain as bs where xs: "xs = as @ x # bs" using assms(2) by (auto dest: split_list)
  with assms(1) have "distinct (head # as @ x # bs)" by (simp add: ring_def)
  then have "remove1 x xs = as @ bs" and "x \<notin> set (head # as @ bs)"
    by (auto simp: xs remove1_append)
  with ring_remove [of h head as x bs] assms(1) show ?thesis by (simp add: xs)
qed

text \<open>\<open>list_del\<close> leaves the entry poisoned, \<open>list_del_init\<close> leaves it an empty list of its own.\<close>

lemma upd_both: "x \<in> dom h \<Longrightarrow> upd_prv x p (upd_nxt x n h) x = Some \<lparr>prv = p, nxt = n\<rparr>"
  by (auto simp: upd_nxt_def upd_prv_def)

lemma list_del_ring:
  assumes "ring h head xs" and "x \<in> set xs"
  shows "\<exists>h'. list_del x h = Inr h' \<and> ring h' head (remove1 x xs) \<and>
    same_off (set (head # xs)) h h' \<and> h' x = Some \<lparr>prv = LIST_POISON2, nxt = LIST_POISON1\<rparr>"
proof -
  obtain h1 where h1: "list_del_entry x h = Inr h1" "ring h1 head (remove1 x xs)"
    "same_off (set (head # remove1 x xs)) h h1" "x \<notin> set (head # remove1 x xs)"
    using list_del_entry_ring [OF assms] by auto
  have sub: "set (head # remove1 x xs) \<subseteq> set (head # xs)" using set_remove1_subset [of x xs] by auto
  have "x \<in> dom h1"
    using h1(3) assms ring_dom [OF assms(1)] by (auto simp: same_off_def)
  then show ?thesis
    using h1 assms(2) same_off_mono [OF h1(3) sub] by (simp add: list_del_def heap_simps upd_both)
qed

lemma list_del_init_ring:
  assumes "ring h head xs" and "x \<in> set xs"
  shows "\<exists>h'. list_del_init x h = Inr h' \<and> ring h' head (remove1 x xs) \<and>
    ring h' x [] \<and> same_off (set (head # xs)) h h'"
proof -
  obtain h1 where h1: "list_del_entry x h = Inr h1" "ring h1 head (remove1 x xs)"
    "same_off (set (head # remove1 x xs)) h h1" "x \<notin> set (head # remove1 x xs)"
    using list_del_entry_ring [OF assms] by auto
  have sub: "set (head # remove1 x xs) \<subseteq> set (head # xs)" using set_remove1_subset [of x xs] by auto
  have "x \<in> dom h1"
    using h1(3) assms ring_dom [OF assms(1)] by (auto simp: same_off_def)
  then show ?thesis
    using h1 assms(2) same_off_mono [OF h1(3) sub]
    by (simp add: list_del_init_def INIT_LIST_HEAD_def heap_simps) (simp add: ring_def heap_simps)
qed

text \<open>
  \<open>list_replace\<close> puts the new node at the place of the old one in the list: the same neighbours, in
  the same order; the old node keeps its stale links, and no other cell changes.
\<close>

theorem list_replace_ring:
  assumes "ring h head (as @ old # bs)" and "new \<in> dom h" and "new \<notin> set (head # as @ old # bs)"
  shows "\<exists>h'. list_replace old new h = Inr h' \<and> ring h' head (as @ new # bs) \<and>
    same_off (set (head # as @ new # bs)) h h' \<and> h' old = h old"
proof -
  have d: "set (head # as @ old # bs) \<subseteq> dom h" by (rule ring_dom [OF assms(1)])
  show ?thesis
    unfolding list_replace_def ring_neighbours [OF assms(1)] bnd_Inr
    using assms d
    by (cases as rule: rev_cases; cases bs) (auto simp: ring_def dseg_append heap_simps)
qed

text \<open>
  Replacing a head hands its whole list over; an empty one gives an empty list (the case the
  comment of the source singles out). \<open>list_replace_init\<close> leaves the old head empty.
\<close>

lemma list_replace_head:
  assumes "ring h old xs" and "new \<in> dom h" and "new \<notin> set (old # xs)"
  shows "\<exists>h'. list_replace old new h = Inr h' \<and> ring h' new xs"
proof -
  have d: "set (old # xs) \<subseteq> dom h" by (rule ring_dom [OF assms(1)])
  show ?thesis
  proof (cases xs)
    case Nil
    with assms d show ?thesis by (auto simp: list_replace_def ring_def heap_simps)
  next
    case (Cons y ys)
    with assms d show ?thesis
      unfolding list_replace_def ring_ends [OF assms(1)] bnd_Inr
      by (cases ys rule: rev_cases) (auto simp: ring_def dseg_append ring_ends heap_simps)
  qed
qed

text \<open>
  \<open>list_replace_init\<close> on heads hands the whole list of the old head over to the new one, the
  empty list too, and leaves the old head with an empty list.
\<close>

theorem list_replace_init_head:
  assumes "ring h old xs" and "new \<in> dom h" and "new \<notin> set (old # xs)"
  shows "\<exists>h'. list_replace_init old new h = Inr h' \<and> ring h' new xs \<and> ring h' old []"
proof -
  obtain h1 where h1: "list_replace old new h = Inr h1" "ring h1 new xs"
    using list_replace_head [OF assms] by blast
  have "list_replace old new h = Inr h1 \<Longrightarrow> dom h1 = dom h"
    by (auto simp: list_replace_def get_nxt_def get_prv_def set_nxt_def set_prv_def split: if_splits)
  then have "old \<in> dom h1" using h1(1) ring_dom [OF assms(1)] by auto
  then obtain h2 where h2: "INIT_LIST_HEAD old h1 = Inr h2" "ring h2 old []" "same_off {old} h1 h2"
    using INIT_LIST_HEAD_in by blast
  have "ring h2 new xs" by (rule ring_frame [OF h1(2) h2(3)]) (use assms(1,3) in \<open>auto dest: ring_distinct\<close>)
  with h1 h2 show ?thesis by (simp add: list_replace_init_def)
qed

text \<open>\<open>list_move\<close> and \<open>list_move_tail\<close> take a node out of one list and put it into another.\<close>

lemma move_ring:
  assumes "ring h src xs" and "ring h dst ys" and "set (src # xs) \<inter> set (dst # ys) = {}"
    and "x \<in> set xs"
  shows "\<exists>h'. list_del_entry x h = Inr h' \<and> ring h' src (remove1 x xs) \<and> ring h' dst ys \<and>
    x \<in> dom h' \<and> x \<notin> set (dst # ys) \<and> set (src # remove1 x xs) \<inter> set (dst # x # ys) = {}"
proof -
  obtain h' where h': "list_del_entry x h = Inr h'" "ring h' src (remove1 x xs)"
    "same_off (set (src # remove1 x xs)) h h'" "x \<notin> set (src # remove1 x xs)"
    using list_del_entry_ring [OF assms(1,4)] by auto
  have sub: "set (remove1 x xs) \<subseteq> set xs" by (rule set_remove1_subset)
  then have "ring h' dst ys"
    using ring_frame [OF assms(2) h'(3)] assms(3) by fastforce
  moreover have "x \<in> dom h'"
    using h'(3) assms(4) ring_dom [OF assms(1)] by (auto simp: same_off_def)
  ultimately show ?thesis using h' assms(3,4) sub by auto
qed

text \<open>
  \<open>list_move\<close> takes a node out of one list and makes it the first of another; the other nodes
  of both lists stay in order.
\<close>

theorem list_move_ring:
  assumes "ring h src xs" and "ring h dst ys" and "set (src # xs) \<inter> set (dst # ys) = {}"
    and "x \<in> set xs"
  shows "\<exists>h'. list_move x dst h = Inr h' \<and> ring h' src (remove1 x xs) \<and> ring h' dst (x # ys)"
proof -
  obtain h1 where h1: "list_del_entry x h = Inr h1" "ring h1 src (remove1 x xs)" "ring h1 dst ys"
    "x \<in> dom h1" "x \<notin> set (dst # ys)" "set (src # remove1 x xs) \<inter> set (dst # x # ys) = {}"
    using move_ring [OF assms] by blast
  obtain h2 where h2: "list_add x dst h1 = Inr h2" "ring h2 dst (x # ys)"
    "same_off (set (dst # x # ys)) h1 h2"
    using list_add_ring [OF h1(3-5)] by auto
  have "ring h2 src (remove1 x xs)" by (rule ring_frame [OF h1(2) h2(3)]) (use h1(6) in blast)
  with h1 h2 show ?thesis by (simp add: list_move_def)
qed

text \<open>
  \<open>list_move_tail\<close> takes a node out of one list and makes it the last of another.
\<close>

theorem list_move_tail_ring:
  assumes "ring h src xs" and "ring h dst ys" and "set (src # xs) \<inter> set (dst # ys) = {}"
    and "x \<in> set xs"
  shows "\<exists>h'. list_move_tail x dst h = Inr h' \<and> ring h' src (remove1 x xs) \<and> ring h' dst (ys @ [x])"
proof -
  obtain h1 where h1: "list_del_entry x h = Inr h1" "ring h1 src (remove1 x xs)" "ring h1 dst ys"
    "x \<in> dom h1" "x \<notin> set (dst # ys)" "set (src # remove1 x xs) \<inter> set (dst # x # ys) = {}"
    using move_ring [OF assms] by blast
  obtain h2 where h2: "list_add_tail x dst h1 = Inr h2" "ring h2 dst (ys @ [x])"
    "same_off (set (dst # x # ys)) h1 h2"
    using list_add_tail_ring [OF h1(3-5)] by auto
  have "ring h2 src (remove1 x xs)" by (rule ring_frame [OF h1(2) h2(3)]) (use h1(6) in blast)
  with h1 h2 show ?thesis by (simp add: list_move_tail_def)
qed

section \<open>Tests and loops\<close>

lemma list_empty_ring: "ring h head xs \<Longrightarrow> list_empty head h = Inr (xs = [])"
  by (cases xs) (auto simp: list_empty_def ring_ends dest: ring_distinct)

lemma list_empty_careful_ring: "ring h head xs \<Longrightarrow> list_empty_careful head h = Inr (xs = [])"
  by (cases xs) (auto simp: list_empty_careful_def ring_ends dest: ring_distinct)

lemma list_is_last_ring:
  "ring h head (as @ x # bs) \<Longrightarrow> list_is_last x head h = Inr (bs = [])"
  by (cases bs) (auto simp: list_is_last_def ring_neighbours dest: ring_distinct)

text \<open>
  \<open>list_is_singular\<close> says whether the list has exactly one node.
\<close>

theorem list_is_singular_ring:
  assumes "ring h head xs"
  shows "list_is_singular head h = Inr (length xs = 1)"
proof (cases xs)
  case Nil
  with assms show ?thesis by (simp add: list_is_singular_def list_empty_ring)
next
  case (Cons x ys)
  with assms have "distinct (x # ys)" by (simp add: ring_def)
  then have "x = last (x # ys) \<longleftrightarrow> ys = []" by (cases ys rule: rev_cases) auto
  with Cons assms show ?thesis by (auto simp: list_is_singular_def list_empty_ring ring_ends)
qed

text \<open>A loop over a ring sees each node once, in order, with one more step than there are nodes.\<close>

lemma walk_nxt:
  assumes "dseg (nxt_of h) (prv_of h) a xs head" and "head \<notin> set xs" and "length xs < k"
  shows "list_walk get_nxt k (behind xs head) head h = Inr xs"
  using assms
proof (induction xs arbitrary: a k)
  case Nil
  then show ?case by (cases k) auto
next
  case (Cons x xs)
  then have "get_nxt x h = Inr (behind xs head)" by (cases xs) (auto simp: heap_simps)
  moreover have "list_walk get_nxt (k - 1) (behind xs head) head h = Inr xs"
    by (rule Cons.IH) (use Cons.prems in auto)
  ultimately show ?case using Cons.prems by (cases k) auto
qed

lemma list_for_each_ring: "ring h head xs \<Longrightarrow> length xs < k \<Longrightarrow> list_for_each k head h = Inr xs"
  using walk_nxt [of h head xs head k] by (simp add: list_for_each_def ring_ends(1)) (simp add: ring_def)

lemma walk_prv:
  assumes "dseg (nxt_of h) (prv_of h) head xs b" and "head \<notin> set xs" and "length xs < k"
  shows "list_walk get_prv k (before head xs) head h = Inr (rev xs)"
  using assms
proof (induction xs arbitrary: b k rule: rev_induct)
  case Nil
  then show ?case by (cases k) auto
next
  case (snoc x xs)
  then have "dseg (nxt_of h) (prv_of h) head xs x" by (simp add: dseg_append)
  moreover from this have "get_prv x h = Inr (before head xs)"
    by (cases xs rule: rev_cases) (auto simp: heap_simps dseg_append)
  moreover have "list_walk get_prv (k - 1) (before head xs) head h = Inr (rev xs)"
    by (rule snoc.IH) (use snoc.prems calculation in auto)
  ultimately show ?case using snoc.prems by (cases k) auto
qed

lemma list_for_each_prev_ring:
  "ring h head xs \<Longrightarrow> length xs < k \<Longrightarrow> list_for_each_prev k head h = Inr (rev xs)"
  using walk_prv [of h head xs head k] by (simp add: list_for_each_prev_def ring_ends(2)) (auto simp: ring_def)

section \<open>The contract of an intrusive list\<close>

text \<open>
  What the owner of a list relies on: adding a fresh allocated node puts it at the place
  \<open>place\<close> names, deleting a node of the list takes it out, and the other cells of the heap
  stay as they are. \<open>run\<close> is any sequence of additions and deletions.
\<close>

datatype list_op = Add addr | Del addr

fun run_ops :: "(addr \<Rightarrow> addr \<Rightarrow> lheap \<Rightarrow> lheap cres) \<Rightarrow> (addr \<Rightarrow> lheap \<Rightarrow> lheap cres) \<Rightarrow>
  addr \<Rightarrow> list_op list \<Rightarrow> lheap \<Rightarrow> lheap cres" where
  "run_ops add del head [] h = Inr h"
| "run_ops add del head (Add x # ops) h = bnd (add x head h) (run_ops add del head ops)"
| "run_ops add del head (Del x # ops) h = bnd (del x h) (run_ops add del head ops)"

text \<open>The abstract list after the operations, and whether each is allowed where it is run.\<close>

fun spec_ops :: "(addr \<Rightarrow> addr list \<Rightarrow> addr list) \<Rightarrow> list_op list \<Rightarrow> addr list \<Rightarrow> addr list" where
  "spec_ops place [] xs = xs"
| "spec_ops place (Add x # ops) xs = spec_ops place ops (place x xs)"
| "spec_ops place (Del x # ops) xs = spec_ops place ops (remove1 x xs)"

fun ops_ok :: "addr set \<Rightarrow> list_op list \<Rightarrow> addr set \<Rightarrow> bool" where
  "ops_ok cells [] X = True"
| "ops_ok cells (Add x # ops) X = (x \<in> cells \<and> x \<notin> X \<and> ops_ok cells ops (insert x X))"
| "ops_ok cells (Del x # ops) X = (x \<in> X \<and> ops_ok cells ops (X - {x}))"

locale intrusive_list =
  fixes add :: "addr \<Rightarrow> addr \<Rightarrow> lheap \<Rightarrow> lheap cres"
    and del :: "addr \<Rightarrow> lheap \<Rightarrow> lheap cres"
    and place :: "addr \<Rightarrow> addr list \<Rightarrow> addr list"
  assumes place_set: "set (place x xs) = insert x (set xs)"
    and add_law: "ring h head xs \<Longrightarrow> x \<in> dom h \<Longrightarrow> x \<notin> set (head # xs) \<Longrightarrow>
      \<exists>h'. add x head h = Inr h' \<and> ring h' head (place x xs) \<and>
        same_off (set (head # x # xs)) h h'"
    and del_law: "ring h head xs \<Longrightarrow> x \<in> set xs \<Longrightarrow>
      \<exists>h'. del x h = Inr h' \<and> ring h' head (remove1 x xs) \<and> same_off (set (head # xs)) h h'"
begin

lemma run_ring:
  assumes "ring h head xs" and "ops_ok (dom h - {head}) ops (set xs)"
  shows "\<exists>h'. run_ops add del head ops h = Inr h' \<and> ring h' head (spec_ops place ops xs) \<and> dom h' = dom h"
  using assms
proof (induction ops arbitrary: h xs)
  case Nil
  then show ?case by simp
next
  case (Cons p ops)
  show ?case
  proof (cases p)
    case (Add x)
    with Cons.prems have "x \<in> dom h" "x \<notin> set (head # xs)" by auto
    from add_law [OF Cons.prems(1) this] obtain h1 where h1: "add x head h = Inr h1"
      "ring h1 head (place x xs)" "dom h1 = dom h" by (auto dest: same_off_dom)
    moreover have "ops_ok (dom h1 - {head}) ops (set (place x xs))"
      using Cons.prems Add h1(3) by (simp add: place_set)
    ultimately show ?thesis using Cons.IH [of h1 "place x xs"] Add by auto
  next
    case (Del x)
    with Cons.prems have "x \<in> set xs" by simp
    from del_law [OF Cons.prems(1) this] obtain h1 where h1: "del x h = Inr h1"
      "ring h1 head (remove1 x xs)" "dom h1 = dom h" by (auto dest: same_off_dom)
    moreover have "ops_ok (dom h1 - {head}) ops (set (remove1 x xs))"
      using Cons.prems Del h1(3) by (simp add: set_remove1_eq ring_def)
    ultimately show ?thesis using Cons.IH [of h1 "remove1 x xs"] Del by auto
  qed
qed

end

interpretation stack: intrusive_list list_add list_del "\<lambda>x xs. x # xs"
  by unfold_locales (use list_add_ring list_del_ring in \<open>simp_all, blast+\<close>)

interpretation queue: intrusive_list list_add_tail list_del "\<lambda>x xs. xs @ [x]"
  by unfold_locales (use list_add_tail_ring list_del_ring in \<open>simp_all, blast+\<close>)

interpretation stack_init: intrusive_list list_add list_del_init "\<lambda>x xs. x # xs"
  by unfold_locales (use list_add_ring list_del_init_ring in \<open>simp_all, blast+\<close>)

section \<open>Properties\<close>

text \<open>
  C22: Any sequence of additions at the front of a list (\<open>list_add\<close>) and deletions
  (\<open>list_del\<close>), each of a node it may add or delete, runs without a fault and gives the list that
  consing and removing give, and a walk with \<open>list_for_each\<close> then sees exactly that list.
\<close>

theorem list_stack:
  assumes "ring h head xs" and "ops_ok (dom h - {head}) ops (set xs)"
    and "length (spec_ops (\<lambda>x xs. x # xs) ops xs) < k"
  shows "\<exists>h'. run_ops list_add list_del head ops h = Inr h' \<and>
    list_for_each k head h' = Inr (spec_ops (\<lambda>x xs. x # xs) ops xs)"
  using stack.run_ring [OF assms(1,2)] list_for_each_ring [OF _ assms(3)] by blast

text \<open>
  The same for a list used as a queue, with \<open>list_add_tail\<close>; the walk backwards with
  \<open>list_for_each_prev\<close> sees the list reversed.
\<close>

theorem list_queue:
  assumes "ring h head xs" and "ops_ok (dom h - {head}) ops (set xs)"
    and "length (spec_ops (\<lambda>x xs. xs @ [x]) ops xs) < k"
  shows "\<exists>h'. run_ops list_add_tail list_del head ops h = Inr h' \<and>
    list_for_each_prev k head h' = Inr (rev (spec_ops (\<lambda>x xs. xs @ [x]) ops xs))"
  using queue.run_ring [OF assms(1,2)] list_for_each_prev_ring [OF _ assms(3)] by blast

text \<open>
  A node deleted with \<open>list_del\<close> is poisoned: the list goes on without it, and a deletion of
  the same node once more, like any step from it, follows an address that nothing is allocated at
  and faults. After \<open>list_del_init\<close> the node is an empty list and may be deleted again.
\<close>

theorem list_del_twice:
  assumes "ring h head xs" and "x \<in> set xs" and "{LIST_POISON1, LIST_POISON2} \<inter> dom h = {}"
  shows "bnd (list_del x h) (list_del x) = Inl Bad_Pointer \<and>
    (\<exists>h'. bnd (list_del_init x h) (list_del_init x) = Inr h' \<and> ring h' head (remove1 x xs))"
proof
  obtain h1 where h1: "list_del_entry x h = Inr h1" "dom h1 = dom h"
    using list_del_entry_ring [OF assms(1,2)] by (auto dest: same_off_dom)
  have x: "x \<in> dom h1" using h1(2) assms(1,2) ring_dom [OF assms(1)] by auto
  define h2 where "h2 = upd_prv x LIST_POISON2 (upd_nxt x LIST_POISON1 h1)"
  have "list_del x h = Inr h2" using h1(1) x by (simp add: list_del_def heap_simps h2_def)
  moreover have "get_prv x h2 = Inr LIST_POISON2" "get_nxt x h2 = Inr LIST_POISON1" "dom h2 = dom h"
    using x h1(2) by (simp_all add: heap_simps h2_def)
  moreover have "h2 LIST_POISON1 = None" using assms(3) \<open>dom h2 = dom h\<close> by (auto simp: domIff)
  ultimately show "bnd (list_del x h) (list_del x) = Inl Bad_Pointer"
    by (simp add: list_del_def list_del_entry_def list_del_between_def set_prv_def)
next
  have d: "distinct (head # xs)" by (rule ring_distinct [OF assms(1)])
  then have x: "x \<notin> set (head # remove1 x xs)" using assms(2) by auto
  obtain h1 where h1: "list_del_init x h = Inr h1" "ring h1 head (remove1 x xs)" "ring h1 x []"
    using list_del_init_ring [OF assms(1,2)] by blast
  then have f: "nxt_of h1 x = Some x" "prv_of h1 x = Some x" "x \<in> dom h1"
    by (auto simp: ring_def dest: nxt_of_dom)
  have "list_del_init x h1 = Inr (upd_prv x x (upd_nxt x x (upd_nxt x x (upd_prv x x h1))))"
    using f by (simp add: list_del_init_def list_del_entry_def list_del_between_def INIT_LIST_HEAD_def heap_simps)
  moreover have "same_off {x} h1 (upd_prv x x (upd_nxt x x (upd_nxt x x (upd_prv x x h1))))"
    by (simp add: heap_simps)
  ultimately show "\<exists>h'. bnd (list_del_init x h) (list_del_init x) = Inr h' \<and> ring h' head (remove1 x xs)"
    using h1 ring_frame [OF h1(2)] x by auto
qed

text \<open>
  Two lists, of the nodes 2, 3, 4 at the head 1 and of the node 7 at the head 6, and a node 5 in
  neither: the heap of the witnesses.
\<close>

definition sample_heap :: lheap where
  "sample_heap = [1 \<mapsto> \<lparr>prv = 4, nxt = 2\<rparr>, 2 \<mapsto> \<lparr>prv = 1, nxt = 3\<rparr>, 3 \<mapsto> \<lparr>prv = 2, nxt = 4\<rparr>,
     4 \<mapsto> \<lparr>prv = 3, nxt = 1\<rparr>, 5 \<mapsto> \<lparr>prv = 5, nxt = 5\<rparr>, 6 \<mapsto> \<lparr>prv = 7, nxt = 7\<rparr>, 7 \<mapsto> \<lparr>prv = 6, nxt = 6\<rparr>]"

lemma sample_ring: "ring sample_heap 1 [2, 3, 4]" "ring sample_heap 6 [7]"
  by (simp_all add: ring_def sample_heap_def nxt_of_def prv_of_def)

lemma sample_dom: "dom sample_heap = {1, 2, 3, 4, 5, 6, 7}"
  by (auto simp: sample_heap_def)

theorem list_stack_witness:
  "\<exists>h'. run_ops list_add list_del 1 [Add 5, Del 3, Add 3, Del 2] sample_heap = Inr h' \<and>
    list_for_each 5 1 h' = Inr [3, 5, 4]"
  using list_stack [OF sample_ring(1), of "[Add 5, Del 3, Add 3, Del 2]" 5] by (simp add: sample_dom)

theorem list_queue_witness:
  "\<exists>h'. run_ops list_add_tail list_del 1 [Add 5, Del 3, Add 3, Del 2] sample_heap = Inr h' \<and>
    list_for_each_prev 5 1 h' = Inr [3, 5, 4]"
  using list_queue [OF sample_ring(1), of "[Add 5, Del 3, Add 3, Del 2]" 5] by (simp add: sample_dom)

theorem list_del_twice_witness:
  "bnd (list_del 3 sample_heap) (list_del 3) = Inl Bad_Pointer \<and>
    (\<exists>h'. bnd (list_del_init 3 sample_heap) (list_del_init 3) = Inr h' \<and> ring h' 1 [2, 4])"
  using list_del_twice [OF sample_ring(1), of 3] by (simp add: sample_dom LIST_POISON1_def LIST_POISON2_def)

theorem list_replace_ring_witness:
  "\<exists>h'. list_replace 3 5 sample_heap = Inr h' \<and> ring h' 1 [2, 5, 4] \<and> h' 3 = sample_heap 3"
  using list_replace_ring [of sample_heap 1 "[2]" 3 "[4]" 5] sample_ring(1) by (auto simp: sample_dom)

theorem list_replace_init_head_witness:
  "\<exists>h'. list_replace_init 1 5 sample_heap = Inr h' \<and> ring h' 5 [2, 3, 4] \<and> ring h' 1 []"
  by (rule list_replace_init_head [OF sample_ring(1)]) (simp_all add: sample_dom)

theorem list_move_ring_witness:
  "\<exists>h'. list_move 3 6 sample_heap = Inr h' \<and> ring h' 1 [2, 4] \<and> ring h' 6 [3, 7]"
  using list_move_ring [OF sample_ring, of 3] by simp

theorem list_move_tail_ring_witness:
  "\<exists>h'. list_move_tail 3 6 sample_heap = Inr h' \<and> ring h' 1 [2, 4] \<and> ring h' 6 [7, 3]"
  using list_move_tail_ring [OF sample_ring, of 3] by simp

theorem list_is_singular_ring_witness:
  "list_is_singular 6 sample_heap = Inr (length [7 :: addr] = 1)"
  by (rule list_is_singular_ring [OF sample_ring(2)])

end
