(* ===== verification/Hlist.thy ===== *)
theory Hlist
  imports List_Head
begin

text \<open>
  The second list of \<open>src/list.h\<close>: a doubly linked list with a single pointer head. A node's
  \<open>pprev\<close> points at the pointer that points at the node, the head's \<open>first\<close> or the \<open>next\<close> of the
  node before; \<open>slot\<close> names such a place. \<open>hchain\<close> is the abstraction, the nodes reached from a
  head, and each operation is shown to change that list as intended.
\<close>

section \<open>Nodes and operations\<close>

datatype slot = Null_Slot | First addr | Next addr | Poison_Slot

record hlist_node =
  hnext :: addr
  pprev :: slot

text \<open>NULL is the address 0. \<open>heads\<close> holds the field \<open>first\<close> of every \<open>struct hlist_head\<close>.\<close>

record hheap =
  heads :: "addr \<rightharpoonup> addr"
  hnodes :: "addr \<rightharpoonup> hlist_node"

definition get_slot :: "slot \<Rightarrow> hheap \<Rightarrow> addr cres" where
  "get_slot s h = (case s of
     First a \<Rightarrow> deref (heads h) a
   | Next x \<Rightarrow> bnd (deref (hnodes h) x) (\<lambda>n. Inr (hnext n))
   | _ \<Rightarrow> Inl Bad_Pointer)"

definition set_slot :: "slot \<Rightarrow> addr \<Rightarrow> hheap \<Rightarrow> hheap cres" where
  "set_slot s v h = (case s of
     First a \<Rightarrow> bnd (deref (heads h) a) (\<lambda>_. Inr (h\<lparr>heads := (heads h)(a \<mapsto> v)\<rparr>))
   | Next x \<Rightarrow> bnd (deref (hnodes h) x) (\<lambda>n. Inr (h\<lparr>hnodes := (hnodes h)(x \<mapsto> n\<lparr>hnext := v\<rparr>)\<rparr>))
   | _ \<Rightarrow> Inl Bad_Pointer)"

definition get_pprev :: "addr \<Rightarrow> hheap \<Rightarrow> slot cres" where
  "get_pprev x h = bnd (deref (hnodes h) x) (\<lambda>n. Inr (pprev n))"

definition set_pprev :: "addr \<Rightarrow> slot \<Rightarrow> hheap \<Rightarrow> hheap cres" where
  "set_pprev x s h = bnd (deref (hnodes h) x) (\<lambda>n. Inr (h\<lparr>hnodes := (hnodes h)(x \<mapsto> n\<lparr>pprev := s\<rparr>)\<rparr>))"

definition INIT_HLIST_HEAD :: "addr \<Rightarrow> hheap \<Rightarrow> hheap cres" where
  "INIT_HLIST_HEAD hp h = set_slot (First hp) 0 h"

definition INIT_HLIST_NODE :: "addr \<Rightarrow> hheap \<Rightarrow> hheap cres" where
  "INIT_HLIST_NODE n h = bnd (set_slot (Next n) 0 h) (set_pprev n Null_Slot)"

definition hlist_unhashed :: "addr \<Rightarrow> hheap \<Rightarrow> bool cres" where
  "hlist_unhashed n h = bnd (get_pprev n h) (\<lambda>p. Inr (p = Null_Slot))"

definition hlist_empty :: "addr \<Rightarrow> hheap \<Rightarrow> bool cres" where
  "hlist_empty hp h = bnd (get_slot (First hp) h) (\<lambda>f. Inr (f = 0))"

definition hlist_del_links :: "addr \<Rightarrow> hheap \<Rightarrow> hheap cres" where
  "hlist_del_links n h =
     bnd (get_slot (Next n) h) (\<lambda>nx.
     bnd (get_pprev n h) (\<lambda>pp.
     bnd (set_slot pp nx h) (\<lambda>h.
     if nx \<noteq> 0 then set_pprev nx pp h else Inr h)))"

definition hlist_del :: "addr \<Rightarrow> hheap \<Rightarrow> hheap cres" where
  "hlist_del n h =
     bnd (hlist_del_links n h) (\<lambda>h.
     bnd (set_slot (Next n) LIST_POISON1 h) (\<lambda>h.
     set_pprev n Poison_Slot h))"

definition hlist_del_init :: "addr \<Rightarrow> hheap \<Rightarrow> hheap cres" where
  "hlist_del_init n h =
     bnd (hlist_unhashed n h) (\<lambda>u.
     if \<not> u then bnd (hlist_del_links n h) (INIT_HLIST_NODE n) else Inr h)"

definition hlist_add_head :: "addr \<Rightarrow> addr \<Rightarrow> hheap \<Rightarrow> hheap cres" where
  "hlist_add_head n hp h =
     bnd (get_slot (First hp) h) (\<lambda>f.
     bnd (set_slot (Next n) f h) (\<lambda>h.
     bnd (if f \<noteq> 0 then set_pprev f (Next n) h else Inr h) (\<lambda>h.
     bnd (set_slot (First hp) n h) (\<lambda>h.
     set_pprev n (First hp) h))))"

definition hlist_add_before :: "addr \<Rightarrow> addr \<Rightarrow> hheap \<Rightarrow> hheap cres" where
  "hlist_add_before n nx h =
     bnd (get_pprev nx h) (\<lambda>pp.
     bnd (set_pprev n pp h) (\<lambda>h.
     bnd (set_slot (Next n) nx h) (\<lambda>h.
     bnd (set_pprev nx (Next n) h) (\<lambda>h.
     bnd (get_pprev n h) (\<lambda>pp.
     set_slot pp n h)))))"

definition hlist_add_behind :: "addr \<Rightarrow> addr \<Rightarrow> hheap \<Rightarrow> hheap cres" where
  "hlist_add_behind n pv h =
     bnd (get_slot (Next pv) h) (\<lambda>nx.
     bnd (set_slot (Next n) nx h) (\<lambda>h.
     bnd (set_slot (Next pv) n h) (\<lambda>h.
     bnd (set_pprev n (Next pv) h) (\<lambda>h.
     bnd (get_slot (Next n) h) (\<lambda>nx.
     if nx \<noteq> 0 then set_pprev nx (Next n) h else Inr h)))))"

definition hlist_add_fake :: "addr \<Rightarrow> hheap \<Rightarrow> hheap cres" where
  "hlist_add_fake n h = set_pprev n (Next n) h"

definition hlist_fake :: "addr \<Rightarrow> hheap \<Rightarrow> bool cres" where
  "hlist_fake n h = bnd (get_pprev n h) (\<lambda>p. Inr (p = Next n))"

definition hlist_is_singular_node :: "addr \<Rightarrow> addr \<Rightarrow> hheap \<Rightarrow> bool cres" where
  "hlist_is_singular_node n hp h =
     bnd (get_slot (Next n) h) (\<lambda>nx.
     if nx \<noteq> 0 then Inr False else bnd (get_pprev n h) (\<lambda>p. Inr (p = First hp)))"

definition hlist_move_list :: "addr \<Rightarrow> addr \<Rightarrow> hheap \<Rightarrow> hheap cres" where
  "hlist_move_list old new h =
     bnd (get_slot (First old) h) (\<lambda>f.
     bnd (set_slot (First new) f h) (\<lambda>h.
     bnd (get_slot (First new) h) (\<lambda>f.
     bnd (if f \<noteq> 0 then set_pprev f (First new) h else Inr h) (\<lambda>h.
     set_slot (First old) 0 h))))"

text \<open>\<open>hlist_for_each\<close>: the nodes the body of the loop sees.\<close>

fun hlist_walk :: "nat \<Rightarrow> addr \<Rightarrow> hheap \<Rightarrow> addr list cres" where
  "hlist_walk 0 pos h = Inl No_Fuel"
| "hlist_walk (Suc k) pos h =
     (if pos = 0 then Inr []
      else bnd (get_slot (Next pos) h) (\<lambda>n. bnd (hlist_walk k n h) (\<lambda>r. Inr (pos # r))))"

definition hlist_for_each :: "nat \<Rightarrow> addr \<Rightarrow> hheap \<Rightarrow> addr list cres" where
  "hlist_for_each k hp h = bnd (get_slot (First hp) h) (\<lambda>f. hlist_walk k f h)"

section \<open>The chain of a head\<close>

text \<open>
  \<open>hseg V P s xs\<close>: from the slot \<open>s\<close> the links run through \<open>xs\<close>, and each node points back at the
  slot that points at it; \<open>end_slot s xs\<close> is the slot behind them. \<open>V\<close> reads slots, \<open>P\<close> the
  \<open>pprev\<close> of nodes.
\<close>

definition val :: "hheap \<Rightarrow> slot \<rightharpoonup> addr" where
  "val h s = (case s of First a \<Rightarrow> heads h a | Next x \<Rightarrow> map_option hnext (hnodes h x) | _ \<Rightarrow> None)"

definition pp :: "hheap \<Rightarrow> addr \<rightharpoonup> slot" where
  "pp h x = map_option pprev (hnodes h x)"

fun hseg :: "(slot \<rightharpoonup> addr) \<Rightarrow> (addr \<rightharpoonup> slot) \<Rightarrow> slot \<Rightarrow> addr list \<Rightarrow> bool" where
  "hseg V P s [] = True"
| "hseg V P s (x # xs) \<longleftrightarrow> V s = Some x \<and> x \<noteq> 0 \<and> P x = Some s \<and> hseg V P (Next x) xs"

definition end_slot :: "slot \<Rightarrow> addr list \<Rightarrow> slot" where
  "end_slot s xs = (if xs = [] then s else Next (last xs))"

definition hchain :: "hheap \<Rightarrow> addr \<Rightarrow> addr list \<Rightarrow> bool" where
  "hchain h hp xs \<longleftrightarrow> hseg (val h) (pp h) (First hp) xs \<and> val h (end_slot (First hp) xs) = Some 0 \<and> distinct xs"

text \<open>Stores as total updates, and what the two readings give after them.\<close>

definition uval :: "slot \<Rightarrow> addr \<Rightarrow> hheap \<Rightarrow> hheap" where
  "uval s v h = (case s of
     First a \<Rightarrow> h\<lparr>heads := (heads h)(a := map_option (\<lambda>_. v) (heads h a))\<rparr>
   | Next x \<Rightarrow> h\<lparr>hnodes := (hnodes h)(x := map_option (hnext_update (\<lambda>_. v)) (hnodes h x))\<rparr>
   | _ \<Rightarrow> h)"

definition upp :: "addr \<Rightarrow> slot \<Rightarrow> hheap \<Rightarrow> hheap" where
  "upp x s h = h\<lparr>hnodes := (hnodes h)(x := map_option (pprev_update (\<lambda>_. s)) (hnodes h x))\<rparr>"

named_theorems hlist_simps \<open>reading and writing slots and back pointers\<close>

lemma get_slot_eq [hlist_simps]: "val h s = Some v \<Longrightarrow> get_slot s h = Inr v"
  by (auto simp: val_def get_slot_def split: slot.splits)

lemma get_pprev_eq [hlist_simps]: "pp h x = Some s \<Longrightarrow> get_pprev x h = Inr s"
  by (auto simp: pp_def get_pprev_def)

lemma set_slot_eq [hlist_simps]: "s \<in> dom (val h) \<Longrightarrow> set_slot s v h = Inr (uval s v h)"
  by (auto simp: val_def set_slot_def uval_def split: slot.splits)

lemma set_pprev_eq [hlist_simps]: "x \<in> dom (pp h) \<Longrightarrow> set_pprev x s h = Inr (upp x s h)"
  by (auto simp: pp_def set_pprev_def upp_def)

lemma val_uval [hlist_simps]: "s \<in> dom (val h) \<Longrightarrow> val (uval s v h) = (val h)(s \<mapsto> v)"
  by (cases s) (auto simp: val_def uval_def fun_eq_iff split: slot.splits)

lemma val_upp [hlist_simps]: "val (upp x s h) = val h"
  by (auto simp: val_def upp_def fun_eq_iff map_option_case split: slot.splits option.splits)

lemma pp_uval [hlist_simps]: "pp (uval s v h) = pp h"
  by (auto simp: pp_def uval_def fun_eq_iff map_option_case split: slot.splits option.splits)

lemma pp_upp [hlist_simps]: "x \<in> dom (pp h) \<Longrightarrow> pp (upp x s h) = (pp h)(x \<mapsto> s)"
  by (auto simp: pp_def upp_def fun_eq_iff)

lemma dom_next [hlist_simps]: "Next x \<in> dom (val h) \<longleftrightarrow> x \<in> dom (pp h)"
  by (auto simp: val_def pp_def)

text \<open>A segment depends on the slots it reads and on the back pointers of its nodes.\<close>

definition reads :: "slot \<Rightarrow> addr list \<Rightarrow> slot set" where
  "reads s xs = (if xs = [] then {} else insert s (Next ` set (butlast xs)))"

lemma reads_Cons: "reads s (x # xs) = insert s (reads (Next x) xs)"
  by (simp add: reads_def)

lemma end_slot_simps [simp]: "end_slot s [] = s" "end_slot s (x # xs) = end_slot (Next x) xs"
  by (simp_all add: end_slot_def)

lemma end_slot_append: "end_slot s (xs @ ys) = end_slot (end_slot s xs) ys"
  by (induction xs arbitrary: s) simp_all

lemma hseg_append: "hseg V P s (xs @ ys) \<longleftrightarrow> hseg V P s xs \<and> hseg V P (end_slot s xs) ys"
  by (induction xs arbitrary: s) auto

lemma hseg_cong:
  assumes "\<And>t. t \<in> reads s xs \<Longrightarrow> V' t = V t" and "\<And>x. x \<in> set xs \<Longrightarrow> P' x = P x"
  shows "hseg V' P' s xs = hseg V P s xs"
  using assms by (induction xs arbitrary: s) (auto simp: reads_Cons)

lemma end_slot_in: "end_slot s xs \<in> insert s (Next ` set xs)"
  by (simp add: end_slot_def)

lemma end_not_read: "distinct xs \<Longrightarrow> s \<notin> Next ` set xs \<Longrightarrow> end_slot s xs \<notin> reads s xs"
proof (induction xs arbitrary: s)
  case Nil
  then show ?case by (simp add: reads_def)
next
  case (Cons x xs)
  then have "end_slot (Next x) xs \<notin> reads (Next x) xs" by auto
  moreover have "end_slot (Next x) xs \<noteq> s" using Cons.prems end_slot_in [of "Next x" xs] by auto
  ultimately show ?case by (simp add: reads_Cons)
qed

lemma reads_sub: "reads s xs \<subseteq> insert s (Next ` set xs)"
  by (auto simp: reads_def dest: in_set_butlastD)

definition chain_in :: "(slot \<rightharpoonup> addr) \<Rightarrow> (addr \<rightharpoonup> slot) \<Rightarrow> addr \<Rightarrow> addr list \<Rightarrow> bool" where
  "chain_in V P hp xs \<longleftrightarrow> hseg V P (First hp) xs \<and> V (end_slot (First hp) xs) = Some 0 \<and> distinct xs"

lemma hchain_in: "hchain h hp xs = chain_in (val h) (pp h) hp xs"
  by (simp add: hchain_def chain_in_def)

text \<open>Inserting and removing a node, whatever the stores that did it and whatever they left in the node.\<close>

lemma chain_insert:
  assumes c: "chain_in V P hp (as @ bs)" and n: "n \<notin> set (as @ bs)" "n \<noteq> 0"
    and s: "s = end_slot (First hp) as"
    and V': "V' s = Some n" "V' (Next n) = V s" "\<And>t. t \<noteq> s \<Longrightarrow> t \<noteq> Next n \<Longrightarrow> V' t = V t"
    and P': "P' n = Some s" "bs \<noteq> [] \<Longrightarrow> P' (hd bs) = Some (Next n)"
      "\<And>x. x \<noteq> n \<Longrightarrow> (bs = [] \<or> x \<noteq> hd bs) \<Longrightarrow> P' x = P x"
  shows "chain_in V' P' hp (as @ n # bs)"
proof -
  have c': "hseg V P (First hp) as" "hseg V P s bs" "V (end_slot s bs) = Some 0" "distinct (as @ bs)"
    using c by (simp_all add: chain_in_def hseg_append end_slot_append s)
  have d: "distinct as" "set as \<inter> set bs = {}" "distinct bs" using c'(4) by auto
  have sl: "s = First hp \<or> s \<in> Next ` set as" using end_slot_in [of "First hp" as] s by simp
  have "s \<notin> reads (First hp) as" unfolding s by (rule end_not_read [OF d(1)]) auto
  moreover have "Next n \<notin> reads (First hp) as" using reads_sub [of "First hp" as] n(1) by auto
  ultimately have "hseg V' P' (First hp) as = hseg V P (First hp) as"
    by (intro hseg_cong V'(3) P'(3)) (use n(1) d(2) in \<open>auto\<close>)
  moreover have "hseg V' P' (Next n) bs \<and> V' (end_slot (Next n) bs) = Some 0"
  proof (cases bs)
    case Nil
    with c'(3) V'(2) show ?thesis by simp
  next
    case (Cons y ys)
    then have y: "V s = Some y" "y \<noteq> 0" "hseg V P (Next y) ys" using c'(2) by auto
    have "t \<noteq> s \<and> t \<noteq> Next n" if "t \<in> insert (Next y) (Next ` set ys)" for t
      using that sl n(1) d(2) Cons by auto
    then have off: "V' t = V t" if "t \<in> insert (Next y) (Next ` set ys)" for t using that V'(3) by blast
    have "hseg V' P' (Next y) ys = hseg V P (Next y) ys"
      by (rule hseg_cong, rule off, use reads_sub [of "Next y" ys] in blast, rule P'(3))
        (use n(1) d(3) Cons in auto)
    moreover have "V' (end_slot (Next y) ys) = Some 0" using off [OF end_slot_in] c'(3) Cons by simp
    ultimately show ?thesis using y V'(2) P'(2) Cons by simp
  qed
  ultimately show ?thesis
    using c' n V'(1) P'(1) s by (simp add: chain_in_def hseg_append end_slot_append)
qed

lemma chain_remove:
  assumes c: "chain_in V P hp (as @ n # bs)" and s: "s = end_slot (First hp) as"
    and V': "V' s = V (Next n)" "\<And>t. t \<noteq> s \<Longrightarrow> t \<noteq> Next n \<Longrightarrow> V' t = V t"
    and P': "bs \<noteq> [] \<Longrightarrow> P' (hd bs) = Some s" "\<And>x. x \<noteq> n \<Longrightarrow> (bs = [] \<or> x \<noteq> hd bs) \<Longrightarrow> P' x = P x"
  shows "chain_in V' P' hp (as @ bs)"
proof -
  have c': "hseg V P (First hp) as" "hseg V P (Next n) bs" "V (end_slot (Next n) bs) = Some 0"
    "distinct (as @ n # bs)"
    using c by (simp_all add: chain_in_def hseg_append end_slot_append s)
  have d: "distinct as" "set as \<inter> set bs = {}" "distinct bs" "n \<notin> set as" "n \<notin> set bs" using c'(4) by auto
  have sl: "s = First hp \<or> s \<in> Next ` set as" using end_slot_in [of "First hp" as] s by simp
  have "s \<notin> reads (First hp) as" unfolding s by (rule end_not_read [OF d(1)]) auto
  moreover have "Next n \<notin> reads (First hp) as" using reads_sub [of "First hp" as] d(4) by auto
  ultimately have "hseg V' P' (First hp) as = hseg V P (First hp) as"
    by (intro hseg_cong V'(2) P'(2)) (use d in \<open>auto\<close>)
  moreover have "hseg V' P' s bs \<and> V' (end_slot s bs) = Some 0"
  proof (cases bs)
    case Nil
    with c'(3) V'(1) show ?thesis by simp
  next
    case (Cons y ys)
    then have y: "V (Next n) = Some y" "y \<noteq> 0" "hseg V P (Next y) ys" using c'(2) by auto
    have "t \<noteq> s \<and> t \<noteq> Next n" if "t \<in> insert (Next y) (Next ` set ys)" for t
      using that sl d Cons by auto
    then have off: "V' t = V t" if "t \<in> insert (Next y) (Next ` set ys)" for t using that V'(2) by blast
    have "hseg V' P' (Next y) ys = hseg V P (Next y) ys"
      by (rule hseg_cong, rule off, use reads_sub [of "Next y" ys] in blast, rule P'(2))
        (use d Cons in auto)
    moreover have "V' (end_slot (Next y) ys) = Some 0" using off [OF end_slot_in] c'(3) Cons by simp
    ultimately show ?thesis using y V'(1) P'(1) Cons by simp
  qed
  ultimately show ?thesis using c' d s by (simp add: chain_in_def hseg_append end_slot_append)
qed

section \<open>The operations\<close>

lemma dom_pp: "dom (pp h) = dom (hnodes h)"
  by (auto simp: pp_def)

lemma chain_dom:
  assumes "chain_in (val h) (pp h) hp xs"
  shows "First hp \<in> dom (val h)" and "\<And>x. x \<in> set xs \<Longrightarrow> x \<in> dom (pp h)" and "0 \<notin> set xs"
proof -
  have "V s \<noteq> None \<and> (\<forall>x \<in> set xs. P x \<noteq> None) \<and> 0 \<notin> set xs"
    if "hseg V P s xs" "V (end_slot s xs) = Some 0" for V :: "slot \<rightharpoonup> addr" and P s
    using that by (induction xs arbitrary: s) auto
  from this [of "val h" "pp h" "First hp"] assms
  show "First hp \<in> dom (val h)" and "\<And>x. x \<in> set xs \<Longrightarrow> x \<in> dom (pp h)" and "0 \<notin> set xs"
    by (auto simp: chain_in_def)
qed

lemma chain_at:
  assumes "chain_in V P hp (as @ x # bs)" and "s = end_slot (First hp) as"
  shows "V s = Some x" and "P x = Some s" and "x \<noteq> 0" and "V (Next x) = Some (if bs = [] then 0 else hd bs)"
    and "bs \<noteq> [] \<Longrightarrow> P (hd bs) = Some (Next x)"
  using assms by (cases bs; simp add: chain_in_def hseg_append end_slot_append)+

lemma chain_first:
  assumes "chain_in V P hp xs"
  shows "V (First hp) = Some (if xs = [] then 0 else hd xs)" and "xs \<noteq> [] \<Longrightarrow> P (hd xs) = Some (First hp)"
  using assms by (cases xs; simp add: chain_in_def)+

lemma hlist_add_head_chain:
  assumes c: "hchain h hp xs" and n: "n \<in> dom (hnodes h)" "n \<notin> set xs" "n \<noteq> 0"
  shows "\<exists>h'. hlist_add_head n hp h = Inr h' \<and> hchain h' hp (n # xs) \<and> dom (hnodes h') = dom (hnodes h)"
proof -
  have c': "chain_in (val h) (pp h) hp ([] @ xs)" using c by (simp add: hchain_in)
  note f = chain_first [OF c [unfolded hchain_in]] and d = chain_dom [OF c [unfolded hchain_in]]
  have nd: "n \<in> dom (pp h)" using n(1) by (auto simp: pp_def)
  define h' where "h' = upp n (First hp) (uval (First hp) n
     (if xs = [] then uval (Next n) 0 h else upp (hd xs) (Next n) (uval (Next n) (hd xs) h)))"
  have hx: "xs \<noteq> [] \<Longrightarrow> hd xs \<in> dom (pp h) \<and> hd xs \<noteq> 0 \<and> hd xs \<noteq> n" using d n(2) hd_in_set [of xs] by metis
  have dn: "Next n \<in> dom (val h)" using nd by (simp add: hlist_simps)
  have "hlist_add_head n hp h = Inr h'"
    using f(1) d(1) nd dn hx by (cases "xs = []") (simp_all add: hlist_add_head_def hlist_simps h'_def)
  moreover have "chain_in (val h') (pp h') hp ([] @ n # xs)"
    by (rule chain_insert [OF c' _ n(3) refl])
      (use n(2) f d(1) nd dn hx in \<open>auto simp: h'_def hlist_simps\<close>)
  moreover have "dom (pp h') = dom (pp h)" using d(1) nd dn hx by (auto simp: h'_def hlist_simps)
  then have "dom (hnodes h') = dom (hnodes h)" by (simp add: dom_pp)
  ultimately show ?thesis by (simp add: hchain_in)
qed

text \<open>
  \<open>hlist_add_before\<close> puts a new node before a node of the list, first or not, and leaves
  the rest of the list in order.
\<close>

theorem hlist_add_before_chain:
  assumes c: "hchain h hp (as @ y # bs)" and n: "n \<in> dom (hnodes h)" "n \<notin> set (as @ y # bs)" "n \<noteq> 0"
  shows "\<exists>h'. hlist_add_before n y h = Inr h' \<and> hchain h' hp (as @ n # y # bs)"
proof -
  define s where "s = end_slot (First hp) as"
  note at = chain_at [OF c [unfolded hchain_in] s_def] and d = chain_dom [OF c [unfolded hchain_in]]
  have nd: "n \<in> dom (pp h)" "y \<in> dom (pp h)" "n \<noteq> y" using n d(2) by (auto simp: pp_def)
  have dn: "Next n \<in> dom (val h)" "s \<in> dom (val h)" using nd(1) at(1) by (auto simp: hlist_simps)
  define h' where "h' = uval s n (upp y (Next n) (uval (Next n) y (upp n s h)))"
  have "hlist_add_before n y h = Inr h'"
    using at(1,2) nd dn by (simp add: hlist_add_before_def hlist_simps h'_def)
  moreover have "s \<noteq> Next n" using end_slot_in [of "First hp" as] n(2) by (auto simp: s_def)
  then have "chain_in (val h') (pp h') hp (as @ n # y # bs)"
    by (intro chain_insert [OF c [unfolded hchain_in] n(2,3) s_def])
      (use at nd dn in \<open>auto simp: h'_def hlist_simps\<close>)
  ultimately show ?thesis by (simp add: hchain_in)
qed

text \<open>
  \<open>hlist_add_behind\<close> puts a new node behind a node of the list, last or not, and leaves the
  rest of the list in order.
\<close>

theorem hlist_add_behind_chain:
  assumes c: "hchain h hp (as @ y # bs)" and n: "n \<in> dom (hnodes h)" "n \<notin> set (as @ y # bs)" "n \<noteq> 0"
  shows "\<exists>h'. hlist_add_behind n y h = Inr h' \<and> hchain h' hp (as @ y # n # bs)"
proof -
  have c': "chain_in (val h) (pp h) hp ((as @ [y]) @ bs)" using c by (simp add: hchain_in)
  note at = chain_at [OF c [unfolded hchain_in] refl] and d = chain_dom [OF c']
  have nd: "n \<in> dom (pp h)" "y \<in> dom (pp h)" "n \<noteq> y" using n d(2) by (auto simp: pp_def)
  have dn: "Next n \<in> dom (val h)" "Next y \<in> dom (val h)" using nd by (auto simp: hlist_simps)
  have hb: "bs \<noteq> [] \<Longrightarrow> hd bs \<in> dom (pp h) \<and> hd bs \<noteq> 0 \<and> hd bs \<noteq> n" using d n(2) by (cases bs) auto
  define h1 where "h1 = upp n (Next y) (uval (Next y) n (uval (Next n) (if bs = [] then 0 else hd bs) h))"
  define h' where "h' = (if bs = [] then h1 else upp (hd bs) (Next n) h1)"
  have "hlist_add_behind n y h = Inr h'"
    using at(4) nd dn hb by (cases "bs = []") (simp_all add: hlist_add_behind_def hlist_simps h'_def h1_def)
  moreover have "chain_in (val h') (pp h') hp ((as @ [y]) @ n # bs)"
    by (rule chain_insert [OF c' _ n(3), where s = "Next y"])
      (use n(2) at nd dn hb in \<open>auto simp: h'_def h1_def hlist_simps end_slot_append\<close>)
  ultimately show ?thesis by (simp add: hchain_in)
qed

text \<open>\<open>__hlist_del\<close> unlinks the node; the node itself keeps its stale links.\<close>

lemma hlist_del_links_chain:
  assumes c: "hchain h hp (as @ x # bs)"
  shows "\<exists>h'. hlist_del_links x h = Inr h' \<and> pp h' x = Some (end_slot (First hp) as) \<and>
    (\<forall>W Q. (\<forall>t. t \<noteq> Next x \<longrightarrow> W t = val h' t) \<longrightarrow> (\<forall>z. z \<noteq> x \<longrightarrow> Q z = pp h' z) \<longrightarrow> chain_in W Q hp (as @ bs))"
proof -
  define s where "s = end_slot (First hp) as"
  note at = chain_at [OF c [unfolded hchain_in] s_def] and d = chain_dom [OF c [unfolded hchain_in]]
  have dist: "x \<notin> set as" "x \<notin> set bs" using c by (auto simp: hchain_def)
  then have sx: "s \<noteq> Next x" using end_slot_in [of "First hp" as] by (auto simp: s_def)
  have xd: "x \<in> dom (pp h)" "s \<in> dom (val h)" using d(2) at(1) by auto
  have hb: "bs \<noteq> [] \<Longrightarrow> hd bs \<in> dom (pp h) \<and> hd bs \<noteq> 0 \<and> hd bs \<noteq> x" using d dist by (cases bs) auto
  define h' where "h' = (if bs = [] then uval s 0 h else upp (hd bs) s (uval s (hd bs) h))"
  have "hlist_del_links x h = Inr h'"
    using at(2,4) xd hb by (cases "bs = []") (simp_all add: hlist_del_links_def hlist_simps h'_def)
  moreover have "pp h' x = Some s" using at(2) xd hb by (auto simp: h'_def hlist_simps)
  moreover have "chain_in W Q hp (as @ bs)"
    if "\<forall>t. t \<noteq> Next x \<longrightarrow> W t = val h' t" "\<forall>z. z \<noteq> x \<longrightarrow> Q z = pp h' z" for W Q
    by (rule chain_remove [OF c [unfolded hchain_in] s_def])
      (use that at xd hb sx in \<open>auto simp: h'_def hlist_simps\<close>)
  ultimately show ?thesis unfolding s_def by blast
qed

lemma hlist_del_chain:
  assumes c: "hchain h hp (as @ x # bs)"
  shows "\<exists>h'. hlist_del x h = Inr h' \<and> hchain h' hp (as @ bs) \<and>
    get_slot (Next x) h' = Inr LIST_POISON1 \<and> get_pprev x h' = Inr Poison_Slot"
proof -
  obtain h1 where h1: "hlist_del_links x h = Inr h1" "pp h1 x = Some (end_slot (First hp) as)"
    "\<And>W Q. (\<forall>t. t \<noteq> Next x \<longrightarrow> W t = val h1 t) \<Longrightarrow> (\<forall>z. z \<noteq> x \<longrightarrow> Q z = pp h1 z) \<Longrightarrow> chain_in W Q hp (as @ bs)"
    using hlist_del_links_chain [OF c] by blast
  have d: "x \<in> dom (pp h1)" "Next x \<in> dom (val h1)" using h1(2) by (auto simp: hlist_simps)
  define h' where "h' = upp x Poison_Slot (uval (Next x) LIST_POISON1 h1)"
  have "hlist_del x h = Inr h'" using h1(1) d by (simp add: hlist_del_def hlist_simps h'_def)
  moreover have "chain_in (val h') (pp h') hp (as @ bs)" by (rule h1(3)) (use d in \<open>auto simp: h'_def hlist_simps\<close>)
  ultimately show ?thesis using d by (simp add: hchain_in h'_def hlist_simps)
qed

text \<open>
  \<open>hlist_del_init\<close> takes the node out of its list, wherever it stands in it, and a second
  call on the same node does nothing.
\<close>

theorem hlist_del_init_chain:
  assumes c: "hchain h hp (as @ x # bs)"
  shows "\<exists>h'. hlist_del_init x h = Inr h' \<and> hchain h' hp (as @ bs) \<and> hlist_del_init x h' = Inr h'"
proof -
  obtain h1 where h1: "hlist_del_links x h = Inr h1" "pp h1 x = Some (end_slot (First hp) as)"
    "\<And>W Q. (\<forall>t. t \<noteq> Next x \<longrightarrow> W t = val h1 t) \<Longrightarrow> (\<forall>z. z \<noteq> x \<longrightarrow> Q z = pp h1 z) \<Longrightarrow> chain_in W Q hp (as @ bs)"
    using hlist_del_links_chain [OF c] by blast
  have d: "x \<in> dom (pp h1)" "Next x \<in> dom (val h1)" using h1(2) by (auto simp: hlist_simps)
  define h' where "h' = upp x Null_Slot (uval (Next x) 0 h1)"
  have "get_pprev x h = Inr (end_slot (First hp) as)"
    using chain_at(2) [OF c [unfolded hchain_in] refl] by (simp add: hlist_simps)
  then have "hlist_unhashed x h = Inr False" by (simp add: hlist_unhashed_def end_slot_def)
  then have "hlist_del_init x h = Inr h'"
    using h1(1) d by (simp add: hlist_del_init_def INIT_HLIST_NODE_def hlist_simps h'_def)
  moreover have "chain_in (val h') (pp h') hp (as @ bs)" by (rule h1(3)) (use d in \<open>auto simp: h'_def hlist_simps\<close>)
  moreover have "hlist_unhashed x h' = Inr True" using d by (simp add: hlist_unhashed_def h'_def hlist_simps)
  then have "hlist_del_init x h' = Inr h'" by (simp add: hlist_del_init_def)
  ultimately show ?thesis by (auto simp: hchain_in)
qed

text \<open>
  \<open>hlist_move_list\<close> hands the whole list of a head over to another head, whatever that held
  before, and leaves the old head empty.
\<close>

theorem hlist_move_list_chain:
  assumes c: "hchain h old xs" and n: "new \<in> dom (heads h)" "new \<noteq> old"
  shows "\<exists>h'. hlist_move_list old new h = Inr h' \<and> hchain h' new xs \<and> hchain h' old [] \<and>
    hlist_empty old h' = Inr True"
proof -
  note f = chain_first [OF c [unfolded hchain_in]] and d = chain_dom [OF c [unfolded hchain_in]]
  have dn: "First new \<in> dom (val h)" using n(1) by (auto simp: val_def)
  have hx: "xs \<noteq> [] \<Longrightarrow> hd xs \<in> dom (pp h) \<and> hd xs \<noteq> 0" using d hd_in_set [of xs] by metis
  define h1 where "h1 = uval (First new) (if xs = [] then 0 else hd xs) h"
  define h' where "h' = uval (First old) 0 (if xs = [] then h1 else upp (hd xs) (First new) h1)"
  have e: "hlist_move_list old new h = Inr h'"
    using f(1) d(1) dn hx n(2) by (cases "xs = []") (simp_all add: hlist_move_list_def hlist_simps h'_def h1_def)
  have v: "val h' (First old) = Some 0" using d(1) dn hx by (simp add: h'_def h1_def hlist_simps)
  have "chain_in (val h') (pp h') new xs"
  proof (cases xs)
    case Nil
    then show ?thesis using d(1) dn n(2) by (simp add: chain_in_def h'_def h1_def hlist_simps)
  next
    case (Cons y ys)
    then have y: "hseg (val h) (pp h) (Next y) ys" "val h (end_slot (Next y) ys) = Some 0" "distinct (y # ys)" "y \<noteq> 0"
      using c by (auto simp: hchain_def)
    have off: "val h' t = val h t" if "t \<in> insert (Next y) (Next ` set ys)" for t
      using that d(1) dn hx Cons by (auto simp: h'_def h1_def hlist_simps)
    have "hseg (val h') (pp h') (Next y) ys = hseg (val h) (pp h) (Next y) ys"
      by (rule hseg_cong, rule off, use reads_sub [of "Next y" ys] in blast)
        (use y(3) hx Cons in \<open>auto simp: h'_def h1_def hlist_simps\<close>)
    moreover have "val h' (end_slot (Next y) ys) = Some 0" using off [OF end_slot_in] y(2) by simp
    moreover have "val h' (First new) = Some y" "pp h' y = Some (First new)"
      using d(1) dn hx Cons n(2) by (auto simp: h'_def h1_def hlist_simps)
    ultimately show ?thesis using y Cons by (simp add: chain_in_def)
  qed
  with e v show ?thesis by (auto simp: hchain_in chain_in_def hlist_empty_def hlist_simps)
qed

lemma hlist_is_singular_chain:
  assumes c: "hchain h hp xs" and x: "x \<in> set xs"
  shows "hlist_is_singular_node x hp h = Inr (xs = [x])"
proof -
  obtain as bs where xs: "xs = as @ x # bs" using split_list [OF x] by blast
  note at = chain_at [OF c [unfolded hchain_in xs] refl]
  have "hd bs \<noteq> 0" if "bs \<noteq> []" using that chain_dom(3) [OF c [unfolded hchain_in]] xs that by (cases bs) auto
  moreover have "end_slot (First hp) as = First hp \<longleftrightarrow> as = []" by (simp add: end_slot_def)
  ultimately show ?thesis using at(2,4) by (cases as; cases bs) (auto simp: hlist_is_singular_node_def hlist_simps xs)
qed

lemma hlist_walk_chain:
  assumes "hseg (val h) (pp h) s xs" and "val h (end_slot s xs) = Some 0" and "length xs < k"
  shows "bnd (get_slot s h) (\<lambda>f. hlist_walk k f h) = Inr xs"
  using assms
proof (induction xs arbitrary: s k)
  case Nil
  then show ?case by (cases k) (simp_all add: hlist_simps)
next
  case (Cons x xs)
  then obtain k' where k: "k = Suc k'" by (cases k) auto
  have "bnd (get_slot (Next x) h) (\<lambda>f. hlist_walk k' f h) = Inr xs" by (rule Cons.IH) (use Cons.prems k in auto)
  moreover have "get_slot s h = Inr x" "x \<noteq> 0" using Cons.prems by (simp_all add: hlist_simps)
  ultimately show ?case by (auto simp: k bnd_def split: sum.splits)
qed

lemma hlist_for_each_chain: "hchain h hp xs \<Longrightarrow> length xs < k \<Longrightarrow> hlist_for_each k hp h = Inr xs"
  by (simp add: hlist_for_each_def hlist_walk_chain hchain_def)

text \<open>Adding nodes at the head, the last of the list first.\<close>

fun hlist_push :: "addr list \<Rightarrow> addr \<Rightarrow> hheap \<Rightarrow> hheap cres" where
  "hlist_push [] hp h = Inr h"
| "hlist_push (x # xs) hp h = bnd (hlist_push xs hp h) (hlist_add_head x hp)"

lemma hlist_push_chain:
  assumes "hchain h hp []" and "distinct xs" and "set xs \<subseteq> dom (hnodes h)" and "0 \<notin> set xs"
  shows "\<exists>h'. hlist_push xs hp h = Inr h' \<and> hchain h' hp xs \<and> dom (hnodes h') = dom (hnodes h)"
  using assms(2-4)
proof (induction xs)
  case Nil
  with assms(1) show ?case by simp
next
  case (Cons x xs)
  then obtain h1 where h1: "hlist_push xs hp h = Inr h1" "hchain h1 hp xs" "dom (hnodes h1) = dom (hnodes h)" by auto
  have "x \<in> dom (hnodes h1)" "x \<notin> set xs" "x \<noteq> 0" using Cons.prems h1(3) by auto
  from hlist_add_head_chain [OF h1(2) this] h1(1,3) show ?case by auto
qed

text \<open>
  C35: After nodes were added one by one with \<open>hlist_add_head\<close> to an empty head, a walk with
  \<open>hlist_for_each\<close> sees them, the last one added first; after \<open>hlist_del\<close> of one of them it sees
  the others in order, and a step from the deleted node follows a poison.
\<close>

theorem hlist_push_del:
  assumes "hchain h hp []" and "distinct xs" and "set xs \<subseteq> dom (hnodes h)" and "0 \<notin> set xs"
    and "x \<in> set xs" and "length xs < k"
  shows "\<exists>h1 h2. hlist_push xs hp h = Inr h1 \<and> hlist_for_each k hp h1 = Inr xs \<and> hlist_del x h1 = Inr h2 \<and>
    hlist_for_each k hp h2 = Inr (remove1 x xs) \<and> get_slot (Next x) h2 = Inr LIST_POISON1"
proof -
  obtain h1 where h1: "hlist_push xs hp h = Inr h1" "hchain h1 hp xs"
    using hlist_push_chain [OF assms(1-4)] by blast
  obtain as bs where xs: "xs = as @ x # bs" "x \<notin> set as" using split_list_first [OF assms(5)] by blast
  obtain h2 where h2: "hlist_del x h1 = Inr h2" "hchain h2 hp (as @ bs)" "get_slot (Next x) h2 = Inr LIST_POISON1"
    using hlist_del_chain h1(2) unfolding xs(1) by blast
  have "remove1 x xs = as @ bs" using xs by (simp add: remove1_append)
  moreover have "length (as @ bs) < k" using assms(6) xs(1) by simp
  ultimately show ?thesis
    using h1 h2 hlist_for_each_chain [OF h1(2) assms(6)] hlist_for_each_chain [OF h2(2), of k] by auto
qed

section \<open>The properties at concrete inputs\<close>

definition sample_hheap :: hheap where
  "sample_hheap = \<lparr>heads = [1 \<mapsto> 2, 9 \<mapsto> 0],
     hnodes = [2 \<mapsto> \<lparr>hnext = 3, pprev = First 1\<rparr>, 3 \<mapsto> \<lparr>hnext = 4, pprev = Next 2\<rparr>,
       4 \<mapsto> \<lparr>hnext = 0, pprev = Next 3\<rparr>, 5 \<mapsto> \<lparr>hnext = 0, pprev = Null_Slot\<rparr>]\<rparr>"

lemma sample_hchain: "hchain sample_hheap 1 [2, 3, 4]" "hchain sample_hheap 9 []"
  by (simp_all add: hchain_def sample_hheap_def val_def pp_def)

lemma sample_hdom: "dom (hnodes sample_hheap) = {2, 3, 4, 5}" "dom (heads sample_hheap) = {1, 9}"
  by (auto simp: sample_hheap_def)

theorem hlist_add_before_chain_witness:
  "\<exists>h'. hlist_add_before 5 2 sample_hheap = Inr h' \<and> hchain h' 1 [5, 2, 3, 4]"
  using hlist_add_before_chain [of sample_hheap 1 "[]" 2 "[3, 4]" 5] sample_hchain by (simp add: sample_hdom)

theorem hlist_add_behind_chain_witness:
  "\<exists>h'. hlist_add_behind 5 4 sample_hheap = Inr h' \<and> hchain h' 1 [2, 3, 4, 5]"
  using hlist_add_behind_chain [of sample_hheap 1 "[2, 3]" 4 "[]" 5] sample_hchain by (simp add: sample_hdom)

theorem hlist_del_init_chain_witness:
  "\<exists>h'. hlist_del_init 3 sample_hheap = Inr h' \<and> hchain h' 1 [2, 4] \<and> hlist_del_init 3 h' = Inr h'"
  using hlist_del_init_chain [of sample_hheap 1 "[2]" 3 "[4]"] sample_hchain by simp

theorem hlist_move_list_chain_witness:
  "\<exists>h'. hlist_move_list 1 9 sample_hheap = Inr h' \<and> hchain h' 9 [2, 3, 4] \<and> hchain h' 1 [] \<and>
    hlist_empty 1 h' = Inr True"
  by (rule hlist_move_list_chain [OF sample_hchain(1)]) (simp_all add: sample_hdom)

theorem hlist_push_del_witness:
  "\<exists>h1 h2. hlist_push [5, 3, 2] 9 sample_hheap = Inr h1 \<and> hlist_for_each 4 9 h1 = Inr [5, 3, 2] \<and>
    hlist_del 3 h1 = Inr h2 \<and> hlist_for_each 4 9 h2 = Inr [5, 2] \<and> get_slot (Next 3) h2 = Inr LIST_POISON1"
  using hlist_push_del [OF sample_hchain(2), of "[5, 3, 2]" 3 4] by (simp add: sample_hdom)

end
