(* ===== verification/List_Loops.thy ===== *)
theory List_Loops
  imports List_Head
begin

text \<open>
  The loop macros of \<open>src/list.h\<close> over the structures that enclose the nodes: the cursor is the
  address of a structure, which \<open>container_of\<close> computes from that of its node, \<open>off\<close> bytes behind.
  The safe variants read the next cursor before the body runs. The lemmas show what each loop
  visits, and that a safe one may delete and free what it visits while the others may not.
\<close>

section \<open>Entries\<close>

text \<open>No structure lies so low that the subtraction would wrap; the properties say so.\<close>

definition container_of :: "nat \<Rightarrow> addr \<Rightarrow> addr" where "container_of off ptr = ptr - off"

definition member_of :: "nat \<Rightarrow> addr \<Rightarrow> addr" where "member_of off pos = pos + off"

definition list_entry :: "nat \<Rightarrow> addr \<Rightarrow> addr" where "list_entry off ptr = container_of off ptr"

definition list_first_entry :: "nat \<Rightarrow> addr \<Rightarrow> lheap \<Rightarrow> addr cres" where
  "list_first_entry off ptr h = bnd (get_nxt ptr h) (\<lambda>n. Inr (list_entry off n))"

definition list_last_entry :: "nat \<Rightarrow> addr \<Rightarrow> lheap \<Rightarrow> addr cres" where
  "list_last_entry off ptr h = bnd (get_prv ptr h) (\<lambda>n. Inr (list_entry off n))"

definition list_next_entry :: "nat \<Rightarrow> addr \<Rightarrow> lheap \<Rightarrow> addr cres" where
  "list_next_entry off pos h = bnd (get_nxt (member_of off pos) h) (\<lambda>n. Inr (list_entry off n))"

definition list_prev_entry :: "nat \<Rightarrow> addr \<Rightarrow> lheap \<Rightarrow> addr cres" where
  "list_prev_entry off pos h = bnd (get_prv (member_of off pos) h) (\<lambda>n. Inr (list_entry off n))"

definition list_prepare_entry :: "nat \<Rightarrow> addr \<Rightarrow> addr \<Rightarrow> addr" where
  "list_prepare_entry off pos head = (if pos \<noteq> 0 then pos else list_entry off head)"

section \<open>The loops\<close>

text \<open>
  The two shapes of loop, over what the body does to the heap; they return the cursors the
  body saw. In the second \<open>n\<close> is the cursor of the next turn, read before the body runs.
\<close>

type_synonym loop_body = "addr \<Rightarrow> lheap \<Rightarrow> lheap cres"

fun entry_loop ::
  "(addr \<Rightarrow> lheap \<Rightarrow> addr cres) \<Rightarrow> loop_body \<Rightarrow> nat \<Rightarrow> nat \<Rightarrow> addr \<Rightarrow> addr \<Rightarrow> lheap \<Rightarrow> (addr list \<times> lheap) cres" where
  "entry_loop step body 0 off pos head h = Inl No_Fuel"
| "entry_loop step body (Suc k) off pos head h =
     (if member_of off pos = head then Inr ([], h)
      else
        bnd (body pos h) (\<lambda>h.
        bnd (step pos h) (\<lambda>next.
        bnd (entry_loop step body k off next head h) (\<lambda>(r, h). Inr (pos # r, h)))))"

fun safe_loop ::
  "(addr \<Rightarrow> lheap \<Rightarrow> addr cres) \<Rightarrow> loop_body \<Rightarrow> nat \<Rightarrow> nat \<Rightarrow> addr \<Rightarrow> addr \<Rightarrow> addr \<Rightarrow> lheap \<Rightarrow> (addr list \<times> lheap) cres" where
  "safe_loop step body 0 off pos n head h = Inl No_Fuel"
| "safe_loop step body (Suc k) off pos n head h =
     (if member_of off pos = head then Inr ([], h)
      else
        bnd (body pos h) (\<lambda>h.
        bnd (step n h) (\<lambda>next.
        bnd (safe_loop step body k off n next head h) (\<lambda>(r, h). Inr (pos # r, h)))))"

definition list_for_each_safe :: "loop_body \<Rightarrow> nat \<Rightarrow> addr \<Rightarrow> lheap \<Rightarrow> (addr list \<times> lheap) cres" where
  "list_for_each_safe body k head h =
     bnd (get_nxt head h) (\<lambda>pos. bnd (get_nxt pos h) (\<lambda>n. safe_loop get_nxt body k 0 pos n head h))"

definition list_for_each_prev_safe :: "loop_body \<Rightarrow> nat \<Rightarrow> addr \<Rightarrow> lheap \<Rightarrow> (addr list \<times> lheap) cres" where
  "list_for_each_prev_safe body k head h =
     bnd (get_prv head h) (\<lambda>pos. bnd (get_prv pos h) (\<lambda>n. safe_loop get_prv body k 0 pos n head h))"

definition list_for_each_entry :: "loop_body \<Rightarrow> nat \<Rightarrow> nat \<Rightarrow> addr \<Rightarrow> lheap \<Rightarrow> (addr list \<times> lheap) cres" where
  "list_for_each_entry body k off head h =
     bnd (list_first_entry off head h) (\<lambda>pos. entry_loop (list_next_entry off) body k off pos head h)"

definition list_for_each_entry_reverse :: "loop_body \<Rightarrow> nat \<Rightarrow> nat \<Rightarrow> addr \<Rightarrow> lheap \<Rightarrow> (addr list \<times> lheap) cres" where
  "list_for_each_entry_reverse body k off head h =
     bnd (list_last_entry off head h) (\<lambda>pos. entry_loop (list_prev_entry off) body k off pos head h)"

definition list_for_each_entry_continue :: "loop_body \<Rightarrow> nat \<Rightarrow> nat \<Rightarrow> addr \<Rightarrow> addr \<Rightarrow> lheap \<Rightarrow> (addr list \<times> lheap) cres" where
  "list_for_each_entry_continue body k off pos head h =
     bnd (list_next_entry off pos h) (\<lambda>pos. entry_loop (list_next_entry off) body k off pos head h)"

definition list_for_each_entry_continue_reverse ::
  "loop_body \<Rightarrow> nat \<Rightarrow> nat \<Rightarrow> addr \<Rightarrow> addr \<Rightarrow> lheap \<Rightarrow> (addr list \<times> lheap) cres" where
  "list_for_each_entry_continue_reverse body k off pos head h =
     bnd (list_prev_entry off pos h) (\<lambda>pos. entry_loop (list_prev_entry off) body k off pos head h)"

definition list_for_each_entry_from :: "loop_body \<Rightarrow> nat \<Rightarrow> nat \<Rightarrow> addr \<Rightarrow> addr \<Rightarrow> lheap \<Rightarrow> (addr list \<times> lheap) cres" where
  "list_for_each_entry_from body k off pos head h = entry_loop (list_next_entry off) body k off pos head h"

definition list_for_each_entry_safe :: "loop_body \<Rightarrow> nat \<Rightarrow> nat \<Rightarrow> addr \<Rightarrow> lheap \<Rightarrow> (addr list \<times> lheap) cres" where
  "list_for_each_entry_safe body k off head h =
     bnd (list_first_entry off head h) (\<lambda>pos.
     bnd (list_next_entry off pos h) (\<lambda>n. safe_loop (list_next_entry off) body k off pos n head h))"

definition list_for_each_entry_safe_continue ::
  "loop_body \<Rightarrow> nat \<Rightarrow> nat \<Rightarrow> addr \<Rightarrow> addr \<Rightarrow> lheap \<Rightarrow> (addr list \<times> lheap) cres" where
  "list_for_each_entry_safe_continue body k off pos head h =
     bnd (list_next_entry off pos h) (\<lambda>pos.
     bnd (list_next_entry off pos h) (\<lambda>n. safe_loop (list_next_entry off) body k off pos n head h))"

definition list_for_each_entry_safe_from ::
  "loop_body \<Rightarrow> nat \<Rightarrow> nat \<Rightarrow> addr \<Rightarrow> addr \<Rightarrow> lheap \<Rightarrow> (addr list \<times> lheap) cres" where
  "list_for_each_entry_safe_from body k off pos head h =
     bnd (list_next_entry off pos h) (\<lambda>n. safe_loop (list_next_entry off) body k off pos n head h)"

definition list_for_each_entry_safe_reverse :: "loop_body \<Rightarrow> nat \<Rightarrow> nat \<Rightarrow> addr \<Rightarrow> lheap \<Rightarrow> (addr list \<times> lheap) cres" where
  "list_for_each_entry_safe_reverse body k off head h =
     bnd (list_last_entry off head h) (\<lambda>pos.
     bnd (list_prev_entry off pos h) (\<lambda>n. safe_loop (list_prev_entry off) body k off pos n head h))"

section \<open>What they visit\<close>

lemma member_container [simp]: "off \<le> p \<Longrightarrow> member_of off (container_of off p) = p"
  by (simp add: member_of_def container_of_def)

lemmas entry_defs = list_first_entry_def list_last_entry_def list_next_entry_def list_prev_entry_def list_entry_def

lemma entry_step:
  "off \<le> x \<Longrightarrow> get_nxt x h = Inr y \<Longrightarrow> list_next_entry off (container_of off x) h = Inr (container_of off y)"
  "off \<le> x \<Longrightarrow> get_prv x h = Inr y \<Longrightarrow> list_prev_entry off (container_of off x) h = Inr (container_of off y)"
  by (simp_all add: entry_defs)

lemma entry_loop_next:
  assumes "dseg (nxt_of h) (prv_of h) a xs head" and "head \<notin> set xs" and "length xs < k" and "\<forall>x \<in> set (head # xs). off \<le> x"
  shows "entry_loop (list_next_entry off) (\<lambda>_. Inr) k off (container_of off (behind xs head)) head h =
    Inr (map (container_of off) xs, h)"
  using assms
proof (induction xs arbitrary: a k)
  case Nil
  then show ?case by (cases k) auto
next
  case (Cons x xs)
  then have "get_nxt x h = Inr (behind xs head)" by (cases xs) (auto simp: heap_simps)
  moreover have "entry_loop (list_next_entry off) (\<lambda>_. Inr) (k - 1) off (container_of off (behind xs head)) head h =
      Inr (map (container_of off) xs, h)"
    by (rule Cons.IH) (use Cons.prems in auto)
  ultimately show ?case using Cons.prems by (cases k) (auto simp: entry_step)
qed

lemma entry_loop_prev:
  assumes "dseg (nxt_of h) (prv_of h) head xs b" and "head \<notin> set xs" and "length xs < k" and "\<forall>x \<in> set (head # xs). off \<le> x"
  shows "entry_loop (list_prev_entry off) (\<lambda>_. Inr) k off (container_of off (before head xs)) head h =
    Inr (rev (map (container_of off) xs), h)"
  using assms
proof (induction xs arbitrary: b k rule: rev_induct)
  case Nil
  then show ?case by (cases k) auto
next
  case (snoc x xs)
  then have "dseg (nxt_of h) (prv_of h) head xs x" by (simp add: dseg_append)
  moreover from this have "get_prv x h = Inr (before head xs)"
    by (cases xs rule: rev_cases) (auto simp: heap_simps dseg_append)
  moreover have "entry_loop (list_prev_entry off) (\<lambda>_. Inr) (k - 1) off (container_of off (before head xs)) head h =
      Inr (rev (map (container_of off) xs), h)"
    by (rule snoc.IH) (use snoc.prems calculation in auto)
  ultimately show ?case using snoc.prems by (cases k) (auto simp: entry_step)
qed

text \<open>
  Over a list of the nodes \<open>as @ x # bs\<close> the loops see the structures that enclose them: all of
  them in order, all of them backwards, those behind the structure of \<open>x\<close>, those before it
  backwards, or from it on. Each ends after as many turns as it sees structures.
\<close>

theorem list_entries:
  assumes "ring h head (as @ x # bs)" and "length (as @ x # bs) < k" and "\<forall>y \<in> set (head # as @ x # bs). off \<le> y"
  defines "s \<equiv> container_of off" and "skip \<equiv> \<lambda>_ :: addr. Inr :: lheap \<Rightarrow> lheap cres"
  shows "list_for_each_entry skip k off head h = Inr (map s as @ s x # map s bs, h) \<and>
    list_for_each_entry_reverse skip k off head h = Inr (rev (map s bs) @ s x # rev (map s as), h) \<and>
    list_for_each_entry_continue skip k off (s x) head h = Inr (map s bs, h) \<and>
    list_for_each_entry_continue_reverse skip k off (s x) head h = Inr (rev (map s as), h) \<and>
    list_for_each_entry_from skip k off (s x) head h = Inr (s x # map s bs, h)"
proof -
  have d: "dseg (nxt_of h) (prv_of h) head (as @ x # bs) head" "head \<notin> set (as @ x # bs)"
    using assms(1) by (auto simp: ring_def)
  have two: "dseg (nxt_of h) (prv_of h) head as x" "dseg (nxt_of h) (prv_of h) x bs head" using d(1) by (simp_all add: dseg_append)
  have n: "get_nxt x h = Inr (behind bs head)" using two(2) by (cases bs) (auto simp: heap_simps)
  have p: "get_prv x h = Inr (before head as)" using two(1) by (cases as rule: rev_cases) (auto simp: heap_simps dseg_append)
  have bs: "entry_loop (list_next_entry off) skip k off (s (behind bs head)) head h = Inr (map s bs, h)"
    unfolding s_def skip_def by (rule entry_loop_next [OF two(2)]) (use assms(2,3) d(2) in auto)
  have here: "entry_loop (list_next_entry off) skip k off (s (behind (x # bs) head)) head h = Inr (map s (x # bs), h)"
    unfolding s_def skip_def
    by (rule entry_loop_next [where a = "before head as"])
      (use assms(2,3) d two in \<open>cases as rule: rev_cases; auto simp: dseg_append\<close>)+
  have all: "entry_loop (list_next_entry off) skip k off (s (behind (as @ x # bs) head)) head h = Inr (map s (as @ x # bs), h)"
    unfolding s_def skip_def by (rule entry_loop_next [OF d(1,2)]) (use assms(2,3) in auto)
  have rev: "entry_loop (list_prev_entry off) skip k off (s (before head (as @ x # bs))) head h = Inr (rev (map s (as @ x # bs)), h)"
    unfolding s_def skip_def by (rule entry_loop_prev [OF d(1,2)]) (use assms(2,3) in auto)
  have as: "entry_loop (list_prev_entry off) skip k off (s (before head as)) head h = Inr (rev (map s as), h)"
    unfolding s_def skip_def by (rule entry_loop_prev [OF two(1)]) (use assms(2,3) d(2) in auto)
  have first: "list_first_entry off head h = Inr (s (behind (as @ x # bs) head))" "list_last_entry off head h = Inr (s (before head (as @ x # bs)))"
    using ring_ends [OF assms(1)] by (simp_all add: entry_defs s_def)
  have step: "list_next_entry off (s x) h = Inr (s (behind bs head))" "list_prev_entry off (s x) h = Inr (s (before head as))"
    using n p assms(3) by (simp_all add: entry_defs s_def)
  show ?thesis
    using first step all rev bs as here
    by (simp add: list_for_each_entry_def list_for_each_entry_reverse_def list_for_each_entry_continue_def
        list_for_each_entry_continue_reverse_def list_for_each_entry_from_def)
qed

section \<open>Deleting on the way\<close>

text \<open>The body of a loop that takes every structure out of its list and frees it.\<close>

definition drop_entry :: "nat \<Rightarrow> loop_body" where
  "drop_entry off pos h = bnd (list_del (member_of off pos) h) (\<lambda>h. Inr (h(member_of off pos := None)))"

lemma drop_entry_ring:
  assumes "ring h head xs" and "x \<in> set xs" and "off \<le> x"
  shows "\<exists>h'. drop_entry off (container_of off x) h = Inr h' \<and> ring h' head (remove1 x xs) \<and> dom h' = dom h - {x} \<and> h' x = None"
proof -
  obtain h1 where h1: "list_del x h = Inr h1" "ring h1 head (remove1 x xs)" "same_off (set (head # xs)) h h1"
    using list_del_ring [OF assms(1,2)] by blast
  have x: "x \<notin> set (head # remove1 x xs)" using ring_distinct [OF assms(1)] assms(2) by auto
  have "ring (h1(x := None)) head (remove1 x xs)" by (rule ring_cong [OF h1(2)]) (use x in auto)
  then show ?thesis using h1 assms(3) same_off_dom [OF h1(3)] by (auto simp: drop_entry_def)
qed

lemma drain_loop:
  assumes "ring h head xs" and "length xs < k" and "\<forall>x \<in> set (head # xs). off \<le> x"
    and "list_next_entry off (container_of off (behind xs head)) h = Inr n"
  shows "\<exists>h'. safe_loop (list_next_entry off) (drop_entry off) k off (container_of off (behind xs head)) n head h =
      Inr (map (container_of off) xs, h') \<and> ring h' head [] \<and> dom h' = dom h - set xs"
  using assms
proof (induction xs arbitrary: h n k)
  case Nil
  then show ?case by (cases k) auto
next
  case (Cons x xs)
  have ne: "x \<noteq> head" "off \<le> x" "off \<le> head" using Cons.prems(1,3) by (auto simp: ring_def)
  obtain h1 where h1: "drop_entry off (container_of off x) h = Inr h1" "ring h1 head xs" "dom h1 = dom h - {x}"
    using drop_entry_ring [OF Cons.prems(1) _ ne(2)] by auto
  have "get_nxt x h = Inr (behind xs head)" using Cons.prems(1) by (cases xs) (auto simp: ring_def heap_simps)
  then have n: "n = container_of off (behind xs head)" using Cons.prems(4) ne(2) by (simp add: entry_defs)
  obtain n' where n': "list_next_entry off n h1 = Inr n'"
  proof (cases xs)
    case Nil
    then show ?thesis using that ring_ends(1) [OF h1(2)] n ne(3) by (simp add: entry_defs)
  next
    case (Cons y ys)
    then have "get_nxt y h1 = Inr (behind ys head)" using h1(2) by (cases ys) (auto simp: ring_def heap_simps)
    then show ?thesis using that Cons n Cons.prems(3) by (simp add: entry_defs)
  qed
  have "length xs < k - 1" "\<forall>y \<in> set (head # xs). off \<le> y" using Cons.prems(2,3) by auto
  then obtain h' where "safe_loop (list_next_entry off) (drop_entry off) (k - 1) off n n' head h1 =
      Inr (map (container_of off) xs, h')" "ring h' head []" "dom h' = dom h1 - set xs"
    using Cons.IH [OF h1(2)] n' unfolding n by blast
  then show ?case using Cons.prems(2) h1(1,3) n' ne by (cases k) auto
qed

text \<open>
  C30: \<open>list_for_each_entry_safe\<close> with a body that deletes and frees each structure visits every one, once
  and in order, ends after as many turns and leaves an empty list and nothing else freed. The plain
  \<open>list_for_each_entry\<close> with the same body faults after its first turn.
\<close>

theorem list_drain:
  assumes "ring h head xs" and "length xs < k" and "\<forall>x \<in> set (head # xs). off \<le> x"
  shows "(\<exists>h'. list_for_each_entry_safe (drop_entry off) k off head h = Inr (map (container_of off) xs, h') \<and>
      ring h' head [] \<and> dom h' = dom h - set xs) \<and>
    (xs \<noteq> [] \<longrightarrow> list_for_each_entry (drop_entry off) k off head h = Inl Bad_Pointer)"
proof (intro conjI impI)
  have first: "list_first_entry off head h = Inr (container_of off (behind xs head))"
    using ring_ends(1) [OF assms(1)] by (simp add: entry_defs)
  have "behind xs head \<in> set (head # xs)" by (cases xs) auto
  then have "off \<le> behind xs head" "behind xs head \<in> dom h" using assms(3) ring_dom [OF assms(1)] by blast+
  then obtain n where n: "list_next_entry off (container_of off (behind xs head)) h = Inr n"
    by (auto simp: entry_defs get_nxt_def)
  show "\<exists>h'. list_for_each_entry_safe (drop_entry off) k off head h = Inr (map (container_of off) xs, h') \<and>
      ring h' head [] \<and> dom h' = dom h - set xs"
    using drain_loop [OF assms n] first n by (simp add: list_for_each_entry_safe_def)
  assume "xs \<noteq> []"
  then obtain x ys where xs: "xs = x # ys" by (cases xs) auto
  then have ne: "x \<noteq> head" "off \<le> x" using assms(1,3) by (auto simp: ring_def)
  obtain h1 where "drop_entry off (container_of off x) h = Inr h1" "h1 x = None"
    using drop_entry_ring [OF assms(1) _ ne(2)] xs by auto
  then show "list_for_each_entry (drop_entry off) k off head h = Inl Bad_Pointer"
    using first xs ne assms(2) by (cases k) (simp_all add: list_for_each_entry_def entry_defs get_nxt_def)
qed

text \<open>The list at the head 21 of three structures, whose nodes lie 8 bytes behind them.\<close>

definition entry_heap :: lheap where
  "entry_heap = [21 \<mapsto> \<lparr>prv = 58, nxt = 38\<rparr>, 38 \<mapsto> \<lparr>prv = 21, nxt = 48\<rparr>, 48 \<mapsto> \<lparr>prv = 38, nxt = 58\<rparr>,
     58 \<mapsto> \<lparr>prv = 48, nxt = 21\<rparr>]"

lemma entry_ring: "ring entry_heap 21 [38, 48, 58]"
  by (simp add: ring_def entry_heap_def nxt_of_def prv_of_def)

theorem list_entries_witness:
  "list_for_each_entry (\<lambda>_. Inr) 4 8 21 entry_heap = Inr ([30, 40, 50], entry_heap) \<and>
   list_for_each_entry_continue (\<lambda>_. Inr) 4 8 40 21 entry_heap = Inr ([50], entry_heap)"
  using list_entries [of entry_heap 21 "[38]" 48 "[58]" 4 8] entry_ring by (simp add: container_of_def)

theorem list_drain_witness:
  "\<exists>h'. list_for_each_entry_safe (drop_entry 8) 4 8 21 entry_heap = Inr ([30, 40, 50], h') \<and> ring h' 21 []"
  using list_drain [OF entry_ring, of 4 8] by (auto simp: container_of_def)

end
