(* ===== verification/Hlist_Loops.thy ===== *)
theory Hlist_Loops
  imports Hlist List_Loops
begin

text \<open>
  The other loop macros of \<open>src/list.h\<close> over hash chains: over the enclosing structures, and the
  variants that read the next cursor before the body. A cursor of NULL ends a loop.
\<close>

section \<open>The loops\<close>

definition hlist_entry_safe :: "nat \<Rightarrow> addr \<Rightarrow> addr" where
  "hlist_entry_safe off ptr = (if ptr \<noteq> 0 then container_of off ptr else 0)"

definition hlist_next :: "nat \<Rightarrow> addr \<Rightarrow> hheap \<Rightarrow> addr cres" where
  "hlist_next off pos h = bnd (get_slot (Next (member_of off pos)) h) (\<lambda>n. Inr (hlist_entry_safe off n))"

type_synonym hlist_body = "addr \<Rightarrow> hheap \<Rightarrow> hheap cres"

fun hentry_loop :: "hlist_body \<Rightarrow> nat \<Rightarrow> nat \<Rightarrow> addr \<Rightarrow> hheap \<Rightarrow> (addr list \<times> hheap) cres" where
  "hentry_loop body 0 off pos h = Inl No_Fuel"
| "hentry_loop body (Suc k) off pos h =
     (if pos = 0 then Inr ([], h)
      else
        bnd (body pos h) (\<lambda>h.
        bnd (hlist_next off pos h) (\<lambda>next.
        bnd (hentry_loop body k off next h) (\<lambda>(r, h). Inr (pos # r, h)))))"

fun hsafe_loop :: "hlist_body \<Rightarrow> nat \<Rightarrow> nat \<Rightarrow> addr \<Rightarrow> hheap \<Rightarrow> (addr list \<times> hheap) cres" where
  "hsafe_loop body 0 off pos h = Inl No_Fuel"
| "hsafe_loop body (Suc k) off pos h =
     (if pos = 0 then Inr ([], h)
      else
        bnd (get_slot (Next (member_of off pos)) h) (\<lambda>n.
        bnd (body pos h) (\<lambda>h.
        bnd (hsafe_loop body k off (hlist_entry_safe off n) h) (\<lambda>(r, h). Inr (pos # r, h)))))"

definition hlist_for_each_safe :: "hlist_body \<Rightarrow> nat \<Rightarrow> addr \<Rightarrow> hheap \<Rightarrow> (addr list \<times> hheap) cres" where
  "hlist_for_each_safe body k head h = bnd (get_slot (First head) h) (\<lambda>pos. hsafe_loop body k 0 pos h)"

definition hlist_for_each_entry :: "hlist_body \<Rightarrow> nat \<Rightarrow> nat \<Rightarrow> addr \<Rightarrow> hheap \<Rightarrow> (addr list \<times> hheap) cres" where
  "hlist_for_each_entry body k off head h =
     bnd (get_slot (First head) h) (\<lambda>f. hentry_loop body k off (hlist_entry_safe off f) h)"

definition hlist_for_each_entry_continue :: "hlist_body \<Rightarrow> nat \<Rightarrow> nat \<Rightarrow> addr \<Rightarrow> hheap \<Rightarrow> (addr list \<times> hheap) cres" where
  "hlist_for_each_entry_continue body k off pos h =
     bnd (hlist_next off pos h) (\<lambda>pos. hentry_loop body k off pos h)"

definition hlist_for_each_entry_from :: "hlist_body \<Rightarrow> nat \<Rightarrow> nat \<Rightarrow> addr \<Rightarrow> hheap \<Rightarrow> (addr list \<times> hheap) cres" where
  "hlist_for_each_entry_from body k off pos h = hentry_loop body k off pos h"

definition hlist_for_each_entry_safe :: "hlist_body \<Rightarrow> nat \<Rightarrow> nat \<Rightarrow> addr \<Rightarrow> hheap \<Rightarrow> (addr list \<times> hheap) cres" where
  "hlist_for_each_entry_safe body k off head h =
     bnd (get_slot (First head) h) (\<lambda>f. hsafe_loop body k off (hlist_entry_safe off f) h)"

section \<open>What they visit\<close>

text \<open>Every structure starts above the address 0, which is the cursor that ends a loop.\<close>

lemma member_of_container: "off < x \<Longrightarrow> member_of off (container_of off x) = x \<and> container_of off x \<noteq> 0"
  by (simp add: member_of_def container_of_def)

lemma hentry_loop_chain:
  assumes "hseg (val h) (pp h) s xs" and "val h (end_slot s xs) = Some 0" and "length xs < k" and "\<forall>x \<in> set xs. off < x"
  shows "bnd (get_slot s h) (\<lambda>f. hentry_loop (\<lambda>_. Inr) k off (hlist_entry_safe off f) h) = Inr (map (container_of off) xs, h)"
  using assms
proof (induction xs arbitrary: s k)
  case Nil
  then show ?case by (cases k) (simp_all add: hlist_simps hlist_entry_safe_def)
next
  case (Cons x xs)
  then obtain k' where k: "k = Suc k'" by (cases k) auto
  have x: "member_of off (container_of off x) = x" "container_of off x \<noteq> 0"
    using member_of_container [of off x] Cons.prems(4) by simp_all
  have f: "get_slot s h = Inr x" "hlist_entry_safe off x = container_of off x"
    using Cons.prems(1) by (simp_all add: hlist_simps hlist_entry_safe_def)
  have "bnd (get_slot (Next x) h) (\<lambda>f. hentry_loop (\<lambda>_. Inr) k' off (hlist_entry_safe off f) h) =
      Inr (map (container_of off) xs, h)"
    by (rule Cons.IH) (use Cons.prems k in auto)
  then show ?case using f x by (auto simp: k hlist_next_def bnd_def split: sum.splits)
qed

text \<open>
  The loops over the structures of a chain see those that \<open>hlist_for_each\<close> sees, all of them or
  those behind the structure of \<open>x\<close> or those from it on.
\<close>

theorem hlist_entries:
  assumes "hchain h hp (as @ x # bs)" and "length (as @ x # bs) < k" and "\<forall>y \<in> set (as @ x # bs). off < y"
  defines "s \<equiv> container_of off" and "skip \<equiv> \<lambda>_ :: addr. Inr :: hheap \<Rightarrow> hheap cres"
  shows "hlist_for_each_entry skip k off hp h = Inr (map s as @ s x # map s bs, h) \<and>
    hlist_for_each_entry_continue skip k off (s x) h = Inr (map s bs, h) \<and>
    hlist_for_each_entry_from skip k off (s x) h = Inr (s x # map s bs, h)"
proof -
  have c: "hseg (val h) (pp h) (First hp) (as @ x # bs)" "val h (end_slot (First hp) (as @ x # bs)) = Some 0"
    using assms(1) by (simp_all add: hchain_def)
  then have two: "hseg (val h) (pp h) (end_slot (First hp) as) (x # bs)" "hseg (val h) (pp h) (Next x) bs"
    "val h (end_slot (end_slot (First hp) as) (x # bs)) = Some 0" "val h (end_slot (Next x) bs) = Some 0"
    by (simp_all add: hseg_append end_slot_append)
  have x: "x \<noteq> 0" "member_of off (s x) = x" using two(1) member_of_container [of off x] assms(3) by (simp_all add: s_def)
  have "get_slot (end_slot (First hp) as) h = Inr x" using two(1) by (simp add: hlist_simps)
  then have "hentry_loop skip k off (s x) h = Inr (map s (x # bs), h)"
    using hentry_loop_chain [OF two(1,3), of k off] assms(2,3) x(1) by (simp add: s_def skip_def hlist_entry_safe_def)
  moreover have "hlist_for_each_entry skip k off hp h = Inr (map s (as @ x # bs), h)"
    unfolding hlist_for_each_entry_def s_def skip_def by (rule hentry_loop_chain [OF c]) (use assms(2,3) in auto)
  moreover have "hlist_for_each_entry_continue skip k off (s x) h = Inr (map s bs, h)"
    using hentry_loop_chain [OF two(2,4), of k off] assms(2,3) x(2)
    by (simp add: hlist_for_each_entry_continue_def hlist_next_def s_def skip_def bnd_assoc)
  ultimately show ?thesis by (simp add: hlist_for_each_entry_from_def)
qed

text \<open>
  The safe loop with a body that deletes each node with \<open>hlist_del\<close> visits every structure, ends,
  and leaves an empty chain.
\<close>

lemma hdrain_loop:
  assumes "hchain h hp xs" and "length xs < k" and "\<forall>x \<in> set xs. off < x"
  shows "\<exists>h'. bnd (get_slot (First hp) h) (\<lambda>f.
      hsafe_loop (\<lambda>pos. hlist_del (member_of off pos)) k off (hlist_entry_safe off f) h) = Inr (map (container_of off) xs, h') \<and>
    hchain h' hp []"
  using assms
proof (induction xs arbitrary: h k)
  case Nil
  then have "get_slot (First hp) h = Inr 0" by (simp add: hchain_def hlist_simps)
  then show ?case using Nil by (cases k) (simp_all add: hlist_entry_safe_def)
next
  case (Cons x xs)
  then obtain k' where k: "k = Suc k'" by (cases k) auto
  have x: "member_of off (container_of off x) = x" "container_of off x \<noteq> 0"
    using member_of_container [of off x] Cons.prems(3) by simp_all
  have f: "get_slot (First hp) h = Inr x" "x \<noteq> 0" using Cons.prems(1) by (simp_all add: hchain_def hlist_simps)
  obtain h1 where h1: "hlist_del x h = Inr h1" "hchain h1 hp xs" using hlist_del_chain [of h hp "[]" x xs] Cons.prems(1) by auto
  obtain n where n: "get_slot (Next x) h = Inr n" "get_slot (First hp) h1 = Inr n"
  proof (cases xs)
    case Nil
    then show ?thesis using that [of 0] Cons.prems(1) h1(2) by (simp add: hchain_def hlist_simps)
  next
    case (Cons y ys)
    then show ?thesis using that [of y] Cons.prems(1) h1(2) by (simp add: hchain_def hlist_simps)
  qed
  obtain h' where "hsafe_loop (\<lambda>pos. hlist_del (member_of off pos)) k' off (hlist_entry_safe off n) h1 =
      Inr (map (container_of off) xs, h')" "hchain h' hp []"
    using Cons.IH [OF h1(2), of k'] Cons.prems(2,3) k n(2) by auto
  then show ?case using f x n(1) h1(1) by (simp add: k hlist_entry_safe_def)
qed

theorem hlist_drain:
  assumes "hchain h hp xs" and "length xs < k" and "\<forall>x \<in> set xs. off < x"
  shows "\<exists>h'. hlist_for_each_entry_safe (\<lambda>pos. hlist_del (member_of off pos)) k off hp h = Inr (map (container_of off) xs, h') \<and>
    hchain h' hp []"
  unfolding hlist_for_each_entry_safe_def by (rule hdrain_loop [OF assms])

theorem hlist_entries_witness:
  "hlist_for_each_entry_continue (\<lambda>_. Inr) 4 1 2 sample_hheap = Inr ([3], sample_hheap)"
  using hlist_entries [of sample_hheap 1 "[2]" 3 "[4]" 4 1] sample_hchain(1) by (simp add: container_of_def)

theorem hlist_drain_witness:
  "\<exists>h'. hlist_for_each_entry_safe (\<lambda>pos. hlist_del (member_of 1 pos)) 4 1 1 sample_hheap = Inr ([1, 2, 3], h') \<and> hchain h' 1 []"
  using hlist_drain [OF sample_hchain(1), of 4 1] by (simp add: container_of_def)

end
