(* ===== verification/Qbuf.thy ===== *)
theory Qbuf
  imports Prelude
begin

text \<open>
  The byte queue of \<open>src/qbuf.c\<close>: a raw buffer with a read and a write offset. The state is the
  record \<open>qbuf\<close>, sizes and offsets are 64-bit words that wrap as \<open>size_t\<close> does. The invariant
  \<open>qbuf_inv\<close> orders the offsets inside the buffer, \<open>contents\<close> is the abstract queue, and every
  operation is shown to keep the first and to be the list operation it stands for on the second.
  The locale \<open>byte_fifo\<close> is the contract of such a queue; \<open>qbuf_write\<close>, \<open>qbuf_peek\<close> and
  \<open>qbuf_offset_out_head\<close> are its interpretation.
\<close>

section \<open>State and operations\<close>

record qbuf =
  rawbuf :: "byte list"
  bsize :: size_t
  offset_in :: size_t
  offset_out :: size_t

definition RAW_SIZE :: size_t where "RAW_SIZE = 4096"

definition QBUF_COLLECT_POLICY_NONE :: flags where "QBUF_COLLECT_POLICY_NONE = 0"
definition QBUF_COLLECT_POLICY_LESS_SPARE :: flags where "QBUF_COLLECT_POLICY_LESS_SPARE = 1"
definition QBUF_COLLECT_POLICY_LARGE_GARBAGE :: flags where "QBUF_COLLECT_POLICY_LARGE_GARBAGE = 2"

text \<open>
  \<open>a1\<close> and \<open>a2\<close> say whether the allocator serves the two requests, of the structure and of
  the buffer. \<open>None\<close> is the NULL result, on which nothing stays allocated.
\<close>

definition qbuf_new :: "bool \<Rightarrow> bool \<Rightarrow> size_t \<Rightarrow> qbuf option" where
  "qbuf_new a1 a2 sz =
     (let sz = (if sz = 0 then RAW_SIZE else sz) in
      if \<not> a1 then None
      else case c_calloc a2 sz of
        None \<Rightarrow> None
      | Some buf \<Rightarrow> Some \<lparr>rawbuf = buf, bsize = sz, offset_in = 0, offset_out = 0\<rparr>)"

text \<open>\<open>qbuf_realloc\<close> returns 0 or -1 next to the queue. \<open>ra\<close> is the choice of the allocator.\<close>

definition qbuf_realloc :: "(nat \<Rightarrow> byte) option \<Rightarrow> size_t \<Rightarrow> qbuf \<Rightarrow> (int \<times> qbuf) cres" where
  "qbuf_realloc ra len q =
     bnd (c_realloc ra (rawbuf q) len) (\<lambda>newbuf.
     case newbuf of
       Some buf \<Rightarrow> Inr (0, q\<lparr>rawbuf := buf, bsize := len\<rparr>)
     | None \<Rightarrow> Inr (-1, q))"

text \<open>The positions \<open>qbuf_rawbuf_out_pos\<close> and \<open>qbuf_rawbuf_in_pos\<close> are offsets into \<open>rawbuf\<close>.\<close>

definition qbuf_rawbuf_out_pos :: "qbuf \<Rightarrow> nat" where
  "qbuf_rawbuf_out_pos q = unat (offset_out q)"

definition qbuf_rawbuf_in_pos :: "qbuf \<Rightarrow> nat" where
  "qbuf_rawbuf_in_pos q = unat (offset_in q)"

definition qbuf_size :: "qbuf \<Rightarrow> size_t" where "qbuf_size q = bsize q"
definition qbuf_garbage :: "qbuf \<Rightarrow> size_t" where "qbuf_garbage q = offset_out q"
definition qbuf_used :: "qbuf \<Rightarrow> size_t" where "qbuf_used q = offset_in q - offset_out q"
definition qbuf_spare :: "qbuf \<Rightarrow> size_t" where "qbuf_spare q = bsize q - offset_in q"

definition policy_do :: "flags \<Rightarrow> qbuf \<Rightarrow> bool" where
  "policy_do policy q =
     (let d = True;
          d = (if policy AND QBUF_COLLECT_POLICY_LESS_SPARE \<noteq> 0 \<and>
                  qbuf_spare q > drop_bit 2 (bsize q) then False else d);
          d = (if policy AND QBUF_COLLECT_POLICY_LARGE_GARBAGE \<noteq> 0 \<and>
                  qbuf_garbage q < drop_bit 2 (bsize q) then False else d)
      in d)"

definition qbuf_collect :: "flags \<Rightarrow> qbuf \<Rightarrow> (size_t \<times> qbuf) cres" where
  "qbuf_collect policy q =
     (if qbuf_used q = 0 then
        (let q = q\<lparr>offset_in := 0, offset_out := 0\<rparr> in Inr (qbuf_spare q, q))
      else if policy_do policy q then
        bnd (rd (rawbuf q) (qbuf_rawbuf_out_pos q) (unat (qbuf_used q))) (\<lambda>bs.
        bnd (wr (rawbuf q) 0 bs) (\<lambda>buf.
        let q = q\<lparr>rawbuf := buf\<rparr>;
            q = q\<lparr>offset_in := qbuf_used q\<rparr>;
            q = q\<lparr>offset_out := 0\<rparr>
        in Inr (qbuf_spare q, q)))
      else Inr (qbuf_spare q, q))"

definition qbuf_offset_out_head :: "size_t \<Rightarrow> qbuf \<Rightarrow> size_t \<times> qbuf" where
  "qbuf_offset_out_head len q =
     (let q = q\<lparr>offset_out := offset_out q + len\<rparr>;
          q = (if offset_out q > offset_in q then q\<lparr>offset_out := offset_in q\<rparr> else q)
      in (qbuf_used q, q))"

definition qbuf_offset_in_head :: "size_t \<Rightarrow> qbuf \<Rightarrow> size_t \<times> qbuf" where
  "qbuf_offset_in_head len q =
     (let q = q\<lparr>offset_in := offset_in q + len\<rparr>;
          q = (if offset_in q > bsize q then q\<lparr>offset_in := bsize q\<rparr> else q)
      in (qbuf_spare q, q))"

text \<open>
  \<open>qbuf_peek\<close> copies to the buffer of the caller; the model returns the bytes stored there.
  The \<open>nread\<close> of \<open>qbuf_read\<close> is an \<open>int\<close>: 64 bits are cut to 32 and sign-extended again.
\<close>

definition qbuf_peek :: "size_t \<Rightarrow> qbuf \<Rightarrow> (size_t \<times> byte list) cres" where
  "qbuf_peek len q =
     (let len_can_out = (if len \<le> qbuf_used q then len else qbuf_used q) in
      bnd (rd (rawbuf q) (qbuf_rawbuf_out_pos q) (unat len_can_out)) (\<lambda>bs.
      Inr (len_can_out, bs)))"

definition as_int :: "size_t \<Rightarrow> 32 word" where "as_int n = ucast n"
definition as_size_t :: "32 word \<Rightarrow> size_t" where "as_size_t n = scast n"

definition qbuf_read :: "size_t \<Rightarrow> qbuf \<Rightarrow> (size_t \<times> byte list \<times> qbuf) cres" where
  "qbuf_read len q =
     bnd (qbuf_peek len q) (\<lambda>(n, bs).
     let nread = as_int n;
         q = snd (qbuf_offset_out_head (as_size_t nread) q)
     in Inr (as_size_t nread, bs, q))"

definition qbuf_write ::
  "(nat \<Rightarrow> byte) option \<Rightarrow> byte list \<Rightarrow> size_t \<Rightarrow> qbuf \<Rightarrow> (size_t \<times> qbuf) cres" where
  "qbuf_write ra buf len q =
     bnd (if len > qbuf_spare q then bnd (qbuf_collect QBUF_COLLECT_POLICY_NONE q) (\<lambda>(_, q). Inr q)
          else Inr q) (\<lambda>q.
     bnd (if len > qbuf_spare q
          then bnd (qbuf_realloc ra (if bsize q > len then push_bit 1 (bsize q) else push_bit 1 len) q)
                 (\<lambda>(_, q). Inr q)
          else Inr q) (\<lambda>q.
     let len_can_in = (if len \<le> qbuf_spare q then len else qbuf_spare q) in
     bnd (rd buf 0 (unat len_can_in)) (\<lambda>bs.
     bnd (wr (rawbuf q) (qbuf_rawbuf_in_pos q) bs) (\<lambda>raw.
     let q = snd (qbuf_offset_in_head len_can_in (q\<lparr>rawbuf := raw\<rparr>)) in
     Inr (len_can_in, q)))))"

section \<open>Invariant and abstract queue\<close>

definition qbuf_inv :: "qbuf \<Rightarrow> bool" where
  "qbuf_inv q \<longleftrightarrow> length (rawbuf q) = unat (bsize q) \<and> unat (bsize q) < OBJECT_MAX \<and> 0 < bsize q \<and>
     offset_out q \<le> offset_in q \<and> offset_in q \<le> bsize q"

definition contents :: "qbuf \<Rightarrow> byte list" where
  "contents q = take (unat (qbuf_used q)) (drop (unat (offset_out q)) (rawbuf q))"

text \<open>Word arithmetic on the fields, read on natural numbers.\<close>

lemma qbuf_nat:
  assumes "qbuf_inv q"
  shows "unat (offset_out q) \<le> unat (offset_in q)" and "unat (offset_in q) \<le> unat (bsize q)"
    and "unat (qbuf_used q) = unat (offset_in q) - unat (offset_out q)"
    and "unat (qbuf_spare q) = unat (bsize q) - unat (offset_in q)"
    and "length (rawbuf q) = unat (bsize q)" and "unat (bsize q) < 2 ^ 63" and "0 < unat (bsize q)"
proof -
  have le: "offset_out q \<le> offset_in q" "offset_in q \<le> bsize q" using assms by (auto simp: qbuf_inv_def)
  then show "unat (offset_out q) \<le> unat (offset_in q)" "unat (offset_in q) \<le> unat (bsize q)"
    by (simp_all add: word_le_nat_alt)
  from le show "unat (qbuf_used q) = unat (offset_in q) - unat (offset_out q)"
    "unat (qbuf_spare q) = unat (bsize q) - unat (offset_in q)"
    by (simp_all add: qbuf_used_def qbuf_spare_def unat_sub_nowrap)
  show "length (rawbuf q) = unat (bsize q)" "unat (bsize q) < 2 ^ 63" "0 < unat (bsize q)"
    using assms by (auto simp: qbuf_inv_def OBJECT_MAX_def word_less_nat_alt)
qed

lemma length_contents: "qbuf_inv q \<Longrightarrow> length (contents q) = unat (qbuf_used q)"
  using qbuf_nat [of q] by (simp add: contents_def)

lemma used_eq_0: "qbuf_inv q \<Longrightarrow> qbuf_used q = 0 \<longleftrightarrow> contents q = []"
  using length_contents [of q] by (auto simp: unat_eq_zero contents_def)

lemma contents_nat:
  "qbuf_inv q \<Longrightarrow> contents q =
     take (unat (offset_in q) - unat (offset_out q)) (drop (unat (offset_out q)) (rawbuf q))"
  by (simp add: contents_def qbuf_nat)

section \<open>The operations keep the invariant and implement the queue\<close>

lemma qbuf_new_inv:
  assumes "qbuf_new a1 a2 sz = Some q"
  shows "qbuf_inv q" and "contents q = []" and "bsize q = (if sz = 0 then RAW_SIZE else sz)"
  using assms
  by (auto simp: qbuf_new_def c_calloc_def qbuf_inv_def contents_def qbuf_used_def Let_def
      word_gt_0 RAW_SIZE_def split: if_splits)

lemma qbuf_new_Some:
  "unat sz < OBJECT_MAX \<Longrightarrow> \<exists>q. qbuf_new True True sz = Some q"
  by (auto simp: qbuf_new_def c_calloc_def Let_def RAW_SIZE_def OBJECT_MAX_def)

text \<open>
  \<open>qbuf_realloc\<close> keeps the bytes below the new size, so it keeps the queue where the new size
  does not cut into the part in use.
\<close>

lemma qbuf_realloc_inv:
  assumes "qbuf_inv q" and "offset_in q \<le> len" and "len \<noteq> 0"
  shows "\<exists>r q'. qbuf_realloc ra len q = Inr (r, q') \<and> qbuf_inv q' \<and> contents q' = contents q \<and>
    offset_in q' = offset_in q \<and> offset_out q' = offset_out q \<and>
    (r = 0 \<and> bsize q' = len \<or> r = -1 \<and> q' = q) \<and>
    (ra \<noteq> None \<and> unat len < OBJECT_MAX \<longleftrightarrow> r = 0)"
proof -
  have le: "unat (offset_in q) \<le> unat len" using assms(2) by (simp add: word_le_nat_alt)
  have len: "0 < len" using assms(3) by (simp add: word_gt_0)
  show ?thesis
  proof (cases "ra \<noteq> None \<and> unat len < OBJECT_MAX")
    case True
    then obtain junk where ra: "ra = Some junk" by auto
    define raw where "raw = take (unat len) (rawbuf q) @ map junk [length (rawbuf q)..<unat len]"
    define q' where "q' = q\<lparr>rawbuf := raw, bsize := len\<rparr>"
    have r: "qbuf_realloc ra len q = Inr (0, q')"
      using True ra assms(3) by (simp add: qbuf_realloc_def c_realloc_def q'_def raw_def)
    have inv: "qbuf_inv q'"
      using assms len True by (simp add: qbuf_inv_def q'_def raw_def)
    moreover have "contents q' = contents q"
      using le qbuf_nat(1,2,5) [OF assms(1)]
      by (simp add: contents_nat [OF inv] contents_nat [OF assms(1)]) (simp add: q'_def raw_def drop_take min_def)
    ultimately show ?thesis using r True by (simp add: q'_def)
  next
    case False
    then have "qbuf_realloc ra len q = Inr (-1, q)"
      using assms(3) by (auto simp: qbuf_realloc_def c_realloc_def split: option.splits)
    with False assms(1) show ?thesis by auto
  qed
qed

text \<open>\<open>qbuf_collect\<close> moves bytes, never loses one, and never makes the spare room smaller.\<close>

lemma qbuf_collect_inv:
  assumes "qbuf_inv q"
  shows "\<exists>q'. qbuf_collect policy q = Inr (qbuf_spare q', q') \<and> qbuf_inv q' \<and>
    contents q' = contents q \<and> bsize q' = bsize q \<and>
    (if contents q = [] \<or> policy_do policy q then offset_in q' = qbuf_used q \<and> offset_out q' = 0 else q' = q)"
proof -
  note n = qbuf_nat [OF assms]
  consider (empty) "qbuf_used q = 0" | (move) "qbuf_used q \<noteq> 0" "policy_do policy q"
    | (keep) "qbuf_used q \<noteq> 0" "\<not> policy_do policy q" by blast
  then show ?thesis
  proof cases
    case empty
    then have "contents q = []" by (simp add: contents_def)
    with empty assms show ?thesis
      by (simp add: qbuf_collect_def contents_def qbuf_inv_def Let_def) (simp add: qbuf_used_def)
  next
    case move
    define raw where "raw = contents q @ drop (unat (qbuf_used q)) (rawbuf q)"
    define q' where "q' = q\<lparr>rawbuf := raw, offset_in := qbuf_used q, offset_out := 0\<rparr>"
    have "rd (rawbuf q) (qbuf_rawbuf_out_pos q) (unat (qbuf_used q)) = Inr (contents q)"
      using n by (simp add: qbuf_rawbuf_out_pos_def contents_def)
    moreover have "wr (rawbuf q) 0 (contents q) = Inr raw"
      using n by (simp add: raw_def length_contents [OF assms])
    ultimately have r: "qbuf_collect policy q = Inr (qbuf_spare q', q')"
      using move by (simp add: qbuf_collect_def Let_def q'_def qbuf_used_def)
    have "qbuf_used q \<le> bsize q" using n by (simp add: word_le_nat_alt)
    then have inv: "qbuf_inv q'"
      using assms n by (simp add: qbuf_inv_def q'_def raw_def length_contents)
    have "contents q' = contents q"
      by (simp add: contents_nat [OF inv]) (simp add: q'_def raw_def length_contents [OF assms])
    with r inv move show ?thesis by (simp add: q'_def)
  next
    case keep
    with assms show ?thesis by (simp add: qbuf_collect_def used_eq_0)
  qed
qed

lemma policy_do_NONE [simp]: "policy_do QBUF_COLLECT_POLICY_NONE q"
  by (simp add: policy_do_def QBUF_COLLECT_POLICY_NONE_def)

text \<open>
  Moving the read offset drops bytes, all of them when asked for more than there are; the sum
  must not wrap, which no length of an object makes it do.
\<close>

lemma qbuf_offset_out_head_inv:
  assumes "qbuf_inv q" and "unat (offset_out q) + unat len < 2 ^ 64"
  shows "qbuf_inv (snd (qbuf_offset_out_head len q))"
    and "contents (snd (qbuf_offset_out_head len q)) = drop (unat len) (contents q)"
    and "fst (qbuf_offset_out_head len q) = qbuf_used (snd (qbuf_offset_out_head len q))"
    and "bsize (snd (qbuf_offset_out_head len q)) = bsize q"
proof -
  note n = qbuf_nat [OF assms(1)]
  have s: "unat (offset_out q + len) = unat (offset_out q) + unat len"
    by (rule unat_add_nowrap) (rule assms(2))
  define o' where "o' = (if offset_out q + len > offset_in q then offset_in q else offset_out q + len)"
  have o': "o' \<le> offset_in q" "unat o' = min (unat (offset_in q)) (unat (offset_out q) + unat len)"
    using s by (auto simp: o'_def word_less_nat_alt word_le_nat_alt)
  have e: "qbuf_offset_out_head len q = (qbuf_used (q\<lparr>offset_out := o'\<rparr>), q\<lparr>offset_out := o'\<rparr>)"
    by (simp add: qbuf_offset_out_head_def Let_def o'_def)
  show inv: "qbuf_inv (snd (qbuf_offset_out_head len q))"
    using assms(1) o'(1) by (simp add: e qbuf_inv_def)
  show "contents (snd (qbuf_offset_out_head len q)) = drop (unat len) (contents q)"
    using n o'(2) by (simp add: contents_nat [OF inv] contents_nat [OF assms(1)])
      (auto simp: e drop_take min_def add.commute)
  show "fst (qbuf_offset_out_head len q) = qbuf_used (snd (qbuf_offset_out_head len q))"
    and "bsize (snd (qbuf_offset_out_head len q)) = bsize q" by (simp_all add: e)
qed

text \<open>Moving the write offset takes over the bytes stored behind it.\<close>

lemma qbuf_offset_in_head_inv:
  assumes "qbuf_inv q" and "unat len \<le> unat (qbuf_spare q)"
  shows "qbuf_inv (snd (qbuf_offset_in_head len q))"
    and "contents (snd (qbuf_offset_in_head len q)) =
      contents q @ take (unat len) (drop (qbuf_rawbuf_in_pos q) (rawbuf q))"
    and "fst (qbuf_offset_in_head len q) = qbuf_spare (snd (qbuf_offset_in_head len q))"
    and "bsize (snd (qbuf_offset_in_head len q)) = bsize q"
    and "offset_out (snd (qbuf_offset_in_head len q)) = offset_out q"
    and "unat (offset_in (snd (qbuf_offset_in_head len q))) = unat (offset_in q) + unat len"
proof -
  note n = qbuf_nat [OF assms(1)]
  have s: "unat (offset_in q + len) = unat (offset_in q) + unat len"
    by (rule unat_add_nowrap) (use n assms(2) in simp)
  have le: "offset_in q + len \<le> bsize q" "offset_out q \<le> offset_in q + len"
    using n assms(2) s by (simp_all add: word_le_nat_alt)
  have e: "qbuf_offset_in_head len q =
      (qbuf_spare (q\<lparr>offset_in := offset_in q + len\<rparr>), q\<lparr>offset_in := offset_in q + len\<rparr>)"
    using le(1) by (auto simp: qbuf_offset_in_head_def Let_def dest: leD)
  show inv: "qbuf_inv (snd (qbuf_offset_in_head len q))"
    using assms(1) le by (simp add: e qbuf_inv_def)
  show "contents (snd (qbuf_offset_in_head len q)) =
      contents q @ take (unat len) (drop (qbuf_rawbuf_in_pos q) (rawbuf q))"
    using n s by (simp add: contents_nat [OF inv] contents_nat [OF assms(1)])
      (simp add: e take_drop_extend qbuf_rawbuf_in_pos_def)
  show "fst (qbuf_offset_in_head len q) = qbuf_spare (snd (qbuf_offset_in_head len q))"
    and "bsize (snd (qbuf_offset_in_head len q)) = bsize q"
    and "offset_out (snd (qbuf_offset_in_head len q)) = offset_out q"
    and "unat (offset_in (snd (qbuf_offset_in_head len q))) = unat (offset_in q) + unat len"
    using s by (simp_all add: e)
qed

text \<open>Bytes stored at the write offset (by \<open>memcpy\<close> or \<open>recv\<close>) and then taken over are appended.\<close>

lemma qbuf_fill:
  assumes "qbuf_inv q" and "length bs = unat len" and "unat len \<le> unat (qbuf_spare q)"
  shows "\<exists>raw. wr (rawbuf q) (qbuf_rawbuf_in_pos q) bs = Inr raw \<and>
    (let q' = snd (qbuf_offset_in_head len (q\<lparr>rawbuf := raw\<rparr>)) in
     qbuf_inv q' \<and> contents q' = contents q @ bs \<and> bsize q' = bsize q)"
proof -
  note n = qbuf_nat [OF assms(1)]
  define raw where "raw = take (unat (offset_in q)) (rawbuf q) @ bs @
    drop (unat (offset_in q) + length bs) (rawbuf q)"
  have w: "wr (rawbuf q) (qbuf_rawbuf_in_pos q) bs = Inr raw"
    using n assms(2,3) by (simp add: qbuf_rawbuf_in_pos_def raw_def)
  define q1 where "q1 = q\<lparr>rawbuf := raw\<rparr>"
  have inv: "qbuf_inv q1" using assms(1) length_wr [OF w] by (simp add: qbuf_inv_def q1_def)
  have "contents q1 = contents q"
    using n by (simp add: contents_nat [OF inv] contents_nat [OF assms(1)])
      (simp add: q1_def raw_def drop_take)
  moreover have "take (unat len) (drop (qbuf_rawbuf_in_pos q1) (rawbuf q1)) = bs"
    using n assms(2) by (simp add: q1_def raw_def qbuf_rawbuf_in_pos_def)
  moreover have "unat len \<le> unat (qbuf_spare q1)" using assms(3) by (simp add: qbuf_spare_def q1_def)
  ultimately show ?thesis
    using w qbuf_offset_in_head_inv [OF inv, of len] by (simp add: Let_def q1_def)
qed

lemma qbuf_peek_contents:
  assumes "qbuf_inv q"
  shows "qbuf_peek len q =
    Inr (if len \<le> qbuf_used q then len else qbuf_used q, take (unat len) (contents q))"
proof -
  define k where "k = (if len \<le> qbuf_used q then len else qbuf_used q)"
  have k: "unat k = min (unat len) (unat (qbuf_used q))"
    by (simp add: k_def word_le_nat_alt)
  have "unat (offset_out q) + unat k \<le> length (rawbuf q)"
    using qbuf_nat [OF assms] k by simp
  then have "rd (rawbuf q) (unat (offset_out q)) (unat k) = Inr (take (unat len) (contents q))"
    by (simp add: k contents_def take_take)
  then show ?thesis by (simp add: qbuf_peek_def Let_def qbuf_rawbuf_out_pos_def k_def)
qed

text \<open>A count below \<open>2 ^ 31\<close> survives the \<open>int\<close> in \<open>qbuf_read\<close>.\<close>

lemma as_size_t_as_int:
  assumes "unat n < 2 ^ 31"
  shows "as_size_t (as_int n) = n"
proof -
  have "int (unat n) < int (2 ^ 31)" using assms by (simp only: of_nat_less_iff)
  then have lt: "uint n < 2 ^ 31" by simp
  then have u: "uint (as_int n) = uint n"
    by (simp add: as_int_def unsigned_ucast_eq take_bit_int_eq_self)
  have "sint (as_int n) = uint n"
    using lt signed_take_bit_int_eq_self [of 31 "uint n"] order_trans [of "- (2 ^ 31)" 0 "uint n"]
    by (simp add: sint_uint u)
  then have "uint (as_size_t (as_int n)) = uint n"
    using uint_lt2p [of n] by (simp add: as_size_t_def scast_eq uint_word_of_int_eq take_bit_int_eq_self)
  then show ?thesis by (simp add: word_uint_eq_iff)
qed

lemma qbuf_read_contents:
  assumes "qbuf_inv q" and "unat (qbuf_used q) < 2 ^ 31"
  shows "\<exists>q'. qbuf_read len q = Inr (of_nat (min (unat len) (length (contents q))),
      take (unat len) (contents q), q') \<and>
    qbuf_inv q' \<and> contents q' = drop (unat len) (contents q) \<and> bsize q' = bsize q"
proof -
  define k where "k = (if len \<le> qbuf_used q then len else qbuf_used q)"
  note n = qbuf_nat [OF assms(1)]
  have k: "unat k = min (unat len) (length (contents q))"
    by (simp add: k_def word_le_nat_alt length_contents [OF assms(1)])
  have "unat k < 2 ^ 31" using k assms(2) length_contents [OF assms(1)] by simp
  then have c: "as_size_t (as_int k) = k" by (rule as_size_t_as_int)
  have "unat (offset_out q) + unat k < 2 ^ 64"
    using k n length_contents [OF assms(1)] by simp
  note o = qbuf_offset_out_head_inv [OF assms(1) this]
  have "drop (unat k) (contents q) = drop (unat len) (contents q)" by (simp add: k min_def)
  moreover have "k = of_nat (min (unat len) (length (contents q)))"
    by (simp add: k [symmetric])
  ultimately show ?thesis
    using o c qbuf_peek_contents [OF assms(1), of len]
    by (simp add: qbuf_read_def Let_def k_def [symmetric])
qed

section \<open>Writing\<close>

text \<open>
  \<open>qbuf_make_room\<close>: the first two statements of \<open>qbuf_write\<close>, collecting and then growing.
\<close>

definition qbuf_make_room :: "(nat \<Rightarrow> byte) option \<Rightarrow> size_t \<Rightarrow> qbuf \<Rightarrow> qbuf cres" where
  "qbuf_make_room ra len q =
     bnd (if len > qbuf_spare q then bnd (qbuf_collect QBUF_COLLECT_POLICY_NONE q) (\<lambda>(_, q). Inr q)
          else Inr q) (\<lambda>q.
     if len > qbuf_spare q
     then bnd (qbuf_realloc ra (if bsize q > len then push_bit 1 (bsize q) else push_bit 1 len) q)
            (\<lambda>(_, q). Inr q)
     else Inr q)"

lemma qbuf_write_room:
  "qbuf_write ra buf len q =
     bnd (qbuf_make_room ra len q) (\<lambda>q.
     let n = (if len \<le> qbuf_spare q then len else qbuf_spare q) in
     bnd (rd buf 0 (unat n)) (\<lambda>bs.
     bnd (wr (rawbuf q) (qbuf_rawbuf_in_pos q) bs) (\<lambda>raw.
     Inr (n, snd (qbuf_offset_in_head n (q\<lparr>rawbuf := raw\<rparr>))))))"
  by (simp add: qbuf_write_def qbuf_make_room_def bnd_assoc Let_def)

text \<open>
  The size asked for: twice the larger of the old size and the length, which is enough for
  both the bytes queued and the new ones.
\<close>

definition grown_size :: "size_t \<Rightarrow> size_t \<Rightarrow> size_t" where
  "grown_size len sz = (if sz > len then push_bit 1 sz else push_bit 1 len)"

lemma unat_grown_size:
  "unat len < 2 ^ 63 \<Longrightarrow> unat sz < 2 ^ 63 \<Longrightarrow> unat (grown_size len sz) = 2 * max (unat len) (unat sz)"
  using unat_double [of len] unat_double [of sz]
  by (auto simp: grown_size_def word_less_nat_alt max_def)

text \<open>
  Making room keeps the queue. There is room for the whole block unless the buffer had to grow
  and the allocator refused; then the spare room is what the queue leaves of the buffer.
\<close>

lemma qbuf_make_room_inv:
  assumes "qbuf_inv q" and "unat len < 2 ^ 63"
  shows "\<exists>q'. qbuf_make_room ra len q = Inr q' \<and> qbuf_inv q' \<and> contents q' = contents q \<and>
    (unat len \<le> unat (qbuf_spare q') \<or>
     bsize q' = bsize q \<and> offset_out q' = 0 \<and>
     (ra = None \<or> OBJECT_MAX \<le> 2 * max (unat len) (unat (bsize q)))) \<and>
    (ra = None \<longrightarrow> bsize q' = bsize q)"
proof (cases "len > qbuf_spare q")
  case False
  then have "unat len \<le> unat (qbuf_spare q)" by (simp add: word_less_nat_alt)
  with False assms(1) show ?thesis by (simp add: qbuf_make_room_def)
next
  case True
  obtain q1 where q1: "qbuf_collect QBUF_COLLECT_POLICY_NONE q = Inr (qbuf_spare q1, q1)"
    "qbuf_inv q1" "contents q1 = contents q" "bsize q1 = bsize q" "offset_out q1 = 0"
    using qbuf_collect_inv [OF assms(1), of QBUF_COLLECT_POLICY_NONE] by auto
  show ?thesis
  proof (cases "len > qbuf_spare q1")
    case False
    then have "unat len \<le> unat (qbuf_spare q1)" by (simp add: word_less_nat_alt)
    with False True q1 show ?thesis by (simp add: qbuf_make_room_def)
  next
    case True': True
    note n = qbuf_nat [OF q1(2)]
    define sz where "sz = grown_size len (bsize q1)"
    have sz: "unat sz = 2 * max (unat len) (unat (bsize q1))"
      unfolding sz_def by (rule unat_grown_size) (use assms(2) n in simp_all)
    have "offset_in q1 \<le> sz" using n sz by (simp add: word_le_nat_alt)
    moreover have "sz \<noteq> 0"
    proof
      assume "sz = 0"
      then show False using sz n by simp
    qed
    ultimately obtain r q2 where q2: "qbuf_realloc ra sz q1 = Inr (r, q2)" "qbuf_inv q2"
      "contents q2 = contents q1" "offset_in q2 = offset_in q1"
      "r = 0 \<and> bsize q2 = sz \<or> r = -1 \<and> q2 = q1" "ra \<noteq> None \<and> unat sz < OBJECT_MAX \<longleftrightarrow> r = 0"
      using qbuf_realloc_inv [OF q1(2), of sz ra] by blast
    have "qbuf_make_room ra len q = Inr q2"
      using True True' q1(1) q2(1) by (simp add: qbuf_make_room_def sz_def grown_size_def)
    moreover have "unat len \<le> unat (qbuf_spare q2)" if "r = 0"
      using that q2(4,5) n qbuf_nat(4) [OF q2(2)] sz by simp
    ultimately show ?thesis using q1 q2 sz by (cases "r = 0") auto
  qed
qed

text \<open>
  \<open>qbuf_write\<close> stores a prefix of the block and says how long it is: the whole block, except
  where the buffer had to grow and did not.
\<close>

lemma qbuf_write_contents:
  assumes "qbuf_inv q" and "unat len < 2 ^ 63" and "unat len \<le> length buf"
  shows "\<exists>n q'. qbuf_write ra buf len q = Inr (n, q') \<and> qbuf_inv q' \<and> n \<le> len \<and>
    contents q' = contents q @ take (unat n) buf \<and>
    (n = len \<or> (ra = None \<or> OBJECT_MAX \<le> 2 * max (unat len) (unat (bsize q))) \<and>
       unat n = unat (bsize q) - length (contents q)) \<and>
    (ra = None \<longrightarrow> bsize q' = bsize q)"
proof -
  obtain q1 where q1: "qbuf_make_room ra len q = Inr q1" "qbuf_inv q1" "contents q1 = contents q"
    "unat len \<le> unat (qbuf_spare q1) \<or> bsize q1 = bsize q \<and> offset_out q1 = 0 \<and>
     (ra = None \<or> OBJECT_MAX \<le> 2 * max (unat len) (unat (bsize q)))"
    "ra = None \<longrightarrow> bsize q1 = bsize q"
    using qbuf_make_room_inv [OF assms(1,2), of ra] by blast
  define n where "n = (if len \<le> qbuf_spare q1 then len else qbuf_spare q1)"
  have n: "unat n \<le> unat len" "unat n \<le> unat (qbuf_spare q1)" "n \<le> len"
    "unat len \<le> unat (qbuf_spare q1) \<longrightarrow> n = len" "n = len \<or> n = qbuf_spare q1"
    by (auto simp: n_def word_le_nat_alt)
  have sp: "unat (qbuf_spare q1) = unat (bsize q) - length (contents q)"
    if "bsize q1 = bsize q" "offset_out q1 = 0"
    using qbuf_nat [OF q1(2)] length_contents [OF q1(2)] q1(3) that by simp
  have "length (take (unat n) buf) = unat n" using n(1) assms(3) by simp
  from qbuf_fill [OF q1(2) this n(2)] obtain raw where
    "wr (rawbuf q1) (qbuf_rawbuf_in_pos q1) (take (unat n) buf) = Inr raw"
    "qbuf_inv (snd (qbuf_offset_in_head n (q1\<lparr>rawbuf := raw\<rparr>)))"
    "contents (snd (qbuf_offset_in_head n (q1\<lparr>rawbuf := raw\<rparr>))) = contents q1 @ take (unat n) buf"
    "bsize (snd (qbuf_offset_in_head n (q1\<lparr>rawbuf := raw\<rparr>))) = bsize q1"
    by (auto simp: Let_def)
  with q1 n sp assms(3) show ?thesis
    by (auto simp: qbuf_write_room n_def [symmetric])
qed

section \<open>The contract of a byte queue\<close>

text \<open>
  What a client of a byte queue relies on: writing appends a prefix of the bytes offered,
  reading takes a prefix of the bytes queued and drops it. \<open>run\<close> is any sequence of writes and
  reads, each with the choice the allocator makes; it returns the bytes taken in and given out.
\<close>

datatype 'r qop = Put 'r "byte list" | Get nat

fun run_qops :: "('r \<Rightarrow> byte list \<Rightarrow> 'q \<Rightarrow> (nat \<times> 'q) cres) \<Rightarrow> (nat \<Rightarrow> 'q \<Rightarrow> (byte list \<times> 'q) cres) \<Rightarrow>
  'r qop list \<Rightarrow> 'q \<Rightarrow> (byte list \<times> byte list \<times> 'q) cres" where
  "run_qops put get [] q = Inr ([], [], q)"
| "run_qops put get (Put r bs # ops) q =
     bnd (put r bs q) (\<lambda>(n, q).
     bnd (run_qops put get ops q) (\<lambda>(ins, outs, q). Inr (take n bs @ ins, outs, q)))"
| "run_qops put get (Get n # ops) q =
     bnd (get n q) (\<lambda>(bs, q).
     bnd (run_qops put get ops q) (\<lambda>(ins, outs, q). Inr (ins, bs @ outs, q)))"

definition put_ok :: "nat \<Rightarrow> 'r qop \<Rightarrow> bool" where
  "put_ok limit p = (case p of Put r bs \<Rightarrow> length bs < limit | Get n \<Rightarrow> n < limit)"

locale byte_fifo =
  fixes inv :: "'q \<Rightarrow> bool"
    and cont :: "'q \<Rightarrow> byte list"
    and put :: "'r \<Rightarrow> byte list \<Rightarrow> 'q \<Rightarrow> (nat \<times> 'q) cres"
    and get :: "nat \<Rightarrow> 'q \<Rightarrow> (byte list \<times> 'q) cres"
    and limit :: nat
  assumes put_law: "inv q \<Longrightarrow> length bs < limit \<Longrightarrow>
      \<exists>n q'. put r bs q = Inr (n, q') \<and> inv q' \<and> n \<le> length bs \<and> cont q' = cont q @ take n bs"
    and get_law: "inv q \<Longrightarrow> n < limit \<Longrightarrow>
      \<exists>q'. get n q = Inr (take n (cont q), q') \<and> inv q' \<and> cont q' = drop n (cont q)"
begin

text \<open>First in, first out: what came out, followed by what is queued, is what went in.\<close>

lemma run_fifo:
  assumes "inv q" and "list_all (put_ok limit) ops"
  shows "\<exists>ins outs q'. run_qops put get ops q = Inr (ins, outs, q') \<and> inv q' \<and>
    cont q @ ins = outs @ cont q'"
  using assms
proof (induction ops arbitrary: q)
  case Nil
  then show ?case by simp
next
  case (Cons p ops)
  show ?case
  proof (cases p)
    case (Put r bs)
    with Cons.prems put_law [of q bs r] obtain n q1 where p: "put r bs q = Inr (n, q1)" "inv q1"
      "cont q1 = cont q @ take n bs" by (auto simp: put_ok_def)
    with Cons.IH [of q1] Cons.prems(2) obtain ins outs q2 where
      "run_qops put get ops q1 = Inr (ins, outs, q2)" "inv q2" "cont q1 @ ins = outs @ cont q2" by auto
    with Put p show ?thesis by simp
  next
    case (Get n)
    with Cons.prems get_law [of q n] obtain q1 where g: "get n q = Inr (take n (cont q), q1)" "inv q1"
      "cont q1 = drop n (cont q)" by (auto simp: put_ok_def)
    with Cons.IH [of q1] Cons.prems(2) obtain ins outs q2 where r:
      "run_qops put get ops q1 = Inr (ins, outs, q2)" "inv q2" "cont q1 @ ins = outs @ cont q2" by auto
    have "cont q @ ins = take n (cont q) @ cont q1 @ ins" using g(3) by (simp flip: append_assoc)
    with Get g r show ?thesis by simp
  qed
qed

end

text \<open>
  The queue as its clients use it: a block is written with its length, bytes are taken by
  \<open>qbuf_peek\<close> and then \<open>qbuf_offset_out_head\<close> (as \<open>zsocket_handle_send\<close> does, and as
  \<open>qbuf_read\<close> does through an \<open>int\<close>).
\<close>

definition put_block :: "(nat \<Rightarrow> byte) option \<Rightarrow> byte list \<Rightarrow> qbuf \<Rightarrow> (nat \<times> qbuf) cres" where
  "put_block ra bs q = bnd (qbuf_write ra bs (of_nat (length bs)) q) (\<lambda>(n, q). Inr (unat n, q))"

definition take_block :: "nat \<Rightarrow> qbuf \<Rightarrow> (byte list \<times> qbuf) cres" where
  "take_block n q =
     bnd (qbuf_peek (of_nat n) q) (\<lambda>(k, bs). Inr (bs, snd (qbuf_offset_out_head k q)))"

lemma unat_of_nat_size_t: "n < 2 ^ 64 \<Longrightarrow> unat (of_nat n :: size_t) = n"
  by (simp add: unat_of_nat take_bit_nat_eq_self)

interpretation fifo: byte_fifo qbuf_inv contents put_block take_block "2 ^ 63"
proof unfold_locales
  fix q :: qbuf and bs :: "byte list" and r :: "(nat \<Rightarrow> byte) option"
  assume q: "qbuf_inv q" and bs: "length bs < 2 ^ 63"
  then have u: "unat (of_nat (length bs) :: size_t) = length bs" by (simp add: unat_of_nat_size_t)
  with q bs obtain n q' where "qbuf_write r bs (of_nat (length bs)) q = Inr (n, q')" "qbuf_inv q'"
    "n \<le> of_nat (length bs)" "contents q' = contents q @ take (unat n) bs"
    using qbuf_write_contents [of q "of_nat (length bs)" bs r] by auto
  with u show "\<exists>n q'. put_block r bs q = Inr (n, q') \<and> qbuf_inv q' \<and> n \<le> length bs \<and>
    contents q' = contents q @ take n bs"
    by (auto simp: put_block_def word_le_nat_alt)
next
  fix q :: qbuf and n :: nat
  assume q: "qbuf_inv q" and n: "n < 2 ^ 63"
  then have u: "unat (of_nat n :: size_t) = n" by (simp add: unat_of_nat_size_t)
  define k where "k = (if of_nat n \<le> qbuf_used q then of_nat n else qbuf_used q)"
  have k: "unat k = min n (length (contents q))"
    by (simp add: k_def word_le_nat_alt u length_contents [OF q])
  have "unat (offset_out q) + unat k < 2 ^ 64"
    using k n qbuf_nat [OF q] by simp
  note o = qbuf_offset_out_head_inv [OF q this]
  have "drop (unat k) (contents q) = drop n (contents q)" by (simp add: k min_def)
  with o show "\<exists>q'. take_block n q = Inr (take n (contents q), q') \<and> qbuf_inv q' \<and>
    contents q' = drop n (contents q)"
    using qbuf_peek_contents [OF q, of "of_nat n"] by (simp add: take_block_def k_def [symmetric] u)
qed

section \<open>Properties\<close>

definition sample_qbuf :: qbuf where
  "sample_qbuf = \<lparr>rawbuf = [1, 2, 3, 4, 5, 6, 7, 8], bsize = 8, offset_in = 4, offset_out = 1\<rparr>"

lemma sample_qbuf_inv [simp]: "qbuf_inv sample_qbuf" "contents sample_qbuf = [2, 3, 4]" "bsize sample_qbuf = 8"
  by (simp_all add: sample_qbuf_def qbuf_inv_def OBJECT_MAX_def contents_def qbuf_used_def)

lemma sample_qbuf_room [simp]: "qbuf_spare sample_qbuf = 4" "qbuf_used sample_qbuf = 3"
  by (simp_all add: sample_qbuf_def qbuf_spare_def qbuf_used_def)



text \<open>
  Where the allocator refuses to grow the buffer, \<open>qbuf_write\<close> still stores as many bytes of
  the block as the buffer has room for beside the queue, moved to the front if need be, returns
  that number, and keeps what was queued.
\<close>

theorem qbuf_write_refused:
  assumes "qbuf_inv q" and "unat len < 2 ^ 63" and "unat len \<le> length buf"
  shows "\<exists>n q'. qbuf_write None buf len q = Inr (n, q') \<and> qbuf_inv q' \<and> bsize q' = bsize q \<and>
    unat n = min (unat len) (unat (bsize q) - length (contents q)) \<and>
    contents q' = contents q @ take (unat n) buf"
proof -
  obtain n q' where q': "qbuf_write None buf len q = Inr (n, q')" "qbuf_inv q'" "n \<le> len"
    "contents q' = contents q @ take (unat n) buf" "bsize q' = bsize q"
    "n = len \<or> unat n = unat (bsize q) - length (contents q)"
    using qbuf_write_contents [OF assms, of None] by blast
  have "unat n \<le> unat len" using q'(3) by (simp add: word_le_nat_alt)
  moreover have "length (contents q') \<le> unat (bsize q)"
    using qbuf_nat [OF q'(2)] length_contents [OF q'(2)] q'(5) by simp
  then have "unat n \<le> unat (bsize q) - length (contents q)" using q'(4) assms(3) calculation by simp
  ultimately have "unat n = min (unat len) (unat (bsize q) - length (contents q))" using q'(6) by auto
  with q' show ?thesis by blast
qed

theorem qbuf_write_refused_witness:
  "\<exists>n q'. qbuf_write None [9, 8, 7, 6, 5, 4, 3] 7 sample_qbuf = Inr (n, q') \<and> qbuf_inv q' \<and> bsize q' = 8 \<and>
    unat n = 5 \<and> contents q' = [2, 3, 4, 9, 8, 7, 6, 5]"
  using qbuf_write_refused [of sample_qbuf 7 "[9, 8, 7, 6, 5, 4, 3]"] by auto

text \<open>
  What was written to an empty queue is read back as a whole: the write accepts the block,
  the read returns its bytes and its length, and the queue is empty again. The block is below
  \<open>2 ^ 31\<close> bytes, since \<open>qbuf_read\<close> keeps its length in an \<open>int\<close>.
\<close>

theorem qbuf_write_read:
  assumes "qbuf_inv q" and "contents q = []" and "length buf = unat len" and "unat len < 2 ^ 31"
    and "unat (bsize q) < 2 ^ 62" and "ra \<noteq> None"
  shows "\<exists>q1 q2. qbuf_write ra buf len q = Inr (len, q1) \<and> qbuf_read len q1 = Inr (len, buf, q2) \<and>
    qbuf_inv q2 \<and> contents q2 = []"
proof -
  have "\<not> OBJECT_MAX \<le> 2 * max (unat len) (unat (bsize q))" using assms by (simp add: OBJECT_MAX_def max_def)
  then obtain q1 where q1: "qbuf_write ra buf len q = Inr (len, q1)" "qbuf_inv q1" "contents q1 = buf"
    using qbuf_write_contents [OF assms(1), of len buf ra] assms by auto
  have "unat (qbuf_used q1) = unat len" using length_contents [OF q1(2)] q1(3) assms(3) by simp
  with qbuf_read_contents [OF q1(2), of len] q1(3) assms(3,4) obtain q2 where
    "qbuf_read len q1 = Inr (of_nat (unat len), buf, q2)" "qbuf_inv q2" "contents q2 = []" by auto
  with q1(1) show ?thesis by auto
qed

theorem qbuf_write_read_witness:
  "\<exists>q1 q2. qbuf_write (Some (\<lambda>_. 0)) [7, 7, 1, 2, 3, 4, 5, 6, 7, 8] 10 (snd (qbuf_offset_out_head 3 sample_qbuf)) =
      Inr (10, q1) \<and> qbuf_read 10 q1 = Inr (10, [7, 7, 1, 2, 3, 4, 5, 6, 7, 8], q2) \<and> qbuf_inv q2 \<and> contents q2 = []"
proof (rule qbuf_write_read)
  note h = qbuf_offset_out_head_inv [OF sample_qbuf_inv(1), of 3]
  have "unat (offset_out sample_qbuf) + unat (3 :: size_t) < 2 ^ 64" by (simp add: sample_qbuf_def)
  note h = h [OF this]
  show "qbuf_inv (snd (qbuf_offset_out_head 3 sample_qbuf))" by (rule h(1))
  show "contents (snd (qbuf_offset_out_head 3 sample_qbuf)) = []" using h(2) by simp
  show "unat (bsize (snd (qbuf_offset_out_head 3 sample_qbuf))) < 2 ^ 62" using h(4) by simp
qed simp_all

text \<open>
  \<open>qbuf_peek\<close> and \<open>qbuf_read\<close> return the same bytes and the same number of them; these and
  what the read leaves are the queue before. The queue is below \<open>2 ^ 31\<close> bytes.
\<close>

theorem qbuf_peek_read:
  assumes "qbuf_inv q" and "unat (qbuf_used q) < 2 ^ 31"
  shows "\<exists>n bs q'. qbuf_peek len q = Inr (n, bs) \<and> qbuf_read len q = Inr (n, bs, q') \<and> qbuf_inv q' \<and>
    length bs = unat n \<and> contents q = bs @ contents q'"
proof -
  define n where "n = (if len \<le> qbuf_used q then len else qbuf_used q)"
  have l: "length (contents q) = unat (qbuf_used q)" by (rule length_contents [OF assms(1)])
  then have u: "unat n = min (unat len) (length (contents q))" by (simp add: n_def word_le_nat_alt)
  have p: "qbuf_peek len q = Inr (n, take (unat len) (contents q))"
    using qbuf_peek_contents [OF assms(1), of len] by (simp add: n_def)
  have m: "of_nat (min (unat len) (length (contents q))) = n" by (simp flip: u)
  obtain q' where q': "qbuf_read len q = Inr (n, take (unat len) (contents q), q')"
    "qbuf_inv q'" "contents q' = drop (unat len) (contents q)"
    using qbuf_read_contents [OF assms, of len] unfolding m by blast
  with p q' u show ?thesis
    by (intro exI [of _ n] exI [of _ "take (unat len) (contents q)"] exI [of _ q']) (simp add: min.commute)
qed

theorem qbuf_peek_read_witness:
  "\<exists>n bs q'. qbuf_peek 2 sample_qbuf = Inr (n, bs) \<and> qbuf_read 2 sample_qbuf = Inr (n, bs, q') \<and> qbuf_inv q' \<and>
    length bs = unat n \<and> [2, 3, 4] = bs @ contents q'"
  using qbuf_peek_read [of sample_qbuf 2] by simp

text \<open>
  Compacting never faults, keeps the queue and never makes the spare room smaller. Without a
  policy, all room that the queue leaves of the buffer is spare afterwards.
\<close>

theorem qbuf_collect_room:
  assumes "qbuf_inv q"
  shows "\<exists>q'. qbuf_collect policy q = Inr (qbuf_spare q', q') \<and> qbuf_inv q' \<and> contents q' = contents q \<and>
    qbuf_spare q \<le> qbuf_spare q' \<and>
    (policy = QBUF_COLLECT_POLICY_NONE \<longrightarrow> unat (qbuf_spare q') = unat (bsize q) - length (contents q))"
proof -
  obtain q' where q': "qbuf_collect policy q = Inr (qbuf_spare q', q')" "qbuf_inv q'" "contents q' = contents q"
    "bsize q' = bsize q"
    "if contents q = [] \<or> policy_do policy q then offset_in q' = qbuf_used q \<and> offset_out q' = 0 else q' = q"
    using qbuf_collect_inv [OF assms, of policy] by blast
  note n = qbuf_nat [OF assms] qbuf_nat [OF q'(2)] length_contents [OF assms]
  have "unat (qbuf_spare q) \<le> unat (qbuf_spare q')" using n q'(4,5) by (auto split: if_splits)
  moreover have "unat (qbuf_spare q') = unat (bsize q) - length (contents q)" if "policy = QBUF_COLLECT_POLICY_NONE"
    using that n q'(4,5) by simp
  ultimately show ?thesis using q' by (auto simp: word_le_nat_alt)
qed

theorem qbuf_collect_room_witness:
  "\<exists>q'. qbuf_collect QBUF_COLLECT_POLICY_NONE sample_qbuf = Inr (qbuf_spare q', q') \<and> contents q' = [2, 3, 4] \<and>
    unat (qbuf_spare q') = 5"
  using qbuf_collect_room [of sample_qbuf QBUF_COLLECT_POLICY_NONE] by auto


definition BIG :: nat where "BIG = 2 ^ 31"

definition big_qbuf :: qbuf where
  "big_qbuf = \<lparr>rawbuf = replicate BIG 0, bsize = 2 ^ 31, offset_in = 2 ^ 31, offset_out = 0\<rparr>"

lemma big_qbuf_inv: "qbuf_inv big_qbuf"
proof -
  have "length (rawbuf big_qbuf) = BIG" by (simp add: big_qbuf_def)
  also have "\<dots> = unat (bsize big_qbuf)" by (simp add: big_qbuf_def BIG_def)
  finally show ?thesis by (simp only: qbuf_inv_def) (simp add: big_qbuf_def OBJECT_MAX_def BIG_def del: length_replicate)
qed


end
