(* ===== verification/Paired_Maps.thy ===== *)
theory Paired_Maps
  imports Prelude
begin

text \<open>
  Two maps of allocated blocks where each block of the first points to a block of the second, its
  own: a byte queue and its buffer, a client and its data. \<open>paired ptr A B\<close> says that the pointers
  \<open>ptr\<close> match the blocks of \<open>A\<close> with those of \<open>B\<close>, that no address is used twice and none is NULL.
\<close>

definition paired :: "('a \<Rightarrow> addr) \<Rightarrow> (addr \<rightharpoonup> 'a) \<Rightarrow> (addr \<rightharpoonup> 'b) \<Rightarrow> bool" where
  "paired ptr A B \<longleftrightarrow>
     0 \<notin> dom A \<union> dom B \<and> dom A \<inter> dom B = {} \<and>
     (\<forall>q a. A q = Some a \<longrightarrow> ptr a \<in> dom B) \<and>
     (\<forall>q a q' a'. A q = Some a \<longrightarrow> A q' = Some a' \<longrightarrow> ptr a = ptr a' \<longrightarrow> q = q') \<and>
     (\<forall>p. p \<in> dom B \<longrightarrow> (\<exists>q a. A q = Some a \<and> ptr a = p))"

lemma pairedD:
  assumes "paired ptr A B"
  shows "0 \<notin> dom A \<union> dom B" "dom A \<inter> dom B = {}"
    "\<And>q a. A q = Some a \<Longrightarrow> ptr a \<in> dom B"
    "\<And>q a q' a'. A q = Some a \<Longrightarrow> A q' = Some a' \<Longrightarrow> ptr a = ptr a' \<longleftrightarrow> q = q'"
    "\<And>p. p \<in> dom B \<Longrightarrow> \<exists>q a. A q = Some a \<and> ptr a = p"
proof -
  show "ptr a = ptr a' \<longleftrightarrow> q = q'" if "A q = Some a" "A q' = Some a'" for q a q' a'
    using assms that unfolding paired_def by (metis option.inject)
qed (use assms in \<open>unfold paired_def, blast+\<close>)

lemma paired_empty: "paired ptr Map.empty Map.empty"
  by (simp add: paired_def)

lemma paired_part:
  assumes "paired ptr A B" and "A q = Some a"
  obtains b where "B (ptr a) = Some b"
  using pairedD(3) [OF assms] by blast

lemma paired_leak: "paired ptr A B \<Longrightarrow> A = Map.empty \<Longrightarrow> B = Map.empty"
  using pairedD(5) [of ptr A B] by fastforce

lemma paired_store:
  assumes "paired ptr A B" and "A q = Some a" and "ptr a' = ptr a"
  shows "paired ptr (A(q \<mapsto> a')) (B(ptr a \<mapsto> b))"
proof -
  note P = pairedD [OF assms(1)]
  have dom: "dom (A(q \<mapsto> a')) = dom A" "dom (B(ptr a \<mapsto> b)) = dom B" using assms(2) P(3) [OF assms(2)] by auto
  have at: "\<exists>x'. A e = Some x' \<and> ptr x' = ptr x" if "(A(q \<mapsto> a')) e = Some x" for e x
    using that assms(2,3) by (auto split: if_splits)
  show ?thesis
    unfolding paired_def dom
  proof (intro conjI allI impI)
    fix e x e' x' assume "(A(q \<mapsto> a')) e = Some x" "(A(q \<mapsto> a')) e' = Some x'" "ptr x = ptr x'"
    then show "e = e'" using at P(4) by metis
  next
    fix p assume "p \<in> dom B"
    then obtain e x where e: "A e = Some x" "ptr x = p" using P(5) by blast
    then have "(A(q \<mapsto> a')) e = Some (if e = q then a' else x)" "ptr (if e = q then a' else x) = p"
      using assms(2,3) by auto
    then show "\<exists>e x. (A(q \<mapsto> a')) e = Some x \<and> ptr x = p" by blast
  qed (use P(1-3) at in \<open>blast | metis\<close>)+
qed

lemma paired_remove:
  assumes "paired ptr A B" and "A q = Some a"
  shows "paired ptr (A(q := None)) (B(ptr a := None))"
proof -
  note P = pairedD [OF assms(1)]
  show ?thesis
    unfolding paired_def
  proof (intro conjI allI impI)
    fix e x assume "(A(q := None)) e = Some x"
    then have "A e = Some x" "e \<noteq> q" by (auto split: if_splits)
    then show "ptr x \<in> dom (B(ptr a := None))" using P(3,4) assms(2) by fastforce
  next
    fix e x e' x' assume "(A(q := None)) e = Some x" "(A(q := None)) e' = Some x'" "ptr x = ptr x'"
    then show "e = e'" using P(4) by (metis fun_upd_apply option.distinct(1))
  next
    fix p assume "p \<in> dom (B(ptr a := None))"
    then have p: "p \<in> dom B" "p \<noteq> ptr a" by (auto split: if_splits)
    then obtain e x where "A e = Some x" "ptr x = p" using P(5) by blast
    then have "(A(q := None)) e = Some x \<and> ptr x = p" using p(2) assms(2) by auto
    then show "\<exists>e x. (A(q := None)) e = Some x \<and> ptr x = p" by blast
  qed (use P(1,2) in auto)
qed

lemma paired_add:
  assumes "paired ptr A B" and "q \<notin> dom A \<union> dom B" and "q \<noteq> 0" and "ptr a \<notin> dom A \<union> dom B" and "ptr a \<noteq> q" and "ptr a \<noteq> 0"
  shows "paired ptr (A(q \<mapsto> a)) (B(ptr a \<mapsto> b))"
proof -
  note P = pairedD [OF assms(1)]
  have ne: "ptr x \<noteq> ptr a" "e \<noteq> q" if "A e = Some x" for e x using P(3) [OF that] that assms(2,4) by auto
  show ?thesis
    unfolding paired_def
  proof (intro conjI allI impI)
    fix e x assume "(A(q \<mapsto> a)) e = Some x"
    then show "ptr x \<in> dom (B(ptr a \<mapsto> b))" using P(3) by (auto split: if_splits)
  next
    fix e x e' x' assume "(A(q \<mapsto> a)) e = Some x" "(A(q \<mapsto> a)) e' = Some x'" "ptr x = ptr x'"
    then show "e = e'" using ne(1) P(4) by (metis fun_upd_apply option.inject)
  next
    fix p assume p: "p \<in> dom (B(ptr a \<mapsto> b))"
    show "\<exists>e x. (A(q \<mapsto> a)) e = Some x \<and> ptr x = p"
    proof (cases "p = ptr a")
      case True
      then have "(A(q \<mapsto> a)) q = Some a \<and> ptr a = p" by simp
      then show ?thesis by blast
    next
      case False
      then have "p \<in> dom B" using p by auto
      then obtain e x where e: "A e = Some x" "ptr x = p" using P(5) by blast
      then have "(A(q \<mapsto> a)) e = Some x \<and> ptr x = p" using ne(2) [OF e(1)] by simp
      then show ?thesis by blast
    qed
  qed (use P(1,2) assms(2-6) in auto)
qed

end
