(* ===== verification/Qbuf_Heap.thy ===== *)
theory Qbuf_Heap
  imports Qbuf Paired_Maps
begin

text \<open>
  The memory behind a byte queue of \<open>src/qbuf.c\<close>. Elsewhere a queue is a value; here it is what it
  is in C, a structure with a pointer to its buffer, two allocated blocks: \<open>qbuf_new\<close> makes
  them, \<open>qbuf_realloc\<close> may move the buffer, \<open>qbuf_delete\<close> frees both. \<open>owns h0 q v h\<close> says that the
  heap \<open>h\<close> is \<open>h0\<close> with the blocks of the queue \<open>q\<close> added, whose value is \<open>v\<close>. Every operation keeps
  that, so it implements the operation on values, touches no other queue, and deleting gives
  \<open>h0\<close> back. The typing of a whole heap, \<open>heap_typed\<close>, also says that no block is lost.
\<close>

section \<open>State\<close>

record qcell =
  raw_at :: addr
  cell_size :: size_t
  cell_in :: size_t
  cell_out :: size_t

record qheap =
  cells :: "addr \<rightharpoonup> qcell"
  blocks :: "addr \<rightharpoonup> byte list"

definition NULL_q :: addr where "NULL_q = 0"

definition empty_heap :: qheap where
  "empty_heap = \<lparr>cells = Map.empty, blocks = Map.empty\<rparr>"

text \<open>The addresses in use, and an allocator: it gives an address outside these, or has none.\<close>

definition taken :: "qheap \<Rightarrow> addr set" where
  "taken h = dom (cells h) \<union> dom (blocks h)"

type_synonym allocator = "addr set \<Rightarrow> addr option"

definition alloc_ok :: "allocator \<Rightarrow> bool" where
  "alloc_ok al \<longleftrightarrow> (\<forall>A p. al A = Some p \<longrightarrow> p \<noteq> NULL_q \<and> p \<notin> A)"

definition put_cell :: "addr \<Rightarrow> qcell \<Rightarrow> qheap \<Rightarrow> qheap" where
  "put_cell q c h = h\<lparr>cells := (cells h)(q \<mapsto> c)\<rparr>"

definition put_buf :: "addr \<Rightarrow> byte list \<Rightarrow> qheap \<Rightarrow> qheap" where
  "put_buf p bs h = h\<lparr>blocks := (blocks h)(p \<mapsto> bs)\<rparr>"

text \<open>A structure and its buffer as a value, and back.\<close>

definition qbuf_of :: "qcell \<Rightarrow> byte list \<Rightarrow> qbuf" where
  "qbuf_of c raw = \<lparr>rawbuf = raw, bsize = cell_size c, offset_in = cell_in c, offset_out = cell_out c\<rparr>"

definition cell_of :: "addr \<Rightarrow> qbuf \<Rightarrow> qcell" where
  "cell_of p v = \<lparr>raw_at = p, cell_size = bsize v, cell_in = offset_in v, cell_out = offset_out v\<rparr>"

section \<open>Operations\<close>

text \<open>\<open>calloc\<close>, \<open>realloc\<close> and \<open>free\<close> of a buffer; freeing NULL does nothing.\<close>

definition heap_calloc :: "allocator \<Rightarrow> size_t \<Rightarrow> qheap \<Rightarrow> (addr \<times> qheap) option" where
  "heap_calloc al n h =
     (case al (taken h) of
        None \<Rightarrow> None
      | Some p \<Rightarrow> (case c_calloc True n of None \<Rightarrow> None | Some bs \<Rightarrow> Some (p, put_buf p bs h)))"

definition heap_realloc ::
  "allocator \<Rightarrow> (nat \<Rightarrow> byte) \<Rightarrow> addr \<Rightarrow> size_t \<Rightarrow> qheap \<Rightarrow> (addr option \<times> qheap) cres" where
  "heap_realloc al junk p n h =
     bnd (deref (blocks h) p) (\<lambda>old.
     let new = al (taken h - {p}) in
     bnd (c_realloc (if new = None then None else Some junk) old n) (\<lambda>r.
     case (new, r) of
       (Some p', Some bs) \<Rightarrow> Inr (Some p', h\<lparr>blocks := ((blocks h)(p := None))(p' \<mapsto> bs)\<rparr>)
     | _ \<Rightarrow> Inr (None, h)))"

definition free_block :: "addr \<Rightarrow> qheap \<Rightarrow> qheap cres" where
  "free_block p h =
     (if p = NULL_q then Inr h
      else bnd (deref (blocks h) p) (\<lambda>_. Inr (h\<lparr>blocks := (blocks h)(p := None)\<rparr>)))"

definition free_cell :: "addr \<Rightarrow> qheap \<Rightarrow> qheap cres" where
  "free_cell q h = bnd (deref (cells h) q) (\<lambda>_. Inr (h\<lparr>cells := (cells h)(q := None)\<rparr>))"

definition heap_new :: "allocator \<Rightarrow> allocator \<Rightarrow> size_t \<Rightarrow> qheap \<Rightarrow> (addr \<times> qheap) cres" where
  "heap_new a1 a2 sz h =
     (let sz = (if sz = 0 then RAW_SIZE else sz) in
      case a1 (taken h) of
        None \<Rightarrow> Inr (NULL_q, h)
      | Some q \<Rightarrow>
          let h = put_cell q \<lparr>raw_at = NULL_q, cell_size = 0, cell_in = 0, cell_out = 0\<rparr> h in
          (case heap_calloc a2 sz h of
             None \<Rightarrow> bnd (free_cell q h) (\<lambda>h. Inr (NULL_q, h))
           | Some (p, h) \<Rightarrow> Inr (q, put_cell q \<lparr>raw_at = p, cell_size = sz, cell_in = 0, cell_out = 0\<rparr> h)))"

definition qbuf_delete :: "addr \<Rightarrow> qheap \<Rightarrow> qheap cres" where
  "qbuf_delete q h =
     (if q \<noteq> NULL_q then
        bnd (deref (cells h) q) (\<lambda>c.
        bnd (free_block (raw_at c) h) (\<lambda>h.
        free_cell q h))
      else Inr h)"

definition heap_grow :: "allocator \<Rightarrow> (nat \<Rightarrow> byte) \<Rightarrow> size_t \<Rightarrow> addr \<Rightarrow> qheap \<Rightarrow> (int \<times> qheap) cres" where
  "heap_grow al junk len q h =
     bnd (deref (cells h) q) (\<lambda>c.
     bnd (heap_realloc al junk (raw_at c) len h) (\<lambda>(newbuf, h).
     case newbuf of
       Some p \<Rightarrow> Inr (0, put_cell q (c\<lparr>raw_at := p, cell_size := len\<rparr>) h)
     | None \<Rightarrow> Inr (-1, h)))"

text \<open>
  The other operations do not move the buffer: \<open>on_qbuf f\<close> runs the operation \<open>f\<close> on the structure
  at \<open>q\<close> and the buffer that it points to.
\<close>

definition load_qbuf :: "addr \<Rightarrow> qheap \<Rightarrow> qbuf cres" where
  "load_qbuf q h =
     bnd (deref (cells h) q) (\<lambda>c. bnd (deref (blocks h) (raw_at c)) (\<lambda>raw. Inr (qbuf_of c raw)))"

definition on_qbuf :: "(qbuf \<Rightarrow> ('r \<times> qbuf) cres) \<Rightarrow> addr \<Rightarrow> qheap \<Rightarrow> ('r \<times> qheap) cres" where
  "on_qbuf f q h =
     bnd (load_qbuf q h) (\<lambda>v.
     bnd (f v) (\<lambda>(r, v).
     bnd (deref (cells h) q) (\<lambda>c.
     Inr (r, put_cell q (cell_of (raw_at c) v) (put_buf (raw_at c) (rawbuf v) h)))))"

definition heap_collect :: "flags \<Rightarrow> addr \<Rightarrow> qheap \<Rightarrow> (size_t \<times> qheap) cres" where
  "heap_collect policy = on_qbuf (qbuf_collect policy)"

definition heap_offset_out :: "size_t \<Rightarrow> addr \<Rightarrow> qheap \<Rightarrow> (size_t \<times> qheap) cres" where
  "heap_offset_out len = on_qbuf (\<lambda>v. Inr (qbuf_offset_out_head len v))"

definition heap_read :: "size_t \<Rightarrow> addr \<Rightarrow> qheap \<Rightarrow> ((size_t \<times> byte list) \<times> qheap) cres" where
  "heap_read len = on_qbuf (\<lambda>v. bnd (qbuf_read len v) (\<lambda>(n, bs, v). Inr ((n, bs), v)))"

text \<open>The last statements of \<open>qbuf_write\<close>: filling the spare room.\<close>

definition fill_room :: "byte list \<Rightarrow> size_t \<Rightarrow> qbuf \<Rightarrow> (size_t \<times> qbuf) cres" where
  "fill_room buf len v =
     (let len_can_in = (if len \<le> qbuf_spare v then len else qbuf_spare v) in
      bnd (rd buf 0 (unat len_can_in)) (\<lambda>bs.
      bnd (wr (rawbuf v) (qbuf_rawbuf_in_pos v) bs) (\<lambda>raw.
      Inr (len_can_in, snd (qbuf_offset_in_head len_can_in (v\<lparr>rawbuf := raw\<rparr>))))))"

definition heap_write ::
  "allocator \<Rightarrow> (nat \<Rightarrow> byte) \<Rightarrow> byte list \<Rightarrow> size_t \<Rightarrow> addr \<Rightarrow> qheap \<Rightarrow> (size_t \<times> qheap) cres" where
  "heap_write al junk buf len q h =
     bnd (load_qbuf q h) (\<lambda>v.
     bnd (if len > qbuf_spare v then bnd (heap_collect QBUF_COLLECT_POLICY_NONE q h) (\<lambda>(_, h). Inr h) else Inr h) (\<lambda>h.
     bnd (load_qbuf q h) (\<lambda>v.
     bnd (if len > qbuf_spare v
          then bnd (heap_grow al junk (if bsize v > len then push_bit 1 (bsize v) else push_bit 1 len) q h) (\<lambda>(_, h). Inr h)
          else Inr h) (\<lambda>h.
     on_qbuf (fill_room buf len) q h))))"

section \<open>Ownership\<close>

definition owns_at :: "addr \<Rightarrow> qheap \<Rightarrow> addr \<Rightarrow> qbuf \<Rightarrow> qheap \<Rightarrow> bool" where
  "owns_at p h0 q v h \<longleftrightarrow>
     q \<noteq> NULL_q \<and> p \<noteq> NULL_q \<and> q \<noteq> p \<and> q \<notin> taken h0 \<and> p \<notin> taken h0 \<and>
     h = \<lparr>cells = (cells h0)(q \<mapsto> cell_of p v), blocks = (blocks h0)(p \<mapsto> rawbuf v)\<rparr>"

definition owns :: "qheap \<Rightarrow> addr \<Rightarrow> qbuf \<Rightarrow> qheap \<Rightarrow> bool" where
  "owns h0 q v h \<longleftrightarrow> (\<exists>p. owns_at p h0 q v h)"

named_theorems heap_simps \<open>reading the heap after a store\<close>

lemma heap_fields [heap_simps]:
  "cells (put_cell q c h) = (cells h)(q \<mapsto> c)" "blocks (put_cell q c h) = blocks h"
  "cells (put_buf p bs h) = cells h" "blocks (put_buf p bs h) = (blocks h)(p \<mapsto> bs)"
  by (simp_all add: put_cell_def put_buf_def)

lemma cell_fields [heap_simps]:
  "raw_at (cell_of p v) = p" "cell_size (cell_of p v) = bsize v" "cell_in (cell_of p v) = offset_in v"
  "cell_out (cell_of p v) = offset_out v" "qbuf_of (cell_of p v) (rawbuf v) = v"
  by (simp_all add: cell_of_def qbuf_of_def)

lemma owns_atD:
  assumes "owns_at p h0 q v h"
  shows "cells h q = Some (cell_of p v)" "blocks h p = Some (rawbuf v)" "load_qbuf q h = Inr v"
    "taken h = insert q (insert p (taken h0))" "q \<noteq> p" "q \<notin> taken h0" "p \<notin> taken h0" "q \<noteq> NULL_q" "p \<noteq> NULL_q"
  using assms by (auto simp: owns_at_def load_qbuf_def heap_simps taken_def)

text \<open>Storing a new value in the same blocks, and in a buffer that has moved.\<close>

lemma owns_store:
  assumes "owns_at p h0 q v h"
  shows "owns_at p h0 q v' (put_cell q (cell_of p v') (put_buf p (rawbuf v') h))"
  using assms by (auto simp: owns_at_def put_cell_def put_buf_def)

lemma owns_move:
  assumes "owns_at p h0 q v h" and "p' \<noteq> NULL_q" and "p' \<notin> taken h - {p}"
  shows "owns_at p' h0 q v' (put_cell q (cell_of p' v') (h\<lparr>blocks := ((blocks h)(p := None))(p' \<mapsto> rawbuf v')\<rparr>))"
proof -
  have "p' \<noteq> q" "p' \<notin> taken h0" using assms owns_atD [OF assms(1)] by auto
  moreover have "(blocks h)(p := None) = blocks h0" using assms(1) by (auto simp: owns_at_def taken_def fun_upd_idem)
  ultimately show ?thesis using assms(1,2) by (auto simp: owns_at_def put_cell_def)
qed

lemma on_qbuf_owns:
  assumes "owns_at p h0 q v h" and "f v = Inr (r, v')"
  shows "\<exists>h'. on_qbuf f q h = Inr (r, h') \<and> owns_at p h0 q v' h'"
  using owns_atD [OF assms(1)] assms(2) owns_store [OF assms(1)]
  by (simp add: on_qbuf_def heap_simps)

text \<open>The answer of the allocator to the request to grow the buffer, as \<open>qbuf_realloc\<close> takes it.\<close>

definition grant :: "allocator \<Rightarrow> (nat \<Rightarrow> byte) \<Rightarrow> addr \<Rightarrow> qheap \<Rightarrow> (nat \<Rightarrow> byte) option" where
  "grant al junk q h0 = (if al (insert q (taken h0)) = None then None else Some junk)"

lemma heap_grow_owns:
  assumes "owns_at p h0 q v h" and "alloc_ok al" and "qbuf_realloc (grant al junk q h0) len v = Inr (r, v')"
  shows "\<exists>h'. heap_grow al junk len q h = Inr (r, h') \<and> owns h0 q v' h'"
proof -
  note o = owns_atD [OF assms(1)]
  have t: "taken h - {p} = insert q (taken h0)" using o(4,5,7) by auto
  define new where "new = al (insert q (taken h0))"
  obtain nb where nb: "c_realloc (grant al junk q h0) (rawbuf v) len = Inr nb"
    using assms(3) by (auto simp: qbuf_realloc_def)
  have g: "heap_grow al junk len q h =
      (case (new, nb) of
         (Some p', Some bs) \<Rightarrow> Inr (0, put_cell q ((cell_of p v)\<lparr>raw_at := p', cell_size := len\<rparr>)
            (h\<lparr>blocks := ((blocks h)(p := None))(p' \<mapsto> bs)\<rparr>))
       | _ \<Rightarrow> Inr (-1, h))"
    using o(1,2) nb unfolding grant_def new_def [symmetric]
    by (simp add: heap_grow_def heap_realloc_def heap_simps t new_def [symmetric] split: option.splits)
  show ?thesis
  proof (cases nb)
    case None
    then have "r = -1" "v' = v" using assms(3) nb by (simp_all add: qbuf_realloc_def)
    with None g assms(1) show ?thesis by (auto simp: owns_def split: option.splits)
  next
    case (Some bs)
    then have v': "r = 0" "v' = v\<lparr>rawbuf := bs, bsize := len\<rparr>" using assms(3) nb by (simp_all add: qbuf_realloc_def)
    obtain p' where p': "new = Some p'"
      using nb Some unfolding grant_def new_def [symmetric] by (cases new) (simp_all add: c_realloc_def split: if_splits)
    then have "p' \<noteq> NULL_q" "p' \<notin> taken h - {p}" using assms(2) unfolding alloc_ok_def new_def t by blast+
    from owns_move [OF assms(1) this, of v'] show ?thesis
      using g Some p' v' by (auto simp: owns_def cell_of_def)
  qed
qed

text \<open>\<open>qbuf_write\<close> in the heap is \<open>qbuf_write\<close> on the value, with what the allocator answers.\<close>

lemma qbuf_write_parts:
  "qbuf_write ra buf len v =
     bnd (if len > qbuf_spare v then bnd (qbuf_collect QBUF_COLLECT_POLICY_NONE v) (\<lambda>(_, v). Inr v) else Inr v) (\<lambda>v.
     bnd (if len > qbuf_spare v
          then bnd (qbuf_realloc ra (if bsize v > len then push_bit 1 (bsize v) else push_bit 1 len) v) (\<lambda>(_, v). Inr v)
          else Inr v) (fill_room buf len))"
  by (simp add: qbuf_write_def fill_room_def [abs_def])

lemma heap_write_owns:
  assumes "owns h0 q v h" and "alloc_ok al" and "qbuf_write (grant al junk q h0) buf len v = Inr (n, v')"
  shows "\<exists>h'. heap_write al junk buf len q h = Inr (n, h') \<and> owns h0 q v' h'"
proof -
  obtain p where o: "owns_at p h0 q v h" using assms(1) by (auto simp: owns_def)
  obtain v1 v2 where v1: "(if len > qbuf_spare v then bnd (qbuf_collect QBUF_COLLECT_POLICY_NONE v) (\<lambda>(_, v). Inr v) else Inr v) = Inr v1"
    and v2: "(if len > qbuf_spare v1
      then bnd (qbuf_realloc (grant al junk q h0) (if bsize v1 > len then push_bit 1 (bsize v1) else push_bit 1 len) v1) (\<lambda>(_, v). Inr v)
      else Inr v1) = Inr v2"
    and v': "fill_room buf len v2 = Inr (n, v')" using assms(3) unfolding qbuf_write_parts by (elim bnd_InrE) blast
  obtain h1 where h1: "(if len > qbuf_spare v then bnd (heap_collect QBUF_COLLECT_POLICY_NONE q h) (\<lambda>(_, h). Inr h) else Inr h) = Inr h1"
    "owns_at p h0 q v1 h1"
    using v1 o on_qbuf_owns [OF o, of "qbuf_collect QBUF_COLLECT_POLICY_NONE"]
    by (fastforce simp: heap_collect_def split: if_splits)
  obtain h2 where h2: "(if len > qbuf_spare v1
      then bnd (heap_grow al junk (if bsize v1 > len then push_bit 1 (bsize v1) else push_bit 1 len) q h1) (\<lambda>(_, h). Inr h)
      else Inr h1) = Inr h2" "owns h0 q v2 h2"
  proof (cases "len > qbuf_spare v1")
    case True
    then obtain r where "qbuf_realloc (grant al junk q h0) (if bsize v1 > len then push_bit 1 (bsize v1) else push_bit 1 len) v1 = Inr (r, v2)"
      using v2 by auto
    then show thesis using True heap_grow_owns [OF h1(2) assms(2)] that by fastforce
  next
    case False
    then show thesis using v2 h1(2) that by (auto simp: owns_def)
  qed
  then obtain p2 where o2: "owns_at p2 h0 q v2 h2" by (auto simp: owns_def)
  obtain h' where h': "on_qbuf (fill_room buf len) q h2 = Inr (n, h')" "owns h0 q v' h'"
    using on_qbuf_owns [where f = "fill_room buf len", OF o2 v'] by (auto simp: owns_def)
  have "heap_write al junk buf len q h = Inr (n, h')"
    unfolding heap_write_def owns_atD(3) [OF o] bnd_Inr h1(1) owns_atD(3) [OF h1(2)] h2(1) h'(1) ..
  with h'(2) show ?thesis by blast
qed

lemma on_qbuf_inplace:
  assumes "owns h0 q v h" and "f v = Inr (r, v')"
  shows "\<exists>h'. on_qbuf f q h = Inr (r, h') \<and> owns h0 q v' h'"
  using assms on_qbuf_owns [of _ h0 q v h f] by (fastforce simp: owns_def)

text \<open>Making a queue adds its blocks; where either request is refused, the heap is as it was.\<close>

lemma heap_new_owns:
  assumes "alloc_ok a1" and "alloc_ok a2"
  shows "\<exists>q h'. heap_new a1 a2 sz h = Inr (q, h') \<and>
    (q = NULL_q \<and> h' = h \<or> (\<exists>v. qbuf_new True True sz = Some v \<and> owns h q v h'))"
proof (cases "a1 (taken h)")
  case None
  then show ?thesis by (simp add: heap_new_def)
next
  case (Some q)
  then have q: "q \<noteq> NULL_q" "q \<notin> taken h" using assms(1) by (auto simp: alloc_ok_def)
  define size where "size = (if sz = 0 then RAW_SIZE else sz)"
  define h1 where "h1 = put_cell q \<lparr>raw_at = NULL_q, cell_size = 0, cell_in = 0, cell_out = 0\<rparr> h"
  have t: "taken h1 = insert q (taken h)" by (auto simp: h1_def taken_def heap_simps)
  have freed: "free_cell q h1 = Inr h" using q by (auto simp: free_cell_def h1_def put_cell_def taken_def fun_upd_idem)
  have new: "heap_new a1 a2 sz h = (case heap_calloc a2 size h1 of
      None \<Rightarrow> bnd (free_cell q h1) (\<lambda>h. Inr (NULL_q, h))
    | Some (p, h) \<Rightarrow> Inr (q, put_cell q \<lparr>raw_at = p, cell_size = size, cell_in = 0, cell_out = 0\<rparr> h))"
    by (simp add: heap_new_def Some size_def [symmetric] h1_def [symmetric] Let_def)
  show ?thesis
  proof (cases "heap_calloc a2 size h1")
    case None
    then show ?thesis using new freed by simp
  next
    case (Some ph)
    then obtain p bs where p: "a2 (taken h1) = Some p" "c_calloc True size = Some bs" "ph = (p, put_buf p bs h1)"
      by (auto simp: heap_calloc_def split: option.splits)
    then have p0: "p \<noteq> NULL_q" "p \<noteq> q" "p \<notin> taken h" using assms(2) unfolding alloc_ok_def t by blast+
    define v where "v = \<lparr>rawbuf = bs, bsize = size, offset_in = 0, offset_out = 0\<rparr>"
    have "qbuf_new True True sz = Some v" using p(2) by (simp add: qbuf_new_def size_def [symmetric] v_def Let_def)
    moreover have "owns_at p h q v (put_cell q (cell_of p v) (put_buf p bs h1))"
      using q p0 by (auto simp: owns_at_def put_cell_def put_buf_def h1_def v_def)
    ultimately show ?thesis using new Some p(3) by (auto simp: owns_def cell_of_def v_def)
  qed
qed

text \<open>Deleting takes away just these blocks.\<close>

lemma qbuf_delete_owns: "owns h0 q v h \<Longrightarrow> qbuf_delete q h = Inr h0"
  by (auto simp: owns_def owns_at_def qbuf_delete_def free_block_def free_cell_def heap_simps taken_def fun_upd_idem)

lemma qbuf_delete_NULL [simp]: "qbuf_delete NULL_q h = Inr h"
  by (simp add: qbuf_delete_def)

section \<open>The typing of the heap\<close>

text \<open>
  Each structure points to an allocated buffer of its own that is as long as it says, with the
  offsets in order; each buffer belongs to a structure, and nothing is at NULL.
\<close>

definition heap_typed :: "qheap \<Rightarrow> bool" where
  "heap_typed h \<longleftrightarrow>
     paired raw_at (cells h) (blocks h) \<and>
     (\<forall>q c raw. cells h q = Some c \<longrightarrow> blocks h (raw_at c) = Some raw \<longrightarrow> qbuf_inv (qbuf_of c raw))"

lemma heap_typed_empty: "heap_typed empty_heap"
  by (simp add: heap_typed_def empty_heap_def paired_empty)

lemma heap_typed_cell:
  assumes "heap_typed h" and "cells h q = Some c"
  obtains raw where "blocks h (raw_at c) = Some raw" "qbuf_inv (qbuf_of c raw)" "load_qbuf q h = Inr (qbuf_of c raw)"
  using assms paired_part [of raw_at "cells h" "blocks h" q c] by (auto simp: heap_typed_def load_qbuf_def)

text \<open>A typed heap is a smaller one and the blocks of any of its queues, and the other way round.\<close>

definition without :: "addr \<Rightarrow> qcell \<Rightarrow> qheap \<Rightarrow> qheap" where
  "without q c h = \<lparr>cells = (cells h)(q := None), blocks = (blocks h)(raw_at c := None)\<rparr>"

lemma typed_split:
  assumes "heap_typed h" and "cells h q = Some c"
  shows "heap_typed (without q c h)" and "\<exists>v. owns (without q c h) q v h \<and> qbuf_inv v \<and> load_qbuf q h = Inr v"
proof -
  obtain raw where raw: "blocks h (raw_at c) = Some raw" "qbuf_inv (qbuf_of c raw)" "load_qbuf q h = Inr (qbuf_of c raw)"
    by (rule heap_typed_cell [OF assms])
  have P: "paired raw_at (cells h) (blocks h)" using assms(1) by (simp add: heap_typed_def)
  show "heap_typed (without q c h)"
    using assms(1) paired_remove [OF P assms(2)] by (auto simp: heap_typed_def without_def split: if_splits)
  have "q \<noteq> 0" "raw_at c \<noteq> 0" "q \<noteq> raw_at c" "blocks h q = None" "cells h (raw_at c) = None"
    using pairedD(1,2) [OF P] assms(2) raw(1) by (auto simp: domIff)
  then have "owns_at (raw_at c) (without q c h) q (qbuf_of c raw) h"
    using assms(2) raw(1) by (auto simp: owns_at_def without_def taken_def qbuf_of_def cell_of_def fun_upd_idem NULL_q_def)
  with raw(2,3) show "\<exists>v. owns (without q c h) q v h \<and> qbuf_inv v \<and> load_qbuf q h = Inr v" by (auto simp: owns_def)
qed

lemma typed_join:
  assumes "heap_typed h0" and "owns h0 q v h" and "qbuf_inv v"
  shows "heap_typed h"
proof -
  obtain p where o: "owns_at p h0 q v h" using assms(2) by (auto simp: owns_def)
  note p = owns_atD [OF o]
  have h: "cells h = (cells h0)(q \<mapsto> cell_of p v)" "blocks h = (blocks h0)(raw_at (cell_of p v) \<mapsto> rawbuf v)"
    using o by (simp_all add: owns_at_def heap_simps)
  have "paired raw_at (cells h) (blocks h)"
    unfolding h by (rule paired_add) (use assms(1) p in \<open>auto simp: heap_typed_def taken_def heap_simps NULL_q_def\<close>)
  moreover have "qbuf_inv (qbuf_of c raw)" if "cells h q' = Some c" "blocks h (raw_at c) = Some raw" for q' c raw
  proof (cases "q' = q")
    case True
    then show ?thesis using that assms(3) by (auto simp: h heap_simps)
  next
    case False
    then have "cells h0 q' = Some c" using that(1) by (simp add: h)
    moreover from this have "raw_at c \<noteq> p" using heap_typed_cell [OF assms(1)] p(7) by (fastforce simp: taken_def)
    ultimately show ?thesis using that(2) assms(1) by (simp add: h heap_simps heap_typed_def)
  qed
  ultimately show ?thesis by (simp add: heap_typed_def)
qed

section \<open>Operations on a typed heap\<close>

text \<open>The queues of a heap, as values and as lists of bytes.\<close>

definition queues :: "qheap \<Rightarrow> addr \<rightharpoonup> qbuf" where
  "queues h q = (case load_qbuf q h of Inl _ \<Rightarrow> None | Inr v \<Rightarrow> Some v)"

definition held :: "qheap \<Rightarrow> addr \<rightharpoonup> byte list" where
  "held h = map_option contents \<circ> queues h"

lemma queues_owns:
  assumes "heap_typed h0" and "owns h0 q v h"
  shows "queues h = (queues h0)(q \<mapsto> v)" and "queues h0 q = None"
proof -
  obtain p where o: "owns_at p h0 q v h" using assms(2) by (auto simp: owns_def)
  have "load_qbuf q' h = load_qbuf q' h0" if "q' \<noteq> q" for q'
  proof (cases "cells h0 q'")
    case (Some c)
    then have "raw_at c \<noteq> p"
      using heap_typed_cell [OF assms(1) Some] owns_atD(7) [OF o] by (auto simp: taken_def)
    then show ?thesis using o that Some by (auto simp: owns_at_def load_qbuf_def deref_def)
  qed (use o that in \<open>auto simp: owns_at_def load_qbuf_def\<close>)
  then show "queues h = (queues h0)(q \<mapsto> v)"
    using owns_atD(3) [OF o] by (auto simp: queues_def)
  show "queues h0 q = None" using owns_atD(6) [OF o] by (auto simp: queues_def load_qbuf_def taken_def deref_def split: option.splits)
qed

lemma dom_queues: "heap_typed h \<Longrightarrow> dom (queues h) = dom (cells h)"
  using heap_typed_cell [of h] by (fastforce simp: queues_def load_qbuf_def deref_def dom_def split: sum.splits option.splits)

lemma queuesE:
  assumes "heap_typed h" and "queues h q = Some v"
  obtains h0 where "heap_typed h0" "owns h0 q v h" "qbuf_inv v" "queues h0 = (queues h)(q := None)"
proof -
  obtain c where c: "cells h q = Some c" using assms dom_queues by blast
  have "load_qbuf q h = Inr v" using assms(2) by (simp add: queues_def split: sum.splits)
  then have o: "heap_typed (without q c h)" "owns (without q c h) q v h" "qbuf_inv v" using typed_split [OF assms(1) c] by auto
  then show thesis using queues_owns [OF o(1,2)] that by (simp add: fun_upd_idem)
qed

text \<open>An operation that keeps the ownership puts the new value in the place of the old.\<close>

lemma typed_op:
  assumes "heap_typed h0" and "owns h0 q v' h'" and "qbuf_inv v'" and "queues h0 = (queues h)(q := None)"
  shows "heap_typed h'" and "queues h' = (queues h)(q \<mapsto> v')"
  using typed_join [OF assms(1-3)] queues_owns [OF assms(1,2)] assms(4) by simp_all

lemma heap_new_typed:
  assumes "heap_typed h" and "alloc_ok a1" and "alloc_ok a2"
  shows "\<exists>q h'. heap_new a1 a2 sz h = Inr (q, h') \<and> heap_typed h' \<and>
    (q = NULL_q \<and> h' = h \<or> q \<noteq> NULL_q \<and> q \<notin> dom (cells h) \<and> held h' = (held h)(q \<mapsto> []))"
proof -
  obtain q h' where n: "heap_new a1 a2 sz h = Inr (q, h')"
    "q = NULL_q \<and> h' = h \<or> (\<exists>v. qbuf_new True True sz = Some v \<and> owns h q v h')" using heap_new_owns [OF assms(2,3)] by blast
  from n(2) show ?thesis
  proof
    assume "\<exists>v. qbuf_new True True sz = Some v \<and> owns h q v h'"
    then obtain v where v: "qbuf_new True True sz = Some v" "owns h q v h'" by blast
    have "q \<noteq> NULL_q" "q \<notin> dom (cells h)" using v(2) by (auto simp: owns_def owns_at_def taken_def)
    then show ?thesis using n(1) typed_join [OF assms(1) v(2) qbuf_new_inv(1) [OF v(1)]] queues_owns [OF assms(1) v(2)] qbuf_new_inv(2) [OF v(1)]
      by (auto simp: held_def fun_eq_iff)
  qed (use n(1) assms(1) in blast)
qed

lemma qbuf_delete_typed:
  assumes "heap_typed h" and "queues h q = Some v"
  shows "\<exists>h'. qbuf_delete q h = Inr h' \<and> heap_typed h' \<and> queues h' = (queues h)(q := None)"
  by (rule queuesE [OF assms]) (use qbuf_delete_owns in blast)

lemma on_qbuf_typed:
  assumes "heap_typed h" and "queues h q = Some v" and "f v = Inr (r, v')" and "qbuf_inv v'"
  shows "\<exists>h'. on_qbuf f q h = Inr (r, h') \<and> heap_typed h' \<and> queues h' = (queues h)(q \<mapsto> v')"
proof -
  obtain h0 where h0: "heap_typed h0" "owns h0 q v h" "queues h0 = (queues h)(q := None)" by (rule queuesE [OF assms(1,2)])
  with on_qbuf_inplace [where f = f, OF h0(2) assms(3)] typed_op [OF h0(1) _ assms(4) h0(3)] show ?thesis by blast
qed

lemma heap_collect_typed:
  assumes "heap_typed h" and "queues h q = Some v"
  shows "\<exists>n h' v'. heap_collect policy q h = Inr (n, h') \<and> heap_typed h' \<and> queues h' = (queues h)(q \<mapsto> v') \<and>
    contents v' = contents v"
proof -
  have "qbuf_inv v" by (rule queuesE [OF assms])
  then obtain v' where "qbuf_collect policy v = Inr (qbuf_spare v', v')" "qbuf_inv v'" "contents v' = contents v"
    using qbuf_collect_inv by blast
  then show ?thesis using on_qbuf_typed [where f = "qbuf_collect policy", OF assms] unfolding heap_collect_def by blast
qed

lemma qbuf_offset_out_head_keeps: "qbuf_inv v \<Longrightarrow> qbuf_inv (snd (qbuf_offset_out_head len v))"
  by (auto simp: qbuf_offset_out_head_def qbuf_inv_def Let_def)

lemma heap_offset_out_typed:
  assumes "heap_typed h" and "queues h q = Some v"
  shows "\<exists>n h'. heap_offset_out len q h = Inr (n, h') \<and> heap_typed h' \<and>
    queues h' = (queues h)(q \<mapsto> snd (qbuf_offset_out_head len v))"
proof -
  have inv: "qbuf_inv v" by (rule queuesE [OF assms])
  obtain n v' where o: "qbuf_offset_out_head len v = (n, v')" by fastforce
  then have "Inr (qbuf_offset_out_head len v) = Inr (n, v')" "qbuf_inv v'" using qbuf_offset_out_head_keeps [OF inv, of len] by simp_all
  from on_qbuf_typed [where f = "\<lambda>v. Inr (qbuf_offset_out_head len v)", OF assms this] o show ?thesis
    unfolding heap_offset_out_def by auto
qed

lemma heap_read_typed:
  assumes "heap_typed h" and "queues h q = Some v"
  shows "\<exists>n bs h' v'. heap_read len q h = Inr ((n, bs), h') \<and> heap_typed h' \<and> queues h' = (queues h)(q \<mapsto> v') \<and>
    qbuf_read len v = Inr (n, bs, v')"
proof -
  have inv: "qbuf_inv v" by (rule queuesE [OF assms])
  obtain n bs v' where r: "qbuf_read len v = Inr (n, bs, v')" "qbuf_inv v'"
    using qbuf_peek_contents [OF inv, of len] qbuf_offset_out_head_keeps [OF inv] by (simp add: qbuf_read_def Let_def)
  then show ?thesis using on_qbuf_typed [where f = "\<lambda>v. bnd (qbuf_read len v) (\<lambda>(n, bs, v). Inr ((n, bs), v))", OF assms, of "(n, bs)" v']
    by (auto simp: heap_read_def)
qed

lemma heap_write_typed:
  assumes "heap_typed h" and "queues h q = Some v" and "alloc_ok al" and "unat len < 2 ^ 63" and "unat len \<le> length buf"
  shows "\<exists>n h' v'. heap_write al junk buf len q h = Inr (n, h') \<and> heap_typed h' \<and> queues h' = (queues h)(q \<mapsto> v') \<and>
    n \<le> len \<and> contents v' = contents v @ take (unat n) buf"
proof -
  obtain h0 where h0: "heap_typed h0" "owns h0 q v h" "qbuf_inv v" "queues h0 = (queues h)(q := None)" by (rule queuesE [OF assms(1,2)])
  obtain n v' where w: "qbuf_write (grant al junk q h0) buf len v = Inr (n, v')" "qbuf_inv v'" "n \<le> len"
    "contents v' = contents v @ take (unat n) buf"
    using qbuf_write_contents [OF h0(3) assms(4,5), of "grant al junk q h0"] by blast
  obtain h' where h': "heap_write al junk buf len q h = Inr (n, h')" "owns h0 q v' h'"
    using heap_write_owns [OF h0(2) assms(3) w(1)] by blast
  show ?thesis using h'(1) typed_op [OF h0(1) h'(2) w(2) h0(4)] w(3,4) by blast
qed

section \<open>A queue in the heap is a byte queue\<close>

text \<open>
  The contract \<open>byte_fifo\<close> once more, for the queue at \<open>q\<close> in a heap that is otherwise \<open>h0\<close>. Each
  write comes with an allocator; what it says counts where it is an address outside those in use.
\<close>

definition honest :: "allocator \<Rightarrow> allocator" where
  "honest al A = (case al A of None \<Rightarrow> None | Some p \<Rightarrow> if p = NULL_q \<or> p \<in> A then None else Some p)"

lemma honest_ok: "alloc_ok (honest al)"
  by (auto simp: alloc_ok_def honest_def split: option.splits if_splits)

definition heap_put :: "addr \<Rightarrow> allocator \<times> (nat \<Rightarrow> byte) \<Rightarrow> byte list \<Rightarrow> qheap \<Rightarrow> (nat \<times> qheap) cres" where
  "heap_put q a bs h =
     bnd (heap_write (honest (fst a)) (snd a) bs (of_nat (length bs)) q h) (\<lambda>(n, h). Inr (unat n, h))"

definition heap_take :: "addr \<Rightarrow> nat \<Rightarrow> qheap \<Rightarrow> (byte list \<times> qheap) cres" where
  "heap_take q n h = on_qbuf (take_block n) q h"

definition owned :: "qheap \<Rightarrow> addr \<Rightarrow> qheap \<Rightarrow> bool" where
  "owned h0 q h \<longleftrightarrow> (\<exists>v. owns h0 q v h \<and> qbuf_inv v)"

definition queued :: "addr \<Rightarrow> qheap \<Rightarrow> byte list" where
  "queued q h = (case load_qbuf q h of Inl _ \<Rightarrow> [] | Inr v \<Rightarrow> contents v)"

lemma queued_owns: "owns h0 q v h \<Longrightarrow> queued q h = contents v"
  by (auto simp: queued_def owns_def dest: owns_atD(3))

interpretation own: byte_fifo "owned h0 q" "queued q" "heap_put q" "heap_take q" "2 ^ 63" for h0 q
proof unfold_locales
  fix h and r :: "allocator \<times> (nat \<Rightarrow> byte)" and bs :: "byte list"
  assume h: "owned h0 q h" and bs: "length bs < 2 ^ 63"
  then obtain v where v: "owns h0 q v h" "qbuf_inv v" by (auto simp: owned_def)
  let ?g = "grant (honest (fst r)) (snd r) q h0"
  obtain n v' where p: "put_block ?g bs v = Inr (n, v')" "qbuf_inv v'" "n \<le> length bs" "contents v' = contents v @ take n bs"
    using fifo.put_law [OF v(2) bs, of ?g] by blast
  then obtain k where k: "qbuf_write ?g bs (of_nat (length bs)) v = Inr (k, v')" "n = unat k" by (auto simp: put_block_def)
  obtain h' where "heap_write (honest (fst r)) (snd r) bs (of_nat (length bs)) q h = Inr (k, h')" "owns h0 q v' h'"
    using heap_write_owns [OF v(1) honest_ok k(1)] by blast
  then show "\<exists>n h'. heap_put q r bs h = Inr (n, h') \<and> owned h0 q h' \<and> n \<le> length bs \<and> queued q h' = queued q h @ take n bs"
    using p k(2) queued_owns [OF v(1)] by (auto simp: heap_put_def owned_def queued_owns)
next
  fix h and n :: nat
  assume h: "owned h0 q h" and n: "n < 2 ^ 63"
  then obtain v where v: "owns h0 q v h" "qbuf_inv v" by (auto simp: owned_def)
  then obtain v' where g: "take_block n v = Inr (take n (contents v), v')" "qbuf_inv v'" "contents v' = drop n (contents v)"
    using fifo.get_law [OF v(2) n] by blast
  from on_qbuf_inplace [where f = "take_block n", OF v(1) g(1)]
  show "\<exists>h'. heap_take q n h = Inr (take n (queued q h), h') \<and> owned h0 q h' \<and> queued q h' = drop n (queued q h)"
    using g queued_owns [OF v(1)] by (auto simp: heap_take_def owned_def queued_owns)
qed

section \<open>Properties\<close>

text \<open>
  What an application may do with queues: make them, and write, read, drop, collect and delete at
  a queue that is there (\<open>qbuf_delete\<close> also takes NULL).
\<close>

inductive heap_step :: "qheap \<Rightarrow> qheap \<Rightarrow> bool" where
  New: "alloc_ok a1 \<Longrightarrow> alloc_ok a2 \<Longrightarrow> heap_new a1 a2 sz h = Inr (q, h') \<Longrightarrow> heap_step h h'"
| Delete: "q = NULL_q \<or> q \<in> dom (cells h) \<Longrightarrow> qbuf_delete q h = Inr h' \<Longrightarrow> heap_step h h'"
| Write: "q \<in> dom (cells h) \<Longrightarrow> alloc_ok al \<Longrightarrow> unat len < 2 ^ 63 \<Longrightarrow> unat len \<le> length buf \<Longrightarrow>
    heap_write al junk buf len q h = Inr (n, h') \<Longrightarrow> heap_step h h'"
| Read: "q \<in> dom (cells h) \<Longrightarrow> heap_read len q h = Inr (r, h') \<Longrightarrow> heap_step h h'"
| Drop: "q \<in> dom (cells h) \<Longrightarrow> heap_offset_out len q h = Inr (r, h') \<Longrightarrow> heap_step h h'"
| Collect: "q \<in> dom (cells h) \<Longrightarrow> heap_collect policy q h = Inr (r, h') \<Longrightarrow> heap_step h h'"

lemma live_queue:
  assumes "heap_typed h" and "q \<in> dom (cells h)"
  obtains v where "queues h q = Some v"
  using dom_queues [OF assms(1)] assms(2) by blast

lemma heap_step_typed: "heap_step h h' \<Longrightarrow> heap_typed h \<Longrightarrow> heap_typed h'"
proof (induction rule: heap_step.induct)
  case (New a1 a2 sz h q h')
  then show ?case using heap_new_typed [of h a1 a2 sz] by fastforce
next
  case (Delete q h h')
  then show ?case using qbuf_delete_typed [of h q] live_queue [of h q] by fastforce
next
  case (Write q h al len buf junk n h')
  from Write.prems Write.hyps(1) obtain v where "queues h q = Some v" by (rule live_queue)
  with Write show ?case using heap_write_typed [of h q v al len buf junk] by fastforce
next
  case (Read q h len r h')
  from Read.prems Read.hyps(1) obtain v where "queues h q = Some v" by (rule live_queue)
  with Read show ?case using heap_read_typed [of h q v len] by fastforce
next
  case (Drop q h len r h')
  from Drop.prems Drop.hyps(1) obtain v where "queues h q = Some v" by (rule live_queue)
  with Drop show ?case using heap_offset_out_typed [of h q v len] by fastforce
next
  case (Collect q h policy r h')
  from Collect.prems Collect.hyps(1) obtain v where "queues h q = Some v" by (rule live_queue)
  with Collect show ?case using heap_collect_typed [of h q v policy] by fastforce
qed

lemma typed_no_leak: "heap_typed h \<Longrightarrow> cells h = Map.empty \<Longrightarrow> h = empty_heap"
  by (cases h) (simp add: heap_typed_def empty_heap_def paired_leak)


text \<open>
  C12: Making a queue, using it and deleting it: where there is no memory for either of the two
  blocks, the heap is as before. Otherwise, after any writes and reads, the bytes given out and
  those still queued are those taken in, \<open>qbuf_delete\<close> gives back the very heap from before
  \<open>qbuf_new\<close>, and deleting once more faults.
\<close>

theorem queue_life:
  assumes "alloc_ok a1" and "alloc_ok a2" and "heap_new a1 a2 sz h = Inr (q, h1)" and "list_all (put_ok (2 ^ 63)) ops"
  shows "if q = NULL_q then h1 = h
    else \<exists>ins outs h2. run_qops (heap_put q) (heap_take q) ops h1 = Inr (ins, outs, h2) \<and>
      ins = outs @ queued q h2 \<and> qbuf_delete q h2 = Inr h \<and> qbuf_delete q h = Inl Bad_Pointer"
proof (cases "q = NULL_q")
  case True
  then show ?thesis using heap_new_owns [OF assms(1,2), of sz h] assms(3) by (auto simp: owns_def owns_at_def)
next
  case False
  then obtain v where v: "qbuf_new True True sz = Some v" "owns h q v h1"
    using heap_new_owns [OF assms(1,2), of sz h] assms(3) by auto
  then have "owned h q h1" "queued q h1 = []" using qbuf_new_inv [OF v(1)] by (auto simp: owned_def queued_owns)
  with own.run_fifo [OF this(1) assms(4)] obtain ins outs h2 where
    r: "run_qops (heap_put q) (heap_take q) ops h1 = Inr (ins, outs, h2)" "owned h q h2" "ins = outs @ queued q h2" by auto
  then have "qbuf_delete q h2 = Inr h" using qbuf_delete_owns by (auto simp: owned_def)
  moreover have "qbuf_delete q h = Inl Bad_Pointer"
    using v(2) False by (auto simp: owns_def owns_at_def qbuf_delete_def deref_def taken_def split: option.splits)
  ultimately show ?thesis using r False by auto
qed

text \<open>
  Queues in one heap do not disturb each other: on the map from queues to the bytes they hold,
  a write is the update at the queue written to, whether or not its buffer moves.
\<close>

theorem queues_apart:
  assumes "heap_typed h" and "held h q = Some xs" and "alloc_ok al" and "unat len < 2 ^ 63" and "unat len \<le> length buf"
  shows "\<exists>n h'. heap_write al junk buf len q h = Inr (n, h') \<and> heap_typed h' \<and> n \<le> len \<and>
    held h' = (held h)(q \<mapsto> xs @ take (unat n) buf)"
proof -
  obtain v where v: "queues h q = Some v" "contents v = xs" using assms(2) by (auto simp: held_def)
  with heap_write_typed [OF assms(1) v(1) assms(3-5), of junk] show ?thesis by (auto simp: held_def fun_eq_iff)
qed

section \<open>The properties at concrete inputs\<close>

definition first_free :: "addr list \<Rightarrow> allocator" where
  "first_free ps A = find (\<lambda>p. p \<notin> A) ps"

lemma first_free_ok: "NULL_q \<notin> set ps \<Longrightarrow> alloc_ok (first_free ps)"
  by (auto simp: alloc_ok_def first_free_def find_Some_iff in_set_conv_nth)

definition two_queues :: qheap where
  "two_queues =
     \<lparr>cells = [1 \<mapsto> cell_of 2 sample_qbuf, 3 \<mapsto> cell_of 4 sample_qbuf],
      blocks = [2 \<mapsto> rawbuf sample_qbuf, 4 \<mapsto> rawbuf sample_qbuf]\<rparr>"

lemma two_queues_typed: "heap_typed two_queues" "held two_queues = [1 \<mapsto> [2, 3, 4], 3 \<mapsto> [2, 3, 4]]"
proof -
  define h1 where "h1 = \<lparr>cells = [1 \<mapsto> cell_of 2 sample_qbuf], blocks = [2 \<mapsto> rawbuf sample_qbuf]\<rparr>"
  have o1: "owns_at 2 empty_heap 1 sample_qbuf h1" by (simp add: owns_at_def empty_heap_def h1_def NULL_q_def taken_def)
  have o2: "owns_at 4 h1 3 sample_qbuf two_queues" by (simp add: owns_at_def h1_def two_queues_def NULL_q_def taken_def)
  have t1: "heap_typed h1" by (rule typed_join [OF heap_typed_empty]) (use o1 in \<open>auto simp: owns_def\<close>)
  then show "heap_typed two_queues" by (rule typed_join) (use o2 in \<open>auto simp: owns_def\<close>)
  have "queues two_queues = (queues h1)(3 \<mapsto> sample_qbuf)" by (rule queues_owns [OF t1]) (use o2 in \<open>auto simp: owns_def\<close>)
  moreover have "queues h1 = (queues empty_heap)(1 \<mapsto> sample_qbuf)" by (rule queues_owns [OF heap_typed_empty]) (use o1 in \<open>auto simp: owns_def\<close>)
  moreover have "queues empty_heap = Map.empty" by (auto simp: queues_def load_qbuf_def empty_heap_def)
  ultimately show "held two_queues = [1 \<mapsto> [2, 3, 4], 3 \<mapsto> [2, 3, 4]]" by (auto simp: held_def fun_eq_iff)
qed


theorem queue_life_witness:
  "\<exists>h1 ins outs h2. heap_new (first_free [5, 6, 7]) (first_free [5, 6, 7]) 2 two_queues = Inr (5, h1) \<and>
    run_qops (heap_put 5) (heap_take 5) [Put (first_free [7, 8], \<lambda>_. 0) [9, 8, 7], Get 2, Put (\<lambda>_. None, \<lambda>_. 0) [6]] h1 = Inr (ins, outs, h2) \<and>
    ins = outs @ queued 5 h2 \<and> qbuf_delete 5 h2 = Inr two_queues \<and> qbuf_delete 5 two_queues = Inl Bad_Pointer"
proof -
  have ok: "alloc_ok (first_free [5, 6, 7])" by (simp add: first_free_ok NULL_q_def)
  obtain h1 where h1: "heap_new (first_free [5, 6, 7]) (first_free [5, 6, 7]) 2 two_queues = Inr (5, h1)"
    by (simp add: heap_new_def heap_calloc_def first_free_def two_queues_def taken_def heap_simps c_calloc_def OBJECT_MAX_def)
  show ?thesis
    using queue_life [OF ok ok h1, of "[Put (first_free [7, 8], \<lambda>_. 0) [9, 8, 7], Get 2, Put (\<lambda>_. None, \<lambda>_. 0) [6]]"] h1
    by (simp add: put_ok_def NULL_q_def)
qed

theorem queues_apart_witness:
  "\<exists>n h'. heap_write (first_free [2, 5]) (\<lambda>_. 0) [1, 1, 1, 1, 1, 1, 1] 7 1 two_queues = Inr (n, h') \<and>
    held h' = [1 \<mapsto> [2, 3, 4] @ take (unat n) [1, 1, 1, 1, 1, 1, 1], 3 \<mapsto> [2, 3, 4]]"
  using queues_apart [OF two_queues_typed(1), of 1 "[2, 3, 4]" "first_free [2, 5]" 7 "[1, 1, 1, 1, 1, 1, 1]" "\<lambda>_. 0"]
  by (auto simp: two_queues_typed(2) first_free_ok NULL_q_def fun_upd_twist)

end
