(* ===== verification/Posix.thy ===== *)
theory Posix
  imports Prelude
begin

text \<open>
  What the components use of C and of POSIX alike: conversions to \<open>int\<close>, division, socket
  addresses, descriptor sets, the \<open>timeval\<close> of a timeout in milliseconds, values that may be
  uninitialised, and mutexes.
\<close>

section \<open>Integers\<close>

text \<open>A C \<open>int\<close> that receives a wider value keeps its low 32 bits.\<close>

definition to_int :: "int \<Rightarrow> int" where
  "to_int n = sint (word_of_int n :: 32 word)"

lemma to_int_id: "-(2 ^ 31) \<le> n \<Longrightarrow> n < 2 ^ 31 \<Longrightarrow> to_int n = n"
  by (simp add: to_int_def sint_sbintrunc' signed_take_bit_int_eq_self)

text \<open>A count that is passed as a \<open>size_t\<close>.\<close>

lemma to_size_t: "0 \<le> n \<Longrightarrow> n < 2 ^ 31 \<Longrightarrow> unat (word_of_int n :: size_t) = nat n"
  by (simp add: unsigned_of_int take_bit_int_eq_self)

text \<open>C's division and remainder round towards zero.\<close>

definition c_div :: "int \<Rightarrow> int \<Rightarrow> int" where
  "c_div a b = sgn a * sgn b * (\<bar>a\<bar> div \<bar>b\<bar>)"

definition c_mod :: "int \<Rightarrow> int \<Rightarrow> int" where
  "c_mod a b = a - b * c_div a b"

definition timeval_of :: "int \<Rightarrow> int \<times> int" where
  "timeval_of timeout = (c_div timeout 1000, c_mod timeout 1000 * 1000)"

section \<open>Addresses and descriptor sets\<close>

record sockaddr_in =
  sin_family :: "16 word"
  sin_port :: "16 word"
  sin_addr :: "32 word"

definition zero_addr :: sockaddr_in where
  "zero_addr = \<lparr>sin_family = 0, sin_port = 0, sin_addr = 0\<rparr>"

text \<open>A descriptor set has \<open>FD_SETSIZE\<close> bits; an operation on another descriptor is out of bounds.\<close>

definition FD_SETSIZE :: int where "FD_SETSIZE = 1024"

definition FD_SET :: "int \<Rightarrow> int set \<Rightarrow> int set cres" where
  "FD_SET f A = (if 0 \<le> f \<and> f < FD_SETSIZE then Inr (insert f A) else Inl Out_Of_Bounds)"

definition FD_CLR :: "int \<Rightarrow> int set \<Rightarrow> int set cres" where
  "FD_CLR f A = (if 0 \<le> f \<and> f < FD_SETSIZE then Inr (A - {f}) else Inl Out_Of_Bounds)"

definition FD_ISSET :: "int \<Rightarrow> int set \<Rightarrow> bool cres" where
  "FD_ISSET f A = (if 0 \<le> f \<and> f < FD_SETSIZE then Inr (f \<in> A) else Inl Out_Of_Bounds)"

section \<open>Uninitialised values and mutexes\<close>

text \<open>A field that \<open>malloc\<close> left as it was is \<open>None\<close>; reading it is a fault.\<close>

definition initialised :: "'a option \<Rightarrow> 'a cres" where
  "initialised x = (case x of None \<Rightarrow> Inl Uninitialised | Some v \<Rightarrow> Inr v)"

lemma initialised_Some [simp, cres_simps]: "initialised (Some v) = Inr v"
  by (simp add: initialised_def)

lemma initialised_None [simp, cres_simps]: "initialised None = Inl Uninitialised"
  by (simp add: initialised_def)

text \<open>
  A default mutex is held or free. One thread runs: a lock of a held mutex never returns, and an
  unlock of a free one is undefined.
\<close>

definition mutex_lock :: "bool \<Rightarrow> bool cres" where
  "mutex_lock held = (if held then Inl Deadlock else Inr True)"

definition mutex_unlock :: "bool \<Rightarrow> bool cres" where
  "mutex_unlock held = (if held then Inr False else Inl Not_Locked)"

lemma mutex_simps [simp, cres_simps]:
  "mutex_lock False = Inr True" "mutex_lock True = Inl Deadlock"
  "mutex_unlock True = Inr False" "mutex_unlock False = Inl Not_Locked"
  by (simp_all add: mutex_lock_def mutex_unlock_def)

end
