(* ===== verification/Serial_State.thy ===== *)
theory Serial_State
  imports List_Head Posix
begin

text \<open>
  The data of \<open>src/serial/serial_port.h\<close> and the static variables of
  \<open>src/serial/serial_port.c\<close>: the serial object a client holds, the parameters of its port, the
  manager that counts the users of a port, and the table of functions (\<open>serial_backend\<close>) that
  the platform provides. The two platforms extend \<open>serial_rtu\<close> with fields of their own.
\<close>

section \<open>Data\<close>

record serial_rtu =
  device :: string
  baud :: int
  data_bit :: "8 word"
  stop_bit :: "8 word"
  parity :: char

record serial =
  debug :: int
  is_open :: bool
  err_code :: int
  share_mode :: int
  backend_data :: addr

record serial_manger =
  sm_t :: addr
  refcount :: int
  opencount :: int
  mt :: bool

text \<open>\<open>device\<close> is an array of 16 characters; a string in it ends with a NUL.\<close>

definition DEVICE_SIZE :: nat where "DEVICE_SIZE = 16"

section \<open>The variables\<close>

text \<open>
  \<open>serial_mangers\<close> is the address of the static list head, \<open>g_mangers\<close> the global mutex, held or
  free. \<open>sers\<close>, \<open>rtus\<close> and \<open>mgrs\<close> hold what is allocated, \<open>nodes\<close> the list nodes of the managers (each at
  the address of its manager) and the list head, \<open>tty\<close> the state of the world outside.
\<close>

definition serial_mangers :: addr where "serial_mangers = 1"

record ('x, 'o) sworld =
  sers :: "addr \<rightharpoonup> serial"
  rtus :: "addr \<rightharpoonup> 'x serial_rtu_scheme"
  mgrs :: "addr \<rightharpoonup> serial_manger"
  nodes :: lheap
  g_mangers :: bool
  tty :: 'o

definition put_ser :: "addr \<Rightarrow> serial \<Rightarrow> ('x, 'o) sworld \<Rightarrow> ('x, 'o) sworld" where
  "put_ser c s w = w\<lparr>sers := (sers w)(c \<mapsto> s)\<rparr>"

definition put_rtu :: "addr \<Rightarrow> 'x serial_rtu_scheme \<Rightarrow> ('x, 'o) sworld \<Rightarrow> ('x, 'o) sworld" where
  "put_rtu p r w = w\<lparr>rtus := (rtus w)(p \<mapsto> r)\<rparr>"

definition put_mgr :: "addr \<Rightarrow> serial_manger \<Rightarrow> ('x, 'o) sworld \<Rightarrow> ('x, 'o) sworld" where
  "put_mgr m s w = w\<lparr>mgrs := (mgrs w)(m \<mapsto> s)\<rparr>"

definition set_err :: "addr \<Rightarrow> int \<Rightarrow> ('x, 'o) sworld \<Rightarrow> ('x, 'o) sworld cres" where
  "set_err c e w = bnd (deref (sers w) c) (\<lambda>s. Inr (put_ser c (s\<lparr>err_code := e\<rparr>) w))"

text \<open>\<open>ctx->backend_data\<close> as a pointer to the parameters, and what it points to.\<close>

definition the_rtu :: "addr \<Rightarrow> ('x, 'o) sworld \<Rightarrow> (addr \<times> 'x serial_rtu_scheme) cres" where
  "the_rtu c w =
     bnd (deref (sers w) c) (\<lambda>x. bnd (deref (rtus w) (backend_data x)) (\<lambda>r. Inr (backend_data x, r)))"

text \<open>\<open>free\<close> of the parameters and of the object, at the end of a backend's \<open>destory\<close>.\<close>

definition free_serial :: "addr \<Rightarrow> ('x, 'o) sworld \<Rightarrow> ('x, 'o) sworld cres" where
  "free_serial c w =
     bnd (deref (sers w) c) (\<lambda>s.
     Inr (w\<lparr>rtus := (rtus w)(backend_data s := None), sers := (sers w)(c := None)\<rparr>))"

section \<open>The table of functions\<close>

text \<open>
  A \<open>read\<close> is given the buffer of the caller and returns it as it leaves it.
\<close>

record ('x, 'o) serial_backend =
  bopen :: "addr \<Rightarrow> ('x, 'o) sworld \<Rightarrow> (int \<times> ('x, 'o) sworld) cres"
  bread :: "addr \<Rightarrow> byte list \<Rightarrow> int \<Rightarrow> int \<Rightarrow> ('x, 'o) sworld \<Rightarrow> (int \<times> byte list \<times> ('x, 'o) sworld) cres"
  bwrite :: "addr \<Rightarrow> byte list \<Rightarrow> int \<Rightarrow> int \<Rightarrow> ('x, 'o) sworld \<Rightarrow> (int \<times> ('x, 'o) sworld) cres"
  bclean :: "addr \<Rightarrow> ('x, 'o) sworld \<Rightarrow> (int \<times> ('x, 'o) sworld) cres"
  bclose :: "addr \<Rightarrow> ('x, 'o) sworld \<Rightarrow> (int \<times> ('x, 'o) sworld) cres"
  bdestory :: "addr \<Rightarrow> ('x, 'o) sworld \<Rightarrow> ('x, 'o) sworld cres"

named_theorems sworld_simps \<open>reading the serial world after a store\<close>

lemma put_ser_fields [sworld_simps]:
  "sers (put_ser c s w) = (sers w)(c \<mapsto> s)" "rtus (put_ser c s w) = rtus w" "mgrs (put_ser c s w) = mgrs w"
  "nodes (put_ser c s w) = nodes w" "g_mangers (put_ser c s w) = g_mangers w" "tty (put_ser c s w) = tty w"
  by (simp_all add: put_ser_def)

lemma put_rtu_fields [sworld_simps]:
  "sers (put_rtu p r w) = sers w" "rtus (put_rtu p r w) = (rtus w)(p \<mapsto> r)" "mgrs (put_rtu p r w) = mgrs w"
  "nodes (put_rtu p r w) = nodes w" "g_mangers (put_rtu p r w) = g_mangers w" "tty (put_rtu p r w) = tty w"
  by (simp_all add: put_rtu_def)

lemma put_mgr_fields [sworld_simps]:
  "sers (put_mgr m s w) = sers w" "rtus (put_mgr m s w) = rtus w" "mgrs (put_mgr m s w) = (mgrs w)(m \<mapsto> s)"
  "nodes (put_mgr m s w) = nodes w" "g_mangers (put_mgr m s w) = g_mangers w" "tty (put_mgr m s w) = tty w"
  by (simp_all add: put_mgr_def)

lemma set_err_eq: "sers w c = Some x \<Longrightarrow> set_err c e w = Inr (put_ser c (x\<lparr>err_code := e\<rparr>) w)"
  by (simp add: set_err_def)

lemma the_rtu_eq: "sers w c = Some x \<Longrightarrow> rtus w (backend_data x) = Some r \<Longrightarrow> the_rtu c w = Inr (backend_data x, r)"
  by (simp add: the_rtu_def)

lemma put_rtu_twice:
  "put_rtu p b (put_rtu p a w) = put_rtu p b w" "(put_rtu p a w)\<lparr>tty := o1\<rparr> = put_rtu p a (w\<lparr>tty := o1\<rparr>)"
  by (simp_all add: put_rtu_def)

lemma put_ser_commute:
  "put_rtu p r (put_ser c x w) = put_ser c x (put_rtu p r w)" "(put_ser c x w)\<lparr>tty := o1\<rparr> = put_ser c x (w\<lparr>tty := o1\<rparr>)"
  by (simp_all add: put_rtu_def put_ser_def)

end
