(* ===== verification/Serial_Port.thy ===== *)
theory Serial_Port
  imports Serial_State
begin

text \<open>
  The portable part, \<open>src/serial/serial_port.c\<close>: objects for the same port are shared. A list of
  managers, one for each device, counts the references to the object and how often it was opened;
  only the first open and the last close reach the backend, only the last \<open>destory\<close> frees.
  What differs between platforms (the backend, the name of a device, the fields of a
  closed port) and the allocator is the parameter \<open>platform\<close>. One thread runs.
\<close>

section \<open>The platform\<close>

text \<open>
  \<open>pmalloc\<close> gives the address of a new block outside those in use, or \<open>None\<close>; \<open>junk_ser\<close> and
  \<open>raw_rtu\<close> are the contents of a new block, \<open>reset_rtu\<close> is the assignment under \<open>#if\<close> that says
  that the port is not open.
\<close>

record ('x, 'o) platform =
  backend :: "('x, 'o) serial_backend"
  dev_prefix :: string
  pmalloc :: "addr set \<Rightarrow> 'o \<Rightarrow> addr option \<times> 'o"
  junk_ser :: "'o \<Rightarrow> serial"
  raw_rtu :: "'o \<Rightarrow> 'x serial_rtu_scheme"
  reset_rtu :: "'x serial_rtu_scheme \<Rightarrow> 'x serial_rtu_scheme"

definition NULL :: addr where "NULL = 0"

section \<open>Device names\<close>

text \<open>What \<open>%d\<close> prints of a number that is not negative.\<close>

definition digit :: "nat \<Rightarrow> char" where "digit d = char_of (48 + d)"

fun dec :: "nat \<Rightarrow> string" where
  "dec n = (if n < 10 then [digit n] else dec (n div 10) @ [digit (n mod 10)])"

declare dec.simps [simp del]

definition devname :: "string \<Rightarrow> 8 word \<Rightarrow> string" where
  "devname prefix index = prefix @ dec (unat index)"

text \<open>\<open>sprintf\<close> and \<open>strcpy\<close> to an array of 16 characters.\<close>

definition to_device :: "string \<Rightarrow> string cres" where
  "to_device str = (if length str < DEVICE_SIZE then Inr str else Inl Out_Of_Bounds)"

section \<open>The managers\<close>

text \<open>
  The walk of \<open>find_serial\<close>. The bound on its turns is one more than there are device names.
\<close>

definition PORTS :: nat where "PORTS = 256"

fun find_walk :: "nat \<Rightarrow> addr \<Rightarrow> string \<Rightarrow> ('x, 'o) sworld \<Rightarrow> addr option cres" where
  "find_walk 0 pos dev w = Inl No_Fuel"
| "find_walk (Suc k) pos dev w =
     (if pos = serial_mangers then Inr None
      else
        bnd (deref (mgrs w) pos) (\<lambda>sm.
        bnd (deref (sers w) (sm_t sm)) (\<lambda>x.
        bnd (deref (rtus w) (backend_data x)) (\<lambda>r.
        if device r = dev then Inr (Some pos)
        else bnd (get_nxt pos (nodes w)) (\<lambda>n. find_walk k n dev w)))))"

definition find_serial :: "string \<Rightarrow> ('x, 'o) sworld \<Rightarrow> addr option cres" where
  "find_serial dev w = bnd (get_nxt serial_mangers (nodes w)) (\<lambda>pos. find_walk (PORTS + 1) pos dev w)"

definition used :: "('x, 'o) sworld \<Rightarrow> addr set" where
  "used w = dom (sers w) \<union> dom (rtus w) \<union> dom (mgrs w) \<union> dom (nodes w)"

definition malloc :: "('x, 'o) platform \<Rightarrow> ('x, 'o) sworld \<Rightarrow> (addr \<times> ('x, 'o) sworld) cres" where
  "malloc P w =
     (case pmalloc P (used w) (tty w) of
        (None, o1) \<Rightarrow> Inl Bad_Pointer
      | (Some a, o1) \<Rightarrow> Inr (a, w\<lparr>tty := o1\<rparr>))"

definition add_serial :: "('x, 'o) platform \<Rightarrow> addr \<Rightarrow> ('x, 'o) sworld \<Rightarrow> (int \<times> ('x, 'o) sworld) cres" where
  "add_serial P c w =
     bnd (malloc P w) (\<lambda>(sm, w).
     let w = put_mgr sm \<lparr>sm_t = c, refcount = 1, opencount = 0, mt = False\<rparr> w;
         h = (nodes w)(sm \<mapsto> \<lparr>prv = 0, nxt = 0\<rparr>) in
     bnd (INIT_LIST_HEAD sm h) (\<lambda>h.
     bnd (list_add sm serial_mangers h) (\<lambda>h.
     Inr (0, w\<lparr>nodes := h\<rparr>))))"

text \<open>Locking and unlocking the global mutex and that of a manager.\<close>

definition lock_global :: "('x, 'o) sworld \<Rightarrow> ('x, 'o) sworld cres" where
  "lock_global w = bnd (mutex_lock (g_mangers w)) (\<lambda>b. Inr (w\<lparr>g_mangers := b\<rparr>))"

definition unlock_global :: "('x, 'o) sworld \<Rightarrow> ('x, 'o) sworld cres" where
  "unlock_global w = bnd (mutex_unlock (g_mangers w)) (\<lambda>b. Inr (w\<lparr>g_mangers := b\<rparr>))"

definition lock_mgr :: "addr \<Rightarrow> ('x, 'o) sworld \<Rightarrow> ('x, 'o) sworld cres" where
  "lock_mgr m w =
     bnd (deref (mgrs w) m) (\<lambda>sm. bnd (mutex_lock (mt sm)) (\<lambda>b. Inr (put_mgr m (sm\<lparr>mt := b\<rparr>) w)))"

definition unlock_mgr :: "addr \<Rightarrow> ('x, 'o) sworld \<Rightarrow> ('x, 'o) sworld cres" where
  "unlock_mgr m w =
     bnd (deref (mgrs w) m) (\<lambda>sm. bnd (mutex_unlock (mt sm)) (\<lambda>b. Inr (put_mgr m (sm\<lparr>mt := b\<rparr>) w)))"

text \<open>The change of a counter (and of the object) between a lock and an unlock.\<close>

definition locked_update ::
  "addr \<Rightarrow> (serial_manger \<Rightarrow> serial_manger) \<Rightarrow> (('x, 'o) sworld \<Rightarrow> ('x, 'o) sworld cres) \<Rightarrow>
   ('x, 'o) sworld \<Rightarrow> ('x, 'o) sworld cres" where
  "locked_update m f g w =
     bnd (lock_mgr m w) (\<lambda>w.
     bnd (deref (mgrs w) m) (\<lambda>sm.
     bnd (g (put_mgr m (f sm) w)) (\<lambda>w.
     unlock_mgr m w)))"

section \<open>Creating\<close>

text \<open>The part of \<open>serial_new\<close> for a device that has a manager already.\<close>

definition same_params :: "'x serial_rtu_scheme \<Rightarrow> int \<Rightarrow> char \<Rightarrow> 8 word \<Rightarrow> 8 word \<Rightarrow> bool" where
  "same_params r b p d st \<longleftrightarrow> \<not> (baud r \<noteq> b \<or> parity r \<noteq> p \<or> data_bit r \<noteq> d \<or> stop_bit r \<noteq> st)"

definition share_serial ::
  "addr \<Rightarrow> int \<Rightarrow> char \<Rightarrow> 8 word \<Rightarrow> 8 word \<Rightarrow> 8 word \<Rightarrow> ('x, 'o) sworld \<Rightarrow> (addr \<times> ('x, 'o) sworld) cres" where
  "share_serial m b p d st share w =
     bnd (deref (mgrs w) m) (\<lambda>sm.
     bnd (deref (sers w) (sm_t sm)) (\<lambda>x.
     bnd (deref (rtus w) (backend_data x)) (\<lambda>r.
     if share = 0 \<or> share_mode x = 0 then bnd (unlock_global w) (\<lambda>w. Inr (NULL, w))
     else if \<not> same_params r b p d st then bnd (unlock_global w) (\<lambda>w. Inr (NULL, w))
     else
       bnd (locked_update m (\<lambda>sm. sm\<lparr>refcount := refcount sm + 1\<rparr>) Inr w) (\<lambda>w.
       bnd (unlock_global w) (\<lambda>w. Inr (sm_t sm, w))))))"

text \<open>The part for a new device: the object, its parameters, the manager.\<close>

definition create_serial ::
  "('x, 'o) platform \<Rightarrow> string \<Rightarrow> int \<Rightarrow> char \<Rightarrow> 8 word \<Rightarrow> 8 word \<Rightarrow> 8 word \<Rightarrow> ('x, 'o) sworld \<Rightarrow>
     (addr \<times> ('x, 'o) sworld) cres" where
  "create_serial P dev b p d st share w =
     bnd (malloc P w) (\<lambda>(c, w).
     let w = put_ser c (junk_ser P (tty w)) w in
     bnd (malloc P w) (\<lambda>(a, w).
     bnd (deref (sers w) c) (\<lambda>x.
     let w = put_rtu a (raw_rtu P (tty w)) (put_ser c (x\<lparr>backend_data := a\<rparr>) w) in
     bnd (to_device dev) (\<lambda>dev.
     bnd (deref (rtus w) a) (\<lambda>r.
     let r = r\<lparr>device := dev, baud := b\<rparr> in
     if p = CHR ''N'' \<or> p = CHR ''E'' \<or> p = CHR ''O'' then
       let r = r\<lparr>parity := p\<rparr>;
           r = r\<lparr>data_bit := d, stop_bit := st\<rparr>;
           w = put_rtu a (reset_rtu P r) w in
       bnd (deref (sers w) c) (\<lambda>x.
       let w = put_ser c (x\<lparr>is_open := False, err_code := 0, debug := 0, share_mode := uint share\<rparr>) w in
       bnd (add_serial P c w) (\<lambda>(_, w).
       bnd (unlock_global w) (\<lambda>w. Inr (c, w))))
     else
       bnd (bdestory (backend P) c (put_rtu a r w)) (\<lambda>w.
       bnd (unlock_global w) (\<lambda>w. Inr (NULL, w))))))))"

definition serial_new ::
  "('x, 'o) platform \<Rightarrow> 8 word \<Rightarrow> int \<Rightarrow> char \<Rightarrow> 8 word \<Rightarrow> 8 word \<Rightarrow> 8 word \<Rightarrow> ('x, 'o) sworld \<Rightarrow>
     (addr \<times> ('x, 'o) sworld) cres" where
  "serial_new P index b p d st share w =
     bnd (to_device (devname (dev_prefix P) index)) (\<lambda>dev.
     bnd (lock_global w) (\<lambda>w.
     bnd (find_serial dev w) (\<lambda>sm.
     case sm of
       Some m \<Rightarrow> share_serial m b p d st share w
     | None \<Rightarrow> create_serial P dev b p d st share w)))"

section \<open>Using\<close>

text \<open>The manager of an object, found by the name of its device.\<close>

definition find_mgr :: "addr \<Rightarrow> ('x, 'o) sworld \<Rightarrow> addr option cres" where
  "find_mgr c w =
     c_assert (c \<noteq> NULL) (
     bnd (deref (sers w) c) (\<lambda>x.
     bnd (deref (rtus w) (backend_data x)) (\<lambda>r.
     find_serial (device r) w)))"

definition set_is_open :: "addr \<Rightarrow> ('x, 'o) sworld \<Rightarrow> ('x, 'o) sworld cres" where
  "set_is_open c w = bnd (deref (sers w) c) (\<lambda>x. Inr (put_ser c (x\<lparr>is_open := True\<rparr>) w))"

definition count_open :: "addr \<Rightarrow> addr \<Rightarrow> ('x, 'o) sworld \<Rightarrow> ('x, 'o) sworld cres" where
  "count_open m c = locked_update m (\<lambda>sm. sm\<lparr>opencount := opencount sm + 1\<rparr>) (set_is_open c)"

definition serial_open :: "('x, 'o) platform \<Rightarrow> addr \<Rightarrow> ('x, 'o) sworld \<Rightarrow> (int \<times> ('x, 'o) sworld) cres" where
  "serial_open P c w =
     bnd (find_mgr c w) (\<lambda>m.
     case m of
       None \<Rightarrow> Inr (-1, w)
     | Some m \<Rightarrow>
         bnd (deref (mgrs w) m) (\<lambda>sm.
         if opencount sm > 0 then bnd (count_open m c w) (\<lambda>w. Inr (0, w))
         else
           bnd (bopen (backend P) c w) (\<lambda>(r, w).
           if r = 0 then bnd (count_open m c w) (\<lambda>w. Inr (0, w))
           else Inr (-1, w))))"

definition serial_read ::
  "('x, 'o) platform \<Rightarrow> addr \<Rightarrow> byte list \<Rightarrow> int \<Rightarrow> int \<Rightarrow> ('x, 'o) sworld \<Rightarrow> (int \<times> byte list \<times> ('x, 'o) sworld) cres" where
  "serial_read P c buf len mtimeout w =
     bnd (find_mgr c w) (\<lambda>m.
     case m of None \<Rightarrow> Inr (-1, buf, w) | Some _ \<Rightarrow> bread (backend P) c buf len mtimeout w)"

definition serial_write ::
  "('x, 'o) platform \<Rightarrow> addr \<Rightarrow> byte list \<Rightarrow> int \<Rightarrow> int \<Rightarrow> ('x, 'o) sworld \<Rightarrow> (int \<times> ('x, 'o) sworld) cres" where
  "serial_write P c buf len mtimeout w =
     bnd (find_mgr c w) (\<lambda>m.
     case m of None \<Rightarrow> Inr (-1, w) | Some _ \<Rightarrow> bwrite (backend P) c buf len mtimeout w)"

definition serial_clean :: "('x, 'o) platform \<Rightarrow> addr \<Rightarrow> ('x, 'o) sworld \<Rightarrow> (int \<times> ('x, 'o) sworld) cres" where
  "serial_clean P c w =
     bnd (find_mgr c w) (\<lambda>m.
     case m of None \<Rightarrow> Inr (-1, w) | Some _ \<Rightarrow> bclean (backend P) c w)"

section \<open>Closing and destroying\<close>

definition serial_close :: "('x, 'o) platform \<Rightarrow> addr \<Rightarrow> ('x, 'o) sworld \<Rightarrow> (int \<times> ('x, 'o) sworld) cres" where
  "serial_close P c w =
     bnd (find_mgr c w) (\<lambda>m.
     case m of
       None \<Rightarrow> Inr (-1, w)
     | Some m \<Rightarrow>
         bnd (deref (mgrs w) m) (\<lambda>sm.
         bnd (if opencount sm > 0
              then locked_update m (\<lambda>sm. sm\<lparr>opencount := opencount sm - 1\<rparr>) Inr w else Inr w) (\<lambda>w.
         bnd (deref (mgrs w) m) (\<lambda>sm.
         if opencount sm = 0 then bclose (backend P) c w else Inr (0, w)))))"

definition serial_destory :: "('x, 'o) platform \<Rightarrow> addr \<Rightarrow> ('x, 'o) sworld \<Rightarrow> ('x, 'o) sworld cres" where
  "serial_destory P c w =
     c_assert (c \<noteq> NULL) (
     bnd (lock_global w) (\<lambda>w.
     bnd (find_mgr c w) (\<lambda>m.
     case m of
       None \<Rightarrow> unlock_global (w\<lparr>sers := (sers w)(c := None)\<rparr>)
     | Some m \<Rightarrow>
         bnd (deref (mgrs w) m) (\<lambda>sm.
         bnd (if refcount sm > 0
              then locked_update m (\<lambda>sm. sm\<lparr>refcount := refcount sm - 1\<rparr>) Inr w else Inr w) (\<lambda>w.
         bnd (deref (mgrs w) m) (\<lambda>sm.
         if refcount sm = 0 then
           bnd (list_del m (nodes w)) (\<lambda>h.
           bnd (bdestory (backend P) c (w\<lparr>nodes := h\<rparr>)) (\<lambda>w.
           unlock_global (w\<lparr>mgrs := (mgrs w)(m := None), nodes := (nodes w)(m := None)\<rparr>)))
         else unlock_global w))))))"

section \<open>Queries and the client's lock\<close>

definition serial_is_open :: "addr \<Rightarrow> ('x, 'o) sworld \<Rightarrow> bool cres" where
  "serial_is_open c w = c_assert (c \<noteq> NULL) (bnd (deref (sers w) c) (\<lambda>x. Inr (is_open x)))"

definition serial_set_debug :: "addr \<Rightarrow> bool \<Rightarrow> ('x, 'o) sworld \<Rightarrow> ('x, 'o) sworld cres" where
  "serial_set_debug c b w =
     c_assert (c \<noteq> NULL) (bnd (deref (sers w) c) (\<lambda>x. Inr (put_ser c (x\<lparr>debug := (if b then 1 else 0)\<rparr>) w)))"

definition serial_get_last_error :: "addr \<Rightarrow> ('x, 'o) sworld \<Rightarrow> int cres" where
  "serial_get_last_error c w = c_assert (c \<noteq> NULL) (bnd (deref (sers w) c) (\<lambda>x. Inr (err_code x)))"

definition serial_lock :: "addr \<Rightarrow> ('x, 'o) sworld \<Rightarrow> ('x, 'o) sworld cres" where
  "serial_lock c w =
     bnd (find_mgr c w) (\<lambda>m. case m of None \<Rightarrow> Inr w | Some m \<Rightarrow> lock_mgr m w)"

definition serial_unlock :: "addr \<Rightarrow> ('x, 'o) sworld \<Rightarrow> ('x, 'o) sworld cres" where
  "serial_unlock c w =
     bnd (find_mgr c w) (\<lambda>m. case m of None \<Rightarrow> Inr w | Some m \<Rightarrow> unlock_mgr m w)"

end
