(* ===== verification/Serial_Inv.thy ===== *)
theory Serial_Inv
  imports Serial_Port
begin

text \<open>
  The invariant of the managers of \<open>serial_port.c\<close>: the list is a ring, every manager refers to an
  object and its parameters, no two managers share an object, parameters or a device name,
  and the counters agree with the state of the port. Since a device name is made of a prefix
  and an index of 8 bits, there are at most 256 managers, so \<open>find_serial\<close> ends.
\<close>

section \<open>Device names\<close>

text \<open>Reading a printed number back.\<close>

definition undec :: "string \<Rightarrow> nat" where
  "undec ds = foldl (\<lambda>a c. 10 * a + (of_char c - 48)) 0 ds"

lemma undec_snoc: "undec (ds @ [c]) = 10 * undec ds + (of_char c - 48)"
  by (simp add: undec_def)

lemma of_digit: "d < 10 \<Longrightarrow> of_char (digit d) = 48 + d"
  by (simp add: digit_def of_char_of)

lemma undec_dec: "undec (dec n) = n"
proof (induction n rule: dec.induct)
  case (1 n)
  show ?case
  proof (cases "n < 10")
    case True
    then show ?thesis by (subst dec.simps) (simp add: undec_def of_digit)
  next
    case False
    then have "undec (dec n) = 10 * (n div 10) + n mod 10"
      using 1 by (subst dec.simps) (simp add: undec_snoc of_digit)
    then show ?thesis by simp
  qed
qed

lemma length_dec: "n < 1000 \<Longrightarrow> length (dec n) \<le> 3"
  by (subst dec.simps, simp, subst dec.simps, simp, subst dec.simps, simp)

lemma dec_inj: "dec m = dec n \<longleftrightarrow> m = n"
  by (metis undec_dec)

lemma devname_inj: "devname prefix i = devname prefix j \<longleftrightarrow> i = j"
  by (simp add: devname_def dec_inj word_unat_eq_iff)

lemma length_devname: "length (devname prefix i) \<le> length prefix + 3"
  using length_dec [of "unat i"] unsigned_less [of i, where 'a = nat] by (simp add: devname_def)

lemma card_devnames: "finite (range (devname prefix))" "card (range (devname prefix)) \<le> PORTS"
proof -
  show "finite (range (devname prefix))" by simp
  have "card (range (devname prefix)) \<le> card (UNIV :: 8 word set)" by (rule card_image_le) simp
  then show "card (range (devname prefix)) \<le> PORTS" by (simp add: card_word PORTS_def)
qed

section \<open>The invariant\<close>

text \<open>What a manager refers to.\<close>

definition port_of :: "('x, 'o) sworld \<Rightarrow> addr \<rightharpoonup> serial_manger \<times> serial \<times> 'x serial_rtu_scheme" where
  "port_of w m =
     (case mgrs w m of None \<Rightarrow> None | Some sm \<Rightarrow>
      case sers w (sm_t sm) of None \<Rightarrow> None | Some x \<Rightarrow>
      case rtus w (backend_data x) of None \<Rightarrow> None | Some r \<Rightarrow> Some (sm, x, r))"

lemma port_of_Some:
  "port_of w m = Some (sm, x, r) \<longleftrightarrow>
     mgrs w m = Some sm \<and> sers w (sm_t sm) = Some x \<and> rtus w (backend_data x) = Some r"
  by (auto simp: port_of_def split: option.splits)

definition dev_of :: "('x, 'o) sworld \<Rightarrow> addr \<Rightarrow> string" where
  "dev_of w m = (case port_of w m of Some (sm, x, r) \<Rightarrow> device r | None \<Rightarrow> [])"

definition fine :: "(bool \<Rightarrow> 'x serial_rtu_scheme \<Rightarrow> bool) \<Rightarrow> string \<Rightarrow>
  serial_manger \<times> serial \<times> 'x serial_rtu_scheme \<Rightarrow> bool" where
  "fine ok prefix = (\<lambda>(sm, x, r).
     ok (is_open x) r \<and> sm_t sm \<noteq> NULL \<and> 1 \<le> refcount sm \<and> 0 \<le> opencount sm \<and>
     (0 < opencount sm \<longrightarrow> is_open x) \<and> device r \<in> range (devname prefix))"

text \<open>Two managers have nothing in common.\<close>

definition apart :: "serial_manger \<times> serial \<times> 'x serial_rtu_scheme \<Rightarrow>
  serial_manger \<times> serial \<times> 'x serial_rtu_scheme \<Rightarrow> bool" where
  "apart = (\<lambda>(sm, x, r) (sm', x', r').
     sm_t sm \<noteq> sm_t sm' \<and> backend_data x \<noteq> backend_data x' \<and> device r \<noteq> device r')"

definition pinv :: "(bool \<Rightarrow> 'x serial_rtu_scheme \<Rightarrow> bool) \<Rightarrow> string \<Rightarrow> addr list \<Rightarrow> ('x, 'o) sworld \<Rightarrow> bool" where
  "pinv ok prefix ms w \<longleftrightarrow>
     ring (nodes w) serial_mangers ms \<and>
     (\<forall>m \<in> set ms. \<exists>q. port_of w m = Some q \<and> fine ok prefix q) \<and>
     (\<forall>m \<in> set ms. \<forall>m' \<in> set ms. \<forall>q q'. m \<noteq> m' \<longrightarrow> port_of w m = Some q \<longrightarrow> port_of w m' = Some q' \<longrightarrow> apart q q')"

text \<open>Between two operations the global mutex is free; what is allocated is finite.\<close>

definition sinv :: "(bool \<Rightarrow> 'x serial_rtu_scheme \<Rightarrow> bool) \<Rightarrow> string \<Rightarrow> addr list \<Rightarrow> ('x, 'o) sworld \<Rightarrow> bool" where
  "sinv ok prefix ms w \<longleftrightarrow> pinv ok prefix ms w \<and> \<not> g_mangers w \<and> finite (used w)"

lemma finite_used:
  "finite (used w) \<longleftrightarrow> finite (dom (sers w)) \<and> finite (dom (rtus w)) \<and> finite (dom (mgrs w)) \<and> finite (dom (nodes w))"
  by (auto simp: used_def)

lemma pinv_ring: "pinv ok prefix ms w \<Longrightarrow> ring (nodes w) serial_mangers ms"
  by (simp add: pinv_def)

lemma pinv_port:
  assumes "pinv ok prefix ms w" and "m \<in> set ms"
  obtains sm x r where "port_of w m = Some (sm, x, r)" "fine ok prefix (sm, x, r)"
  using assms unfolding pinv_def by (metis prod_cases3)

lemma pinv_apart:
  "pinv ok prefix ms w \<Longrightarrow> m \<in> set ms \<Longrightarrow> m' \<in> set ms \<Longrightarrow> m \<noteq> m' \<Longrightarrow>
     port_of w m = Some q \<Longrightarrow> port_of w m' = Some q' \<Longrightarrow> apart q q'"
  unfolding pinv_def by blast

lemma pinv_inj_dev:
  assumes "pinv ok prefix ms w"
  shows "inj_on (dev_of w) (set ms)"
proof (rule inj_onI, rule ccontr)
  fix m m' assume m: "m \<in> set ms" "m' \<in> set ms" "dev_of w m = dev_of w m'" "m \<noteq> m'"
  obtain sm x r where q: "port_of w m = Some (sm, x, r)" using pinv_port [OF assms m(1)] by blast
  obtain sm' x' r' where q': "port_of w m' = Some (sm', x', r')" using pinv_port [OF assms m(2)] by blast
  show False using pinv_apart [OF assms m(1,2,4) q q'] m(3) q q' by (simp add: apart_def dev_of_def)
qed

lemma pinv_length:
  assumes "pinv ok prefix ms w"
  shows "length ms \<le> PORTS"
proof -
  have "dev_of w ` set ms \<subseteq> range (devname prefix)"
  proof
    fix d assume "d \<in> dev_of w ` set ms"
    then obtain m where m: "m \<in> set ms" "d = dev_of w m" by blast
    obtain sm x r where "port_of w m = Some (sm, x, r)" "fine ok prefix (sm, x, r)"
      using pinv_port [OF assms m(1)] by blast
    then show "d \<in> range (devname prefix)" using m(2) by (simp add: fine_def dev_of_def)
  qed
  then have "card (dev_of w ` set ms) \<le> PORTS"
    by (rule le_trans [OF card_mono [OF card_devnames(1)] card_devnames(2)])
  moreover have "distinct ms" using ring_distinct [OF pinv_ring [OF assms]] by simp
  ultimately show ?thesis using card_image [OF pinv_inj_dev [OF assms]] distinct_card [of ms] by linarith
qed

section \<open>Finding\<close>

lemma find_walk_seg:
  assumes "dseg (nxt_of (nodes w)) (prv_of (nodes w)) a ms serial_mangers" and "serial_mangers \<notin> set ms"
    and "length ms < k" and "\<forall>m \<in> set ms. port_of w m \<noteq> None"
  shows "find_walk k (behind ms serial_mangers) dev w = Inr (List.find (\<lambda>m. dev_of w m = dev) ms)"
  using assms
proof (induction ms arbitrary: a k)
  case Nil
  then show ?case by (cases k) simp_all
next
  case (Cons m ms)
  obtain sm x r where q: "port_of w m = Some (sm, x, r)" using Cons.prems(4) by auto
  have n: "get_nxt m (nodes w) = Inr (behind ms serial_mangers)"
    using Cons.prems(1) by (cases ms) (auto simp: heap_simps)
  have "find_walk (k - 1) (behind ms serial_mangers) dev w = Inr (List.find (\<lambda>m. dev_of w m = dev) ms)"
    by (rule Cons.IH) (use Cons.prems in auto)
  moreover have "dev_of w m = device r" using q by (simp add: dev_of_def)
  ultimately show ?case using q n Cons.prems(2,3) by (cases k) (auto simp: port_of_Some)
qed

lemma find_serial_ring:
  assumes "pinv ok prefix ms w"
  shows "find_serial dev w = Inr (List.find (\<lambda>m. dev_of w m = dev) ms)"
proof -
  have r: "ring (nodes w) serial_mangers ms" by (rule pinv_ring [OF assms])
  have p: "\<forall>m \<in> set ms. port_of w m \<noteq> None" using pinv_port [OF assms] by (metis option.distinct(1))
  have "find_walk (PORTS + 1) (behind ms serial_mangers) dev w = Inr (List.find (\<lambda>m. dev_of w m = dev) ms)"
    by (rule find_walk_seg [OF _ _ _ p, where a = serial_mangers])
      (use r pinv_length [OF assms] in \<open>auto simp: ring_def\<close>)
  then show ?thesis using ring_ends(1) [OF r] by (simp add: find_serial_def)
qed

lemma find_dev:
  assumes "pinv ok prefix ms w" and "m \<in> set ms"
  shows "List.find (\<lambda>m'. dev_of w m' = dev_of w m) ms = Some m"
proof -
  have "List.find (\<lambda>m'. dev_of w m' = dev_of w m) ms \<noteq> None"
    using assms(2) by (auto simp: find_None_iff)
  then obtain m' where m': "List.find (\<lambda>m'. dev_of w m' = dev_of w m) ms = Some m'" by blast
  then have "m' \<in> set ms" "dev_of w m' = dev_of w m" by (auto simp: find_Some_iff)
  then have "m' = m" using pinv_inj_dev [OF assms(1)] assms(2) by (auto dest: inj_onD)
  with m' show ?thesis by simp
qed

text \<open>The manager of an object is found from the object.\<close>

lemma find_mgr_port:
  assumes "pinv ok prefix ms w" and "m \<in> set ms" and "port_of w m = Some (sm, x, r)"
  shows "find_mgr (sm_t sm) w = Inr (Some m)"
proof -
  obtain sm' x' r' where "port_of w m = Some (sm', x', r')" "fine ok prefix (sm', x', r')"
    using pinv_port [OF assms(1,2)] by blast
  then have "sm_t sm \<noteq> NULL" using assms(3) by (simp add: fine_def)
  moreover have "dev_of w m = device r" using assms(3) by (simp add: dev_of_def)
  ultimately show ?thesis
    using assms(3) find_serial_ring [OF assms(1), of "device r"] find_dev [OF assms(1,2)]
    by (simp add: find_mgr_def port_of_Some)
qed

section \<open>Steps that keep the invariant\<close>

text \<open>A step that changes one manager, its object and its parameters, not which they are.\<close>

lemma pinv_step:
  assumes inv: "pinv ok prefix ms w" and m: "m \<in> set ms" and q: "port_of w m = Some (sm, x, r)"
    and n: "nodes w' = nodes w" and q': "port_of w' m = Some (sm', x', r')" "fine ok prefix (sm', x', r')"
    and same: "sm_t sm' = sm_t sm" "backend_data x' = backend_data x" "device r' = device r"
    and others: "\<And>m'. m' \<in> set ms \<Longrightarrow> m' \<noteq> m \<Longrightarrow> port_of w' m' = port_of w m'"
  shows "pinv ok prefix ms w'"
proof -
  have "apart p p'" if p: "a \<in> set ms" "b \<in> set ms" "a \<noteq> b" "port_of w' a = Some p" "port_of w' b = Some p'" for a b p p'
  proof (cases "a = m")
    case True
    then have "apart (sm, x, r) p'" using pinv_apart [OF inv m p(2)] p others [of b] q by simp
    then show ?thesis using p(4) True q'(1) same by (auto simp: apart_def)
  next
    case False
    show ?thesis
    proof (cases "b = m")
      case True
      then have "apart p (sm, x, r)" using pinv_apart [OF inv p(1) m] p False others [of a] q by simp
      then show ?thesis using p(5) True q'(1) same by (auto simp: apart_def)
    next
      case b: False
      then show ?thesis using pinv_apart [OF inv p(1,2,3)] p False others by simp
    qed
  qed
  moreover have "\<exists>p. port_of w' a = Some p \<and> fine ok prefix p" if "a \<in> set ms" for a
    using that q' others [of a] inv by (cases "a = m") (auto simp: pinv_def)
  ultimately show ?thesis using inv n by (simp add: pinv_def)
qed

text \<open>Stores through a manager leave what the other managers refer to.\<close>

lemma port_of_frame:
  assumes inv: "pinv ok prefix ms w" and m: "m \<in> set ms" and q: "port_of w m = Some (sm, x, r)"
    and m': "m' \<in> set ms" "m' \<noteq> m"
    and w': "mgrs w' = (mgrs w)(m := a)" "sers w' = (sers w)(sm_t sm := b)" "rtus w' = (rtus w)(backend_data x := c)"
  shows "port_of w' m' = port_of w m'"
proof -
  obtain sm1 x1 r1 where q1: "port_of w m' = Some (sm1, x1, r1)" using pinv_port [OF inv m'(1)] by blast
  have "apart (sm, x, r) (sm1, x1, r1)" using pinv_apart [OF inv m m'(1)] m'(2) q q1 by blast
  then have "port_of w' m' = Some (sm1, x1, r1)"
    using q1 w' m'(2) by (simp add: apart_def port_of_Some)
  with q1 show ?thesis by simp
qed

end
