(* ===== verification/Serial_Ops.thy ===== *)
theory Serial_Ops
  imports Serial_Inv
begin

text \<open>
  What the operations of \<open>serial_port.c\<close> do, over any platform that keeps the contract
  \<open>serial_platform\<close>: each returns, keeps the invariant \<open>sinv\<close> and changes the counters as it should.
  The platforms are interpretations of the contract.
\<close>

section \<open>The contract of a platform\<close>

text \<open>
  A call of the backend changes the object it is given and its parameters, which keep their
  identity, and the world outside.
\<close>

definition port_step :: "(bool \<Rightarrow> 'x serial_rtu_scheme \<Rightarrow> bool) \<Rightarrow> addr \<Rightarrow> ('x, 'o) sworld \<Rightarrow> ('x, 'o) sworld \<Rightarrow> bool" where
  "port_step ok c w w' \<longleftrightarrow>
     (\<exists>x r x' r'. sers w c = Some x \<and> rtus w (backend_data x) = Some r \<and>
        sers w' = (sers w)(c \<mapsto> x') \<and> rtus w' = (rtus w)(backend_data x \<mapsto> r') \<and>
        mgrs w' = mgrs w \<and> nodes w' = nodes w \<and> g_mangers w' = g_mangers w \<and>
        backend_data x' = backend_data x \<and> share_mode x' = share_mode x \<and>
        serial_rtu.truncate r' = serial_rtu.truncate r \<and> ok (is_open x') r')"

definition opened :: "addr \<Rightarrow> ('x, 'o) sworld \<Rightarrow> bool" where
  "opened c w \<longleftrightarrow> (\<exists>x. sers w c = Some x \<and> is_open x)"

definition removed :: "addr \<Rightarrow> serial \<Rightarrow> ('x, 'o) sworld \<Rightarrow> ('x, 'o) sworld \<Rightarrow> bool" where
  "removed c x w w' \<longleftrightarrow>
     sers w' = (sers w)(c := None) \<and> rtus w' = (rtus w)(backend_data x := None) \<and>
     mgrs w' = mgrs w \<and> nodes w' = nodes w \<and> g_mangers w' = g_mangers w"

lemma truncate_device: "serial_rtu.truncate r' = serial_rtu.truncate r \<Longrightarrow> device r' = device r"
  by (auto simp: serial_rtu.defs)

lemma port_stepI:
  assumes "sers w c = Some x" and "rtus w (backend_data x) = Some r"
    and "sers w' = (sers w)(c \<mapsto> x')" and "rtus w' = (rtus w)(backend_data x \<mapsto> r')"
    and "mgrs w' = mgrs w" and "nodes w' = nodes w" and "g_mangers w' = g_mangers w"
    and "backend_data x' = backend_data x" and "share_mode x' = share_mode x"
    and "serial_rtu.truncate r' = serial_rtu.truncate r" and "ok (is_open x') r'"
  shows "port_step ok c w w'"
  unfolding port_step_def using assms by blast

lemma port_stepE:
  assumes "port_step ok c w w'"
  obtains x r x' r' where "sers w c = Some x" "rtus w (backend_data x) = Some r"
    "sers w' = (sers w)(c \<mapsto> x')" "rtus w' = (rtus w)(backend_data x \<mapsto> r')"
    "mgrs w' = mgrs w" "nodes w' = nodes w" "g_mangers w' = g_mangers w"
    "backend_data x' = backend_data x" "share_mode x' = share_mode x"
    "serial_rtu.truncate r' = serial_rtu.truncate r" "ok (is_open x') r'"
  using assms unfolding port_step_def by blast

lemma port_step_refl:
  assumes "sers w c = Some x" and "rtus w (backend_data x) = Some r" and "ok (is_open x) r"
  shows "port_step ok c w w"
  by (rule port_stepI [where x = x and r = r and x' = x and r' = r]) (use assms in \<open>simp_all add: fun_upd_idem\<close>)

lemma port_step_trans:
  assumes "port_step ok c w w1" and "port_step ok c w1 w2"
  shows "port_step ok c w w2"
proof -
  obtain x r x1 r1 where 1: "sers w c = Some x" "rtus w (backend_data x) = Some r"
    "sers w1 = (sers w)(c \<mapsto> x1)" "rtus w1 = (rtus w)(backend_data x \<mapsto> r1)"
    "mgrs w1 = mgrs w" "nodes w1 = nodes w" "g_mangers w1 = g_mangers w"
    "backend_data x1 = backend_data x" "share_mode x1 = share_mode x"
    "serial_rtu.truncate r1 = serial_rtu.truncate r" "ok (is_open x1) r1"
    using assms(1) by (rule port_stepE)
  obtain x' r' x2 r2 where 2: "sers w1 c = Some x'" "rtus w1 (backend_data x') = Some r'"
    "sers w2 = (sers w1)(c \<mapsto> x2)" "rtus w2 = (rtus w1)(backend_data x' \<mapsto> r2)"
    "mgrs w2 = mgrs w1" "nodes w2 = nodes w1" "g_mangers w2 = g_mangers w1"
    "backend_data x2 = backend_data x'" "share_mode x2 = share_mode x'"
    "serial_rtu.truncate r2 = serial_rtu.truncate r'" "ok (is_open x2) r2"
    using assms(2) by (rule port_stepE)
  have "x' = x1" "r' = r1" using 1 2 by simp_all
  then show ?thesis
    by (intro port_stepI [where x = x and r = r and x' = x2 and r' = r2]) (use 1 2 in simp_all)
qed

text \<open>A change of the world outside and of the error code only.\<close>

lemma tty_step:
  assumes "sers w c = Some x" and "rtus w (backend_data x) = Some r" and "ok (is_open x) r"
  shows "port_step ok c w (w\<lparr>tty := o1\<rparr>)" and "port_step ok c w (put_ser c (x\<lparr>err_code := e\<rparr>) (w\<lparr>tty := o1\<rparr>))"
    and "opened c (w\<lparr>tty := o1\<rparr>) \<longleftrightarrow> opened c w"
    and "opened c (put_ser c (x\<lparr>err_code := e\<rparr>) (w\<lparr>tty := o1\<rparr>)) \<longleftrightarrow> opened c w"
proof -
  show "port_step ok c w (w\<lparr>tty := o1\<rparr>)"
    by (rule port_stepI [where x = x and r = r and x' = x and r' = r]) (use assms in \<open>simp_all add: fun_upd_idem\<close>)
  show "port_step ok c w (put_ser c (x\<lparr>err_code := e\<rparr>) (w\<lparr>tty := o1\<rparr>))"
    by (rule port_stepI [where x = x and r = r and x' = "x\<lparr>err_code := e\<rparr>" and r' = r])
      (use assms in \<open>simp_all add: fun_upd_idem sworld_simps\<close>)
qed (use assms in \<open>simp_all add: opened_def sworld_simps\<close>)

text \<open>A change of the error code and the parameters that leaves the port not open.\<close>

lemma not_open_step:
  assumes "sers w c = Some x" and "rtus w (backend_data x) = Some r" and "\<not> is_open x"
    and "ok False r'" and "serial_rtu.truncate r' = serial_rtu.truncate r"
  shows "port_step ok c w (put_ser c (x\<lparr>err_code := e\<rparr>) (put_rtu (backend_data x) r' (w\<lparr>tty := o1\<rparr>)))" (is ?step)
    and "\<not> opened c (put_ser c (x\<lparr>err_code := e\<rparr>) (put_rtu (backend_data x) r' (w\<lparr>tty := o1\<rparr>)))"
proof -
  show ?step
    by (rule port_stepI [where x = x and r = r and x' = "x\<lparr>err_code := e\<rparr>" and r' = r'])
      (use assms in \<open>simp_all add: sworld_simps\<close>)
qed (use assms(3) in \<open>simp add: opened_def sworld_simps\<close>)

text \<open>A backend's \<open>destory\<close> closes and frees.\<close>

lemma step_then_free:
  assumes "sers w c = Some x" and "rtus w (backend_data x) = Some r" and "port_step ok c w w1"
  shows "\<exists>w'. free_serial c w1 = Inr w' \<and> removed c x w w'"
proof -
  obtain x1 r1 where "sers w1 = (sers w)(c \<mapsto> x1)" "rtus w1 = (rtus w)(backend_data x \<mapsto> r1)" "backend_data x1 = backend_data x"
    "mgrs w1 = mgrs w" "nodes w1 = nodes w" "g_mangers w1 = g_mangers w"
    using assms by (auto elim!: port_stepE)
  then show ?thesis by (simp add: free_serial_def removed_def)
qed

locale serial_platform =
  fixes P :: "'s \<Rightarrow> ('x, 'o) platform"
    and calls_ok :: "'s \<Rightarrow> bool"
    and ok :: "bool \<Rightarrow> 'x serial_rtu_scheme \<Rightarrow> bool"
  assumes prefix_law: "length (dev_prefix (P e)) \<le> 12"
    and malloc_law: "calls_ok e \<Longrightarrow> pmalloc (P e) A o1 = (Some a, o2) \<Longrightarrow> a \<notin> A \<and> a \<noteq> NULL"
    and reset_law: "ok False (reset_rtu (P e) r)" "serial_rtu.truncate (reset_rtu (P e) r) = serial_rtu.truncate r"
    and open_law: "calls_ok e \<Longrightarrow> sers w c = Some x \<Longrightarrow> rtus w (backend_data x) = Some r \<Longrightarrow> ok (is_open x) r \<Longrightarrow>
      \<exists>n w'. bopen (backend (P e)) c w = Inr (n, w') \<and> port_step ok c w w' \<and> (n = 0 \<or> n = -1) \<and> (n = 0 \<longleftrightarrow> opened c w')"
    and close_law: "calls_ok e \<Longrightarrow> sers w c = Some x \<Longrightarrow> rtus w (backend_data x) = Some r \<Longrightarrow> ok (is_open x) r \<Longrightarrow>
      \<exists>n w'. bclose (backend (P e)) c w = Inr (n, w') \<and> port_step ok c w w' \<and>
        (n = 0 \<and> \<not> opened c w' \<or> n = -1 \<and> (opened c w' \<longleftrightarrow> opened c w))"
    and destory_law: "calls_ok e \<Longrightarrow> sers w c = Some x \<Longrightarrow> rtus w (backend_data x) = Some r \<Longrightarrow> ok (is_open x) r \<Longrightarrow>
      \<exists>w'. bdestory (backend (P e)) c w = Inr w' \<and> removed c x w w'"
    and read_law: "calls_ok e \<Longrightarrow> sers w c = Some x \<Longrightarrow> rtus w (backend_data x) = Some r \<Longrightarrow> ok (is_open x) r \<Longrightarrow>
      0 \<le> len \<Longrightarrow> len \<le> int (length buf) \<Longrightarrow> len < 2 ^ 31 \<Longrightarrow>
      \<exists>n buf' w'. bread (backend (P e)) c buf len mtimeout w = Inr (n, buf', w') \<and> port_step ok c w w' \<and>
        (opened c w' \<longleftrightarrow> opened c w) \<and> length buf' = length buf \<and> (n = -1 \<or> 0 \<le> n \<and> n \<le> len)"
    and write_law: "calls_ok e \<Longrightarrow> sers w c = Some x \<Longrightarrow> rtus w (backend_data x) = Some r \<Longrightarrow> ok (is_open x) r \<Longrightarrow>
      0 \<le> len \<Longrightarrow> len \<le> int (length buf) \<Longrightarrow> len < 2 ^ 31 \<Longrightarrow>
      \<exists>n w'. bwrite (backend (P e)) c buf len mtimeout w = Inr (n, w') \<and> port_step ok c w w' \<and>
        (opened c w' \<longleftrightarrow> opened c w)"
    and clean_law: "calls_ok e \<Longrightarrow> sers w c = Some x \<Longrightarrow> rtus w (backend_data x) = Some r \<Longrightarrow> ok (is_open x) r \<Longrightarrow>
      \<exists>n w'. bclean (backend (P e)) c w = Inr (n, w') \<and> port_step ok c w w' \<and> (opened c w' \<longleftrightarrow> opened c w)"

section \<open>Locked updates\<close>

lemma set_mt_idem: "\<not> mt sm \<Longrightarrow> sm\<lparr>mt := False\<rparr> = sm"
  by (cases sm) simp

lemma locked_update_eq:
  assumes "mgrs w m = Some sm" and "\<not> mt sm" and "\<And>b. f (sm\<lparr>mt := b\<rparr>) = (f sm)\<lparr>mt := b\<rparr>" and "\<not> mt (f sm)"
    and "g (put_mgr m ((f sm)\<lparr>mt := True\<rparr>) w) = Inr w1" and "mgrs w1 = (mgrs w)(m \<mapsto> (f sm)\<lparr>mt := True\<rparr>)"
  shows "locked_update m f g w = Inr (put_mgr m (f sm) w1)"
proof -
  have twice: "put_mgr m b (put_mgr m a w) = put_mgr m b w" for a b by (simp add: put_mgr_def)
  show ?thesis
    using assms(1,2,4-6)
    by (simp add: locked_update_def lock_mgr_def unlock_mgr_def sworld_simps assms(3) twice set_mt_idem)
qed

lemma locked_count:
  assumes "mgrs w m = Some sm" and "\<not> mt sm" and "\<And>b. f (sm\<lparr>mt := b\<rparr>) = (f sm)\<lparr>mt := b\<rparr>" and "\<not> mt (f sm)"
  shows "locked_update m f Inr w = Inr (put_mgr m (f sm) w)"
  using locked_update_eq [of w m sm f Inr, OF assms] by (simp add: sworld_simps put_mgr_def)

section \<open>Changes that keep the invariant\<close>

text \<open>A change of the manager \<open>m\<close>, its object or its parameters.\<close>

lemma sinv_change:
  assumes inv: "sinv ok prefix ms w" and m: "m \<in> set ms" and q: "port_of w m = Some (sm, x, r)"
    and w': "mgrs w' = (mgrs w)(m \<mapsto> sm')" "sers w' = (sers w)(sm_t sm \<mapsto> x')" "rtus w' = (rtus w)(backend_data x \<mapsto> r')"
      "nodes w' = nodes w" "g_mangers w' = g_mangers w"
    and same: "sm_t sm' = sm_t sm" "backend_data x' = backend_data x" "device r' = device r"
    and f: "ok (is_open x') r'" "1 \<le> refcount sm'" "0 \<le> opencount sm'" "0 < opencount sm' \<Longrightarrow> is_open x'"
  shows "sinv ok prefix ms w' \<and> port_of w' m = Some (sm', x', r') \<and>
    (\<forall>m' \<in> set ms - {m}. port_of w' m' = port_of w m')"
proof -
  have p: "pinv ok prefix ms w" using inv by (simp add: sinv_def)
  obtain sm1 x1 r1 where "port_of w m = Some (sm1, x1, r1)" "fine ok prefix (sm1, x1, r1)"
    using pinv_port [OF p m] by blast
  then have fin: "fine ok prefix (sm', x', r')" using q same f by (simp add: fine_def)
  have q': "port_of w' m = Some (sm', x', r')" using w' same by (simp add: port_of_Some)
  have others: "port_of w' m' = port_of w m'" if "m' \<in> set ms" "m' \<noteq> m" for m'
    by (rule port_of_frame [OF p m q that w'(1-3)])
  have "pinv ok prefix ms w'" by (rule pinv_step [OF p m q w'(4) q' fin same others])
  then show ?thesis using inv w' q' others by (simp add: sinv_def finite_used)
qed

text \<open>The same for a step of the backend followed by a change of the manager.\<close>

lemma sinv_port_step:
  assumes inv: "sinv ok prefix ms w" and m: "m \<in> set ms" and q: "port_of w m = Some (sm, x, r)"
    and st: "port_step ok (sm_t sm) w w'"
    and w2: "mgrs w2 = (mgrs w')(m \<mapsto> sm')" "sers w2 = sers w'" "rtus w2 = rtus w'" "nodes w2 = nodes w'"
      "g_mangers w2 = g_mangers w'"
    and f: "sm_t sm' = sm_t sm" "1 \<le> refcount sm'" "0 \<le> opencount sm'" "0 < opencount sm' \<Longrightarrow> opened (sm_t sm) w'"
  shows "\<exists>x' r'. sinv ok prefix ms w2 \<and> port_of w2 m = Some (sm', x', r') \<and> share_mode x' = share_mode x \<and>
    (is_open x' \<longleftrightarrow> opened (sm_t sm) w2) \<and> serial_rtu.truncate r' = serial_rtu.truncate r \<and>
    (\<forall>m' \<in> set ms - {m}. port_of w2 m' = port_of w m')"
proof -
  obtain x' r' where s: "sers w' = (sers w)(sm_t sm \<mapsto> x')" "rtus w' = (rtus w)(backend_data x \<mapsto> r')"
      "mgrs w' = mgrs w" "nodes w' = nodes w" "g_mangers w' = g_mangers w" "backend_data x' = backend_data x"
      "share_mode x' = share_mode x" "serial_rtu.truncate r' = serial_rtu.truncate r" "ok (is_open x') r'"
    using st q by (auto simp: port_step_def port_of_Some)
  have "opened (sm_t sm) w' = is_open x'" "opened (sm_t sm) w2 = is_open x'" using s(1) w2(2) by (simp_all add: opened_def)
  moreover have "sinv ok prefix ms w2 \<and> port_of w2 m = Some (sm', x', r') \<and>
    (\<forall>m' \<in> set ms - {m}. port_of w2 m' = port_of w m')"
    by (rule sinv_change [OF inv m q]) (use s w2 f \<open>opened (sm_t sm) w' = is_open x'\<close> truncate_device [OF s(8)] in simp_all)
  ultimately show ?thesis using s(7,8) by blast
qed

text \<open>The operations on an object, seen from its manager: counters, then the other managers.\<close>

definition others_same :: "addr list \<Rightarrow> addr \<Rightarrow> ('x, 'o) sworld \<Rightarrow> ('x, 'o) sworld \<Rightarrow> bool" where
  "others_same ms m w w' \<longleftrightarrow> (\<forall>m' \<in> set ms - {m}. port_of w' m' = port_of w m')"

text \<open>The manager \<open>sm'\<close> after an operation, with the object it had and the same parameters.\<close>

definition now_port :: "addr \<Rightarrow> serial_manger \<Rightarrow> serial \<Rightarrow> 'x serial_rtu_scheme \<Rightarrow> ('x, 'o) sworld \<Rightarrow> bool" where
  "now_port m sm' x r w' \<longleftrightarrow>
     (\<exists>x' r'. port_of w' m = Some (sm', x', r') \<and> share_mode x' = share_mode x \<and>
        serial_rtu.truncate r' = serial_rtu.truncate r)"

lemma now_port_step:
  assumes "sinv ok prefix ms w" and "m \<in> set ms" and "port_of w m = Some (sm, x, r)"
    and "port_step ok (sm_t sm) w w'"
    and "mgrs w2 = (mgrs w')(m \<mapsto> sm')" "sers w2 = sers w'" "rtus w2 = rtus w'" "nodes w2 = nodes w'"
      "g_mangers w2 = g_mangers w'"
    and "sm_t sm' = sm_t sm" "1 \<le> refcount sm'" "0 \<le> opencount sm'" "0 < opencount sm' \<Longrightarrow> opened (sm_t sm) w'"
  shows "sinv ok prefix ms w2 \<and> now_port m sm' x r w2 \<and> others_same ms m w w2"
  using sinv_port_step [OF assms(1-9) assms(10-13)] by (auto simp: now_port_def others_same_def)

lemma sinv_port:
  assumes "sinv ok prefix ms w" and "m \<in> set ms" and "port_of w m = Some (sm, x, r)"
  shows "mgrs w m = Some sm" "sers w (sm_t sm) = Some x" "rtus w (backend_data x) = Some r" "ok (is_open x) r"
    "sm_t sm \<noteq> NULL" "1 \<le> refcount sm" "0 \<le> opencount sm" "0 < opencount sm \<Longrightarrow> is_open x"
    "find_mgr (sm_t sm) w = Inr (Some m)"
proof -
  have p: "pinv ok prefix ms w" using assms(1) by (simp add: sinv_def)
  obtain sm1 x1 r1 where q: "port_of w m = Some (sm1, x1, r1)" "fine ok prefix (sm1, x1, r1)"
    using pinv_port [OF p assms(2)] by blast
  then show "mgrs w m = Some sm" "sers w (sm_t sm) = Some x" "rtus w (backend_data x) = Some r" "ok (is_open x) r"
    "sm_t sm \<noteq> NULL" "1 \<le> refcount sm" "0 \<le> opencount sm" "0 < opencount sm \<Longrightarrow> is_open x"
    using assms(3) by (auto simp: fine_def port_of_Some)
  show "find_mgr (sm_t sm) w = Inr (Some m)" by (rule find_mgr_port [OF p assms(2,3)])
qed

section \<open>The operations on an object\<close>

context serial_platform
begin

text \<open>What \<open>count_open\<close> does: the counter, and the object is marked open.\<close>

lemma count_open_eq:
  assumes "mgrs w m = Some sm" and "\<not> mt sm" and "sers w c = Some x"
  shows "count_open m c w =
    Inr (put_mgr m (sm\<lparr>opencount := opencount sm + 1\<rparr>) (put_ser c (x\<lparr>is_open := True\<rparr>) w))"
proof -
  let ?f = "\<lambda>sm. sm\<lparr>opencount := opencount sm + 1\<rparr>"
  have "set_is_open c (put_mgr m ((?f sm)\<lparr>mt := True\<rparr>) w) =
      Inr (put_ser c (x\<lparr>is_open := True\<rparr>) (put_mgr m ((?f sm)\<lparr>mt := True\<rparr>) w))"
    using assms by (simp add: set_is_open_def sworld_simps)
  then have "locked_update m ?f (set_is_open c) w =
      Inr (put_mgr m (?f sm) (put_ser c (x\<lparr>is_open := True\<rparr>) (put_mgr m ((?f sm)\<lparr>mt := True\<rparr>) w)))"
    by (intro locked_update_eq) (use assms in \<open>simp_all add: sworld_simps\<close>)
  then show ?thesis by (simp add: count_open_def put_mgr_def put_ser_def)
qed

text \<open>Where nobody has the port open, opening is a call of the backend; so is the last close.\<close>

lemma open_first:
  assumes "find_mgr c w = Inr (Some m)" and "mgrs w m = Some sm" and "opencount sm = 0" and "\<not> mt sm"
    and "bopen (backend (P e)) c w = Inr (n, w1)" and "mgrs w1 = mgrs w" and "sers w1 c = Some x1"
  shows "serial_open (P e) c w =
    (if n = 0 then Inr (0, put_mgr m (sm\<lparr>opencount := opencount sm + 1\<rparr>) (put_ser c (x1\<lparr>is_open := True\<rparr>) w1)) else Inr (-1, w1))"
  using assms by (simp add: serial_open_def count_open_eq)

lemma close_run:
  assumes "find_mgr c w = Inr (Some m)" and "mgrs w m = Some sm" and "0 \<le> opencount sm" and "\<not> mt sm"
  defines "w1 \<equiv> put_mgr m (sm\<lparr>opencount := max 0 (opencount sm - 1)\<rparr>) w"
  shows "serial_close (P e) c w =
    (if opencount sm \<le> 1 then bclose (backend (P e)) c w1 else Inr (0, w1))"
proof -
  have "(if opencount sm > 0 then locked_update m (\<lambda>sm. sm\<lparr>opencount := opencount sm - 1\<rparr>) Inr w else Inr w) = Inr w1"
  proof (cases "opencount sm > 0")
    case True
    then show ?thesis using locked_count [of w m sm "\<lambda>sm. sm\<lparr>opencount := opencount sm - 1\<rparr>"] assms(2,4)
      by (simp add: w1_def max_absorb2)
  next
    case False
    then have "sm\<lparr>opencount := max 0 (opencount sm - 1)\<rparr> = sm" using assms(3) by (cases sm) simp
    then have "w1 = w" using assms(2) by (simp add: w1_def put_mgr_def fun_upd_idem)
    with False show ?thesis by simp
  qed
  moreover have "mgrs w1 m = Some (sm\<lparr>opencount := max 0 (opencount sm - 1)\<rparr>)" by (simp add: w1_def sworld_simps)
  moreover have "max 0 (opencount sm - 1) = 0 \<longleftrightarrow> opencount sm \<le> 1" by linarith
  ultimately show ?thesis using assms(1,2) by (simp add: serial_close_def)
qed

text \<open>Where the port is open, counting one more open keeps the invariant.\<close>

lemma count_open_spec:
  assumes inv: "sinv ok (dev_prefix (P e)) ms w" and m: "m \<in> set ms" and q: "port_of w m = Some (sm, x, r)" and mt: "\<not> mt sm"
    and st: "port_step ok (sm_t sm) w w1" and op: "opened (sm_t sm) w1"
  shows "\<exists>w'. count_open m (sm_t sm) w1 = Inr w' \<and> sinv ok (dev_prefix (P e)) ms w' \<and>
    now_port m (sm\<lparr>opencount := opencount sm + 1\<rparr>) x r w' \<and> others_same ms m w w' \<and> opened (sm_t sm) w' \<and> tty w' = tty w1"
proof -
  note p = sinv_port [OF inv m q]
  let ?sm = "sm\<lparr>opencount := opencount sm + 1\<rparr>"
  have fr: "mgrs w1 = mgrs w" using st by (rule port_stepE)
  obtain x1 where x1: "sers w1 (sm_t sm) = Some x1" "is_open x1" using op by (auto simp: opened_def)
  let ?w = "put_mgr m ?sm (put_ser (sm_t sm) (x1\<lparr>is_open := True\<rparr>) w1)"
  have "x1\<lparr>is_open := True\<rparr> = x1" using x1(2) by (cases x1) simp
  then have w: "sers ?w = sers w1" using x1(1) by (simp add: sworld_simps fun_upd_idem)
  have "sinv ok (dev_prefix (P e)) ms ?w \<and> now_port m ?sm x r ?w \<and> others_same ms m w ?w"
    by (rule now_port_step [OF inv m q st]) (use w p(6,7) op in \<open>auto simp: sworld_simps\<close>)
  moreover have "count_open m (sm_t sm) w1 = Inr ?w" by (rule count_open_eq) (use fr p(1) mt x1(1) in simp_all)
  ultimately show ?thesis by (intro exI [of _ ?w]) (simp add: opened_def sworld_simps)
qed

lemma open_again:
  assumes inv: "sinv ok (dev_prefix (P e)) ms w" and m: "m \<in> set ms" and q: "port_of w m = Some (sm, x, r)"
    and mt: "\<not> mt sm" and pos: "0 < opencount sm"
  shows "\<exists>w'. serial_open (P e) (sm_t sm) w = Inr (0, w') \<and> sinv ok (dev_prefix (P e)) ms w' \<and>
    now_port m (sm\<lparr>opencount := opencount sm + 1\<rparr>) x r w' \<and> others_same ms m w w' \<and> opened (sm_t sm) w' \<and> tty w' = tty w"
proof -
  note p = sinv_port [OF inv m q]
  have "opened (sm_t sm) w" using p(2) p(8) [OF pos] by (simp add: opened_def)
  from count_open_spec [OF inv m q mt port_step_refl [where ok = ok, OF p(2-4)] this] show ?thesis
    using p(1,9) pos by (auto simp: serial_open_def)
qed

lemma open_spec:
  assumes S: "calls_ok e" and inv: "sinv ok (dev_prefix (P e)) ms w" and m: "m \<in> set ms"
    and q: "port_of w m = Some (sm, x, r)" and mt: "\<not> mt sm"
  shows "\<exists>n w'. serial_open (P e) (sm_t sm) w = Inr (n, w') \<and> sinv ok (dev_prefix (P e)) ms w' \<and>
    now_port m (if n = 0 then sm\<lparr>opencount := opencount sm + 1\<rparr> else sm) x r w' \<and>
    others_same ms m w w' \<and> (n = 0 \<or> n = -1 \<and> opencount sm = 0) \<and> (opened (sm_t sm) w' \<longleftrightarrow> n = 0) \<and>
    (0 < opencount sm \<longrightarrow> n = 0 \<and> tty w' = tty w)"
proof (cases "0 < opencount sm")
  case True
  from open_again [OF inv m q mt this] show ?thesis by fastforce
next
  case False
  note p = sinv_port [OF inv m q]
  have zero: "opencount sm = 0" using False p(7) by simp
  obtain n w1 where w1: "bopen (backend (P e)) (sm_t sm) w = Inr (n, w1)" "port_step ok (sm_t sm) w w1" "n = 0 \<or> n = -1"
    "n = 0 \<longleftrightarrow> opened (sm_t sm) w1" using open_law [OF S p(2-4)] by blast
  show ?thesis
  proof (cases "n = 0")
    case True
    with w1(4) have "opened (sm_t sm) w1" by simp
    from count_open_spec [OF inv m q mt w1(2) this] obtain w' where "count_open m (sm_t sm) w1 = Inr w'"
      "sinv ok (dev_prefix (P e)) ms w'" "now_port m (sm\<lparr>opencount := opencount sm + 1\<rparr>) x r w'" "others_same ms m w w'"
      "opened (sm_t sm) w'" by blast
    then show ?thesis using p(1,9) zero w1(1) True by (intro exI [of _ 0] exI [of _ w']) (simp add: serial_open_def)
  next
    case n: False
    have fr: "mgrs w1 = mgrs w" using w1(2) by (rule port_stepE)
    have "sinv ok (dev_prefix (P e)) ms w1 \<and> now_port m sm x r w1 \<and> others_same ms m w w1"
      by (rule now_port_step [OF inv m q w1(2)]) (use fr p zero in \<open>simp_all add: fun_upd_idem\<close>)
    moreover have "serial_open (P e) (sm_t sm) w = Inr (-1, w1)"
      using p zero w1(1) n by (simp add: serial_open_def)
    ultimately show ?thesis using zero n w1(4) by (intro exI [of _ "-1"] exI [of _ w1]) simp
  qed
qed

lemma close_spec:
  assumes S: "calls_ok e" and inv: "sinv ok (dev_prefix (P e)) ms w" and m: "m \<in> set ms"
    and q: "port_of w m = Some (sm, x, r)" and mt: "\<not> mt sm"
  shows "\<exists>n w'. serial_close (P e) (sm_t sm) w = Inr (n, w') \<and> sinv ok (dev_prefix (P e)) ms w' \<and>
    now_port m (sm\<lparr>opencount := max 0 (opencount sm - 1)\<rparr>) x r w' \<and> others_same ms m w w' \<and>
    (if 1 < opencount sm then n = 0 \<and> opened (sm_t sm) w' \<and> tty w' = tty w
     else n = 0 \<and> \<not> opened (sm_t sm) w' \<or> n = -1 \<and> (opened (sm_t sm) w' \<longleftrightarrow> opened (sm_t sm) w))"
proof -
  note p = sinv_port [OF inv m q]
  let ?sm = "sm\<lparr>opencount := max 0 (opencount sm - 1)\<rparr>"
  define w1 where "w1 = put_mgr m ?sm w"
  have w1: "mgrs w1 = (mgrs w)(m \<mapsto> ?sm)" "sers w1 = sers w" "rtus w1 = rtus w" "nodes w1 = nodes w"
    "g_mangers w1 = g_mangers w" "tty w1 = tty w" by (simp_all add: w1_def sworld_simps)
  have run: "serial_close (P e) (sm_t sm) w =
      (if opencount sm \<le> 1 then bclose (backend (P e)) (sm_t sm) w1 else Inr (0, w1))"
    unfolding w1_def by (rule close_run) (use p mt in simp_all)
  have op: "opened (sm_t sm) w' \<longleftrightarrow> is_open x" if "sers w' = sers w" for w' :: "('x, 'o) sworld"
    using that p(2) by (simp add: opened_def)
  show ?thesis
  proof (cases "1 < opencount sm")
    case True
    have "sinv ok (dev_prefix (P e)) ms w1 \<and> now_port m ?sm x r w1 \<and> others_same ms m w w1"
      by (rule now_port_step [OF inv m q port_step_refl [where ok = ok, OF p(2-4)]]) (use w1 p op in auto)
    then show ?thesis using True run p(8) op [OF w1(2)] w1(6) by (intro exI [of _ 0] exI [of _ w1]) simp
  next
    case False
    then have zero: "max 0 (opencount sm - 1) = 0" by simp
    have c: "sers w1 (sm_t sm) = Some x" "rtus w1 (backend_data x) = Some r" using p w1 by simp_all
    obtain n w2 where w2: "bclose (backend (P e)) (sm_t sm) w1 = Inr (n, w2)" "port_step ok (sm_t sm) w1 w2"
      "n = 0 \<and> \<not> opened (sm_t sm) w2 \<or> n = -1 \<and> (opened (sm_t sm) w2 \<longleftrightarrow> opened (sm_t sm) w1)"
      using close_law [OF S c p(4)] by blast
    obtain x2 r2 where x2: "sers w2 = (sers w)(sm_t sm \<mapsto> x2)" "rtus w2 = (rtus w)(backend_data x \<mapsto> r2)"
      "mgrs w2 = mgrs w1" "nodes w2 = nodes w" "g_mangers w2 = g_mangers w" "backend_data x2 = backend_data x"
      "share_mode x2 = share_mode x" "serial_rtu.truncate r2 = serial_rtu.truncate r" "ok (is_open x2) r2"
      using w2(2) c w1 by (auto elim!: port_stepE)
    have "sinv ok (dev_prefix (P e)) ms w2 \<and> port_of w2 m = Some (?sm, x2, r2) \<and>
        (\<forall>m' \<in> set ms - {m}. port_of w2 m' = port_of w m')"
      by (rule sinv_change [OF inv m q]) (use x2 w1 p zero truncate_device [OF x2(8)] in simp_all)
    then have "sinv ok (dev_prefix (P e)) ms w2 \<and> now_port m ?sm x r w2 \<and> others_same ms m w w2"
      using x2(7,8) by (simp add: now_port_def others_same_def)
    then show ?thesis using False run zero w2(1,3) op [OF w1(2)] op [OF refl]
      by (intro exI [of _ n] exI [of _ w2]) simp
  qed
qed

text \<open>The backend's \<open>read\<close>, \<open>write\<close> and \<open>clean\<close> leave the manager as it is.\<close>

lemma backend_step:
  assumes inv: "sinv ok (dev_prefix (P e)) ms w" and m: "m \<in> set ms" and q: "port_of w m = Some (sm, x, r)"
    and st: "port_step ok (sm_t sm) w w'" and op: "opened (sm_t sm) w' \<longleftrightarrow> opened (sm_t sm) w"
  shows "sinv ok (dev_prefix (P e)) ms w' \<and> now_port m sm x r w' \<and> others_same ms m w w'"
proof -
  note p = sinv_port [OF inv m q]
  have fr: "mgrs w' = mgrs w" using st by (rule port_stepE)
  show ?thesis
    by (rule now_port_step [OF inv m q st]) (use fr p op in \<open>simp_all add: fun_upd_idem opened_def\<close>)
qed

lemma read_spec:
  assumes S: "calls_ok e" and inv: "sinv ok (dev_prefix (P e)) ms w" and m: "m \<in> set ms"
    and q: "port_of w m = Some (sm, x, r)" and len: "0 \<le> len" "len \<le> int (length buf)" "len < 2 ^ 31"
  shows "\<exists>n buf' w'. serial_read (P e) (sm_t sm) buf len mtimeout w = Inr (n, buf', w') \<and>
    sinv ok (dev_prefix (P e)) ms w' \<and> now_port m sm x r w' \<and> others_same ms m w w' \<and>
    length buf' = length buf \<and> (n = -1 \<or> 0 \<le> n \<and> n \<le> len)"
proof -
  note p = sinv_port [OF inv m q]
  obtain n buf' w' where w': "bread (backend (P e)) (sm_t sm) buf len mtimeout w = Inr (n, buf', w')"
    "port_step ok (sm_t sm) w w'" "opened (sm_t sm) w' \<longleftrightarrow> opened (sm_t sm) w" "length buf' = length buf" "n = -1 \<or> 0 \<le> n \<and> n \<le> len"
    using read_law [OF S p(2-4) len] by blast
  show ?thesis using backend_step [OF inv m q w'(2,3)] w' p(9) by (simp add: serial_read_def)
qed

lemma write_spec:
  assumes S: "calls_ok e" and inv: "sinv ok (dev_prefix (P e)) ms w" and m: "m \<in> set ms"
    and q: "port_of w m = Some (sm, x, r)" and len: "0 \<le> len" "len \<le> int (length buf)" "len < 2 ^ 31"
  shows "\<exists>n w'. serial_write (P e) (sm_t sm) buf len mtimeout w = Inr (n, w') \<and>
    sinv ok (dev_prefix (P e)) ms w' \<and> now_port m sm x r w' \<and> others_same ms m w w'"
proof -
  note p = sinv_port [OF inv m q]
  obtain n w' where w': "bwrite (backend (P e)) (sm_t sm) buf len mtimeout w = Inr (n, w')"
    "port_step ok (sm_t sm) w w'" "opened (sm_t sm) w' \<longleftrightarrow> opened (sm_t sm) w"
    using write_law [OF S p(2-4) len] by blast
  show ?thesis using backend_step [OF inv m q w'(2,3)] w'(1) p(9) by (simp add: serial_write_def)
qed

lemma clean_spec:
  assumes S: "calls_ok e" and inv: "sinv ok (dev_prefix (P e)) ms w" and m: "m \<in> set ms"
    and q: "port_of w m = Some (sm, x, r)"
  shows "\<exists>n w'. serial_clean (P e) (sm_t sm) w = Inr (n, w') \<and>
    sinv ok (dev_prefix (P e)) ms w' \<and> now_port m sm x r w' \<and> others_same ms m w w'"
proof -
  note p = sinv_port [OF inv m q]
  obtain n w' where w': "bclean (backend (P e)) (sm_t sm) w = Inr (n, w')"
    "port_step ok (sm_t sm) w w'" "opened (sm_t sm) w' \<longleftrightarrow> opened (sm_t sm) w"
    using clean_law [OF S p(2-4)] by blast
  show ?thesis using backend_step [OF inv m q w'(2,3)] w'(1) p(9) by (simp add: serial_clean_def)
qed

end

end
