(* ===== verification/Serial_New.thy ===== *)
theory Serial_New
  imports Serial_Ops
begin

text \<open>
  Creating, sharing and destroying the objects of \<open>serial_port.c\<close>: how the list of managers grows
  and shrinks.
\<close>

section \<open>The global mutex\<close>

lemma global_port [simp]: "port_of (w\<lparr>g_mangers := b\<rparr>) m = port_of w m"
  by (simp add: port_of_def split: option.split)

lemma global_dev [simp]: "dev_of (w\<lparr>g_mangers := b\<rparr>) m = dev_of w m"
  by (simp add: dev_of_def)

lemma global_pinv [simp]: "pinv ok prefix ms (w\<lparr>g_mangers := b\<rparr>) = pinv ok prefix ms w"
  by (simp add: pinv_def)

lemma global_reset: "\<not> g_mangers w \<Longrightarrow> w\<lparr>g_mangers := False\<rparr> = w"
  by (cases w) simp

lemma sinv_lock:
  assumes "sinv ok prefix ms w"
  shows "lock_global w = Inr (w\<lparr>g_mangers := True\<rparr>)" "pinv ok prefix ms (w\<lparr>g_mangers := True\<rparr>)"
    "w\<lparr>g_mangers := False\<rparr> = w"
  using assms by (simp_all add: sinv_def lock_global_def global_reset)

section \<open>Growing and shrinking the list\<close>

lemma apart_sym: "apart q q' \<Longrightarrow> apart q' q"
  by (auto simp: apart_def)

lemma pinv_add:
  assumes inv: "pinv ok prefix ms w" and r: "ring (nodes w') serial_mangers (m # ms)"
    and old: "\<And>m'. m' \<in> set ms \<Longrightarrow> port_of w' m' = port_of w m'"
    and q: "port_of w' m = Some q" "fine ok prefix q"
    and a: "\<And>m' q'. m' \<in> set ms \<Longrightarrow> port_of w m' = Some q' \<Longrightarrow> apart q q'"
  shows "pinv ok prefix (m # ms) w'"
proof -
  have "\<exists>q. port_of w' x = Some q \<and> fine ok prefix q" if "x \<in> set (m # ms)" for x
    using that q old [of x] inv by (cases "x = m") (auto simp: pinv_def)
  moreover have "apart p p'" if p: "x \<in> set (m # ms)" "y \<in> set (m # ms)" "x \<noteq> y"
      "port_of w' x = Some p" "port_of w' y = Some p'" for x y p p'
  proof -
    consider "x = m" "y \<in> set ms" | "y = m" "x \<in> set ms" | "x \<in> set ms" "y \<in> set ms" using p(1-3) by auto
    then show ?thesis
    proof cases
      case 1
      then show ?thesis using a [of y p'] old [of y] p(4,5) q(1) by simp
    next
      case 2
      then show ?thesis using apart_sym a [of x p] old [of x] p(4,5) q(1) by simp
    next
      case 3
      then show ?thesis using pinv_apart [OF inv 3 p(3)] old p(4,5) by simp
    qed
  qed
  ultimately show ?thesis using r unfolding pinv_def by blast
qed

lemma pinv_remove:
  assumes inv: "pinv ok prefix ms w" and r: "ring (nodes w') serial_mangers (remove1 m ms)"
    and old: "\<And>m'. m' \<in> set ms \<Longrightarrow> m' \<noteq> m \<Longrightarrow> port_of w' m' = port_of w m'"
  shows "pinv ok prefix (remove1 m ms) w'"
proof -
  have d: "distinct ms" using ring_distinct [OF pinv_ring [OF inv]] by simp
  then have s: "set (remove1 m ms) = set ms - {m}" by (rule set_remove1_eq)
  have "\<exists>q. port_of w' x = Some q \<and> fine ok prefix q" if "x \<in> set ms - {m}" for x
    using that old [of x] inv by (auto simp: pinv_def)
  moreover have "apart p p'" if "x \<in> set ms - {m}" "y \<in> set ms - {m}" "x \<noteq> y"
      "port_of w' x = Some p" "port_of w' y = Some p'" for x y p p'
    using that old [of x] old [of y] pinv_apart [OF inv, of x y p p'] by simp
  ultimately show ?thesis using r unfolding pinv_def s by blast
qed

section \<open>Destroying\<close>

context serial_platform
begin

text \<open>The last reference: the manager leaves the list, and all three blocks are freed.\<close>

lemma destory_last:
  assumes S: "calls_ok e" and inv: "sinv ok (dev_prefix (P e)) ms w" and m: "m \<in> set ms" and q: "port_of w m = Some (sm, x, r)"
    and w1: "mgrs w1 = (mgrs w)(m \<mapsto> sm')" "sers w1 = sers w" "rtus w1 = rtus w" "nodes w1 = nodes w" "g_mangers w1"
  shows "\<exists>w'. bnd (list_del m (nodes w1)) (\<lambda>h.
      bnd (bdestory (backend (P e)) (sm_t sm) (w1\<lparr>nodes := h\<rparr>)) (\<lambda>w.
      unlock_global (w\<lparr>mgrs := (mgrs w)(m := None), nodes := (nodes w)(m := None)\<rparr>))) = Inr w' \<and>
    others_same ms m w w' \<and> sinv ok (dev_prefix (P e)) (remove1 m ms) w' \<and> sers w' = (sers w)(sm_t sm := None) \<and>
    rtus w' = (rtus w)(backend_data x := None) \<and> mgrs w' = (mgrs w)(m := None) \<and> dom (nodes w') = dom (nodes w) - {m}"
proof -
  note p = sinv_port [OF inv m q]
  have pin: "pinv ok (dev_prefix (P e)) ms w" using inv by (simp add: sinv_def)
  obtain h where h: "list_del m (nodes w) = Inr h" "ring h serial_mangers (remove1 m ms)"
    "same_off (set (serial_mangers # ms)) (nodes w) h"
    using list_del_ring [OF pinv_ring [OF pin] m] by blast
  have c: "sers (w1\<lparr>nodes := h\<rparr>) (sm_t sm) = Some x" "rtus (w1\<lparr>nodes := h\<rparr>) (backend_data x) = Some r"
    using p w1 by simp_all
  obtain w2 where w2: "bdestory (backend (P e)) (sm_t sm) (w1\<lparr>nodes := h\<rparr>) = Inr w2" "removed (sm_t sm) x (w1\<lparr>nodes := h\<rparr>) w2"
    using destory_law [OF S c p(4)] by blast
  define w3 where "w3 = w2\<lparr>mgrs := (mgrs w2)(m := None), nodes := (nodes w2)(m := None), g_mangers := False\<rparr>"
  have fields: "sers w3 = (sers w)(sm_t sm := None)" "rtus w3 = (rtus w)(backend_data x := None)"
    "mgrs w3 = (mgrs w)(m := None)" "nodes w3 = h(m := None)" "\<not> g_mangers w3" "g_mangers w2"
    using w2(2) w1 by (auto simp: removed_def w3_def)
  have old: "port_of w3 m' = port_of w m'" if "m' \<in> set ms" "m' \<noteq> m" for m'
    by (rule port_of_frame [OF pin m q that fields(3,1,2)])
  have notin: "m \<notin> set (serial_mangers # remove1 m ms)" using ring_distinct [OF pinv_ring [OF pin]] m by auto
  have "ring (nodes w3) serial_mangers (remove1 m ms)"
    unfolding fields(4) by (rule ring_cong [OF h(2)]) (use notin in auto)
  then have "sinv ok (dev_prefix (P e)) (remove1 m ms) w3"
    using pinv_remove [OF pin _ old, of m] fields inv same_off_dom [OF h(3)] by (simp add: sinv_def finite_used)
  then show ?thesis using old fields h(1) w2(1) w1(4) same_off_dom [OF h(3)]
    by (intro exI [of _ w3]) (simp add: others_same_def unlock_global_def w3_def)
qed

lemma destory_spec:
  assumes S: "calls_ok e" and inv: "sinv ok (dev_prefix (P e)) ms w" and m: "m \<in> set ms"
    and q: "port_of w m = Some (sm, x, r)" and mt: "\<not> mt sm"
  shows "\<exists>w'. serial_destory (P e) (sm_t sm) w = Inr w' \<and> others_same ms m w w' \<and>
    (if 1 < refcount sm
     then sinv ok (dev_prefix (P e)) ms w' \<and> port_of w' m = Some (sm\<lparr>refcount := refcount sm - 1\<rparr>, x, r) \<and> tty w' = tty w
     else sinv ok (dev_prefix (P e)) (remove1 m ms) w' \<and> sers w' = (sers w)(sm_t sm := None) \<and>
       rtus w' = (rtus w)(backend_data x := None) \<and> mgrs w' = (mgrs w)(m := None) \<and> dom (nodes w') = dom (nodes w) - {m})"
proof -
  note p = sinv_port [OF inv m q] and g = sinv_lock [OF inv]
  have gw: "\<not> g_mangers w" using inv by (simp add: sinv_def)
  let ?sm = "sm\<lparr>refcount := refcount sm - 1\<rparr>" and ?wg = "w\<lparr>g_mangers := True\<rparr>"
  define w1 where "w1 = put_mgr m ?sm ?wg"
  have w1: "mgrs w1 = (mgrs w)(m \<mapsto> ?sm)" "sers w1 = sers w" "rtus w1 = rtus w" "nodes w1 = nodes w"
    "g_mangers w1" "tty w1 = tty w" by (simp_all add: w1_def sworld_simps)
  have fm: "find_mgr (sm_t sm) ?wg = Inr (Some m)" by (rule find_mgr_port [OF g(2) m]) (use q in simp)
  have "locked_update m (\<lambda>sm. sm\<lparr>refcount := refcount sm - 1\<rparr>) Inr ?wg = Inr w1"
    using locked_count [of ?wg m sm "\<lambda>sm. sm\<lparr>refcount := refcount sm - 1\<rparr>"] p(1) mt by (simp add: w1_def)
  then have run: "serial_destory (P e) (sm_t sm) w =
      (if refcount sm = 1 then
         bnd (list_del m (nodes w1)) (\<lambda>h.
         bnd (bdestory (backend (P e)) (sm_t sm) (w1\<lparr>nodes := h\<rparr>)) (\<lambda>w.
         unlock_global (w\<lparr>mgrs := (mgrs w)(m := None), nodes := (nodes w)(m := None)\<rparr>)))
       else unlock_global w1)"
    using p(1,5,6) g(1) fm w1(1) by (simp add: serial_destory_def)
  show ?thesis
  proof (cases "1 < refcount sm")
    case True
    let ?w = "w1\<lparr>g_mangers := False\<rparr>"
    have "sinv ok (dev_prefix (P e)) ms ?w \<and> port_of ?w m = Some (?sm, x, r) \<and>
        (\<forall>m' \<in> set ms - {m}. port_of ?w m' = port_of w m')"
      by (rule sinv_change [OF inv m q])
        (use w1 p gw True in \<open>simp_all add: fun_upd_idem\<close>)
    then show ?thesis using True run w1(5,6) by (intro exI [of _ ?w]) (simp add: others_same_def unlock_global_def)
  next
    case False
    then have "refcount sm = 1" using p(6) by simp
    then show ?thesis using destory_last [OF S inv m q w1(1-5)] run by auto
  qed
qed

end

section \<open>Creating\<close>

definition memory :: "('x, 'o) platform \<Rightarrow> bool" where
  "memory P \<longleftrightarrow> (\<forall>A o1. finite A \<longrightarrow> fst (pmalloc P A o1) \<noteq> None)"

context serial_platform
begin

lemma malloc_eq:
  assumes "calls_ok e" and "memory (P e)" and "finite (used w)"
  obtains a o1 where "malloc (P e) w = Inr (a, w\<lparr>tty := o1\<rparr>)" "a \<notin> used w" "a \<noteq> NULL"
proof -
  obtain a o1 where "pmalloc (P e) (used w) (tty w) = (Some a, o1)"
    using assms(2,3) unfolding memory_def by (metis not_None_eq prod.collapse)
  then show thesis using malloc_law [OF assms(1)] by (intro that [of a o1]) (auto simp: malloc_def)
qed

lemma to_device_devname: "to_device (devname (dev_prefix (P e)) index) = Inr (devname (dev_prefix (P e)) index)"
  using length_devname [of "dev_prefix (P e)" index] prefix_law [of e] by (simp add: to_device_def DEVICE_SIZE_def)

text \<open>For a device that has a manager: shared, or refused without a change.\<close>

lemma new_shares:
  assumes inv: "sinv ok (dev_prefix (P e)) ms w" and m: "m \<in> set ms"
    and q: "port_of w m = Some (sm, x, r)" and mt: "\<not> mt sm" and d: "device r = devname (dev_prefix (P e)) index"
  shows "\<exists>w'. serial_new (P e) index b p d st share w =
      (if share = 0 \<or> share_mode x = 0 \<or> \<not> same_params r b p d st then Inr (NULL, w) else Inr (sm_t sm, w')) \<and>
    sinv ok (dev_prefix (P e)) ms w' \<and> w' = put_mgr m (sm\<lparr>refcount := refcount sm + 1\<rparr>) w"
proof -
  note p = sinv_port [OF inv m q] and g = sinv_lock [OF inv]
  let ?sm = "sm\<lparr>refcount := refcount sm + 1\<rparr>" and ?wg = "w\<lparr>g_mangers := True\<rparr>"
  have "dev_of ?wg m = devname (dev_prefix (P e)) index" using q d by (simp add: dev_of_def)
  then have fs: "find_serial (devname (dev_prefix (P e)) index) ?wg = Inr (Some m)"
    using find_serial_ring [OF g(2)] find_dev [OF g(2) m] by simp
  have lc: "locked_update m (\<lambda>sm. sm\<lparr>refcount := refcount sm + 1\<rparr>) Inr ?wg = Inr (put_mgr m ?sm ?wg)"
    using locked_count [of ?wg m sm "\<lambda>sm. sm\<lparr>refcount := refcount sm + 1\<rparr>"] p(1) mt by simp
  have un: "unlock_global ?wg = Inr w" using g(3) by (simp add: unlock_global_def)
  have "unlock_global (put_mgr m ?sm ?wg) = Inr (put_mgr m ?sm (w\<lparr>g_mangers := False\<rparr>))"
    by (simp add: unlock_global_def put_mgr_def)
  then have un2: "unlock_global (put_mgr m ?sm ?wg) = Inr (put_mgr m ?sm w)" using g(3) by simp
  have "sinv ok (dev_prefix (P e)) ms (put_mgr m ?sm w)"
    using sinv_change [OF inv m q, of "put_mgr m ?sm w" ?sm x r] p by (simp add: sworld_simps fun_upd_idem)
  then show ?thesis
    using p(1-3) g(1) fs lc un un2
    by (simp add: serial_new_def to_device_devname share_serial_def)
qed

text \<open>What \<open>add_serial\<close> does with a new block.\<close>

lemma add_serial_eq:
  assumes S: "calls_ok e" "memory (P e)" "finite (used w)" and r: "ring (nodes w) serial_mangers ms"
  obtains m o1 h where
    "add_serial (P e) c w = Inr (0, (put_mgr m \<lparr>sm_t = c, refcount = 1, opencount = 0, mt = False\<rparr> w)\<lparr>tty := o1, nodes := h\<rparr>)"
    "ring h serial_mangers (m # ms)" "m \<notin> used w" "dom h = insert m (dom (nodes w))"
proof -
  obtain m o1 where m: "malloc (P e) w = Inr (m, w\<lparr>tty := o1\<rparr>)" "m \<notin> used w" "m \<noteq> NULL" by (rule malloc_eq [OF S])
  let ?h = "(nodes w)(m \<mapsto> \<lparr>prv = 0, nxt = 0\<rparr>)"
  have notin: "m \<notin> set (serial_mangers # ms)" using m(2) ring_dom [OF r] by (auto simp: used_def)
  have r0: "ring ?h serial_mangers ms" by (rule ring_cong [OF r]) (use notin in auto)
  obtain h1 where h1: "INIT_LIST_HEAD m ?h = Inr h1" "same_off {m} ?h h1" using INIT_LIST_HEAD_in [of m ?h] by auto
  have r1: "ring h1 serial_mangers ms" by (rule ring_frame [OF r0 h1(2)]) (use notin in auto)
  have "m \<in> dom h1" using same_off_dom [OF h1(2)] by simp
  from list_add_ring [OF r1 this notin] obtain h2 where
    h2: "list_add m serial_mangers h1 = Inr h2" "ring h2 serial_mangers (m # ms)" "dom h2 = dom h1"
    using same_off_dom by blast
  show thesis
    by (rule that [of h2 o1 m]) (use m h1 h2 same_off_dom [OF h1(2)] in \<open>simp_all add: add_serial_def put_mgr_def\<close>)
qed

text \<open>The object and the parameters that \<open>create_serial\<close> makes, before the manager is added.\<close>

lemma create_run:
  assumes S: "calls_ok e" "memory (P e)" and fin: "finite (used w)" and p: "p \<in> {CHR ''N'', CHR ''E'', CHR ''O''}"
    and d: "to_device dev = Inr dev"
  obtains c a x r w1 where
    "create_serial (P e) dev b p d st share w =
       bnd (add_serial (P e) c w1) (\<lambda>(_, w). bnd (unlock_global w) (\<lambda>w. Inr (c, w)))"
    "sers w1 = (sers w)(c \<mapsto> x)" "rtus w1 = (rtus w)(a \<mapsto> r)" "mgrs w1 = mgrs w" "nodes w1 = nodes w"
    "g_mangers w1 = g_mangers w" "c \<notin> used w" "c \<noteq> NULL" "a \<notin> used w"
    "x = \<lparr>debug = 0, is_open = False, err_code = 0, share_mode = uint share, backend_data = a\<rparr>"
    "ok False r" "serial_rtu.truncate r = \<lparr>device = dev, baud = b, data_bit = d, stop_bit = st, parity = p\<rparr>"
proof -
  obtain c o1 where c: "malloc (P e) w = Inr (c, w\<lparr>tty := o1\<rparr>)" "c \<notin> used w" "c \<noteq> NULL" by (rule malloc_eq [OF S fin])
  define w1 where "w1 = put_ser c (junk_ser (P e) o1) (w\<lparr>tty := o1\<rparr>)"
  have fin1: "finite (used w1)" using fin by (simp add: w1_def finite_used sworld_simps)
  obtain a o2 where a: "malloc (P e) w1 = Inr (a, w1\<lparr>tty := o2\<rparr>)" "a \<notin> used w1" by (rule malloc_eq [OF S fin1])
  have aw: "a \<notin> used w" using a(2) by (auto simp: used_def w1_def sworld_simps)
  define r where "r = reset_rtu (P e) ((raw_rtu (P e) o2)\<lparr>device := dev, baud := b, parity := p, data_bit := d, stop_bit := st\<rparr>)"
  define x where "x = \<lparr>debug = 0, is_open = False, err_code = 0, share_mode = uint share, backend_data = a\<rparr>"
  define w2 where "w2 = w\<lparr>tty := o2, rtus := (rtus w)(a \<mapsto> r), sers := (sers w)(c \<mapsto> x)\<rparr>"
  have "(junk_ser (P e) o1)\<lparr>backend_data := a, is_open := False, err_code := 0, debug := 0, share_mode := uint share\<rparr> = x"
    by (cases "junk_ser (P e) o1") (simp add: x_def)
  then have x': "y\<lparr>is_open := False, err_code := 0, debug := 0, share_mode := uint share\<rparr> = x"
    if "y = (junk_ser (P e) o1)\<lparr>backend_data := a\<rparr>" for y using that by simp
  have "create_serial (P e) dev b p d st share w =
       bnd (add_serial (P e) c w2) (\<lambda>(_, w). bnd (unlock_global w) (\<lambda>w. Inr (c, w)))"
    using c(1) a(1) d p x'
    by (simp add: create_serial_def w1_def sworld_simps disj_commute)
      (simp add: put_ser_def put_rtu_def w2_def r_def)
  moreover have "ok False r" "serial_rtu.truncate r = \<lparr>device = dev, baud = b, data_bit = d, stop_bit = st, parity = p\<rparr>"
    unfolding r_def by (simp_all add: reset_law) (simp add: serial_rtu.defs)
  ultimately show thesis using c(2,3) aw by (intro that [of c w2 x a r]) (simp_all add: w2_def x_def)
qed

text \<open>
  A manager, its object and its parameters, all at new addresses and for a device without a
  manager, join the managers.
\<close>

lemma manager_joins:
  assumes pin: "pinv ok prefix ms w" and no: "\<forall>m \<in> set ms. dev_of w m \<noteq> device r"
    and new: "c \<notin> used w" "c \<noteq> NULL" "a \<notin> used w" "m \<notin> set ms"
    and w': "sers w' = (sers w)(c \<mapsto> x)" "rtus w' = (rtus w)(a \<mapsto> r)" "mgrs w' = (mgrs w)(m \<mapsto> sm)"
      "ring (nodes w') serial_mangers (m # ms)"
    and q: "sm_t sm = c" "backend_data x = a" "fine ok prefix (sm, x, r)"
  shows "pinv ok prefix (m # ms) w' \<and> port_of w' m = Some (sm, x, r) \<and> (\<forall>m' \<in> set ms. port_of w' m' = port_of w m')"
proof -
  have qm: "port_of w' m = Some (sm, x, r)" using w' q by (simp add: port_of_Some)
  have off: "sm_t sm' \<noteq> c \<and> backend_data y \<noteq> a \<and> device s \<noteq> device r \<and> m' \<noteq> m"
    if "m' \<in> set ms" "port_of w m' = Some (sm', y, s)" for m' sm' y s
  proof -
    have "device s = dev_of w m'" using that(2) by (simp add: dev_of_def)
    then have "device s \<noteq> device r" using no that(1) by simp
    then show ?thesis using that new by (auto simp: port_of_Some used_def)
  qed
  have old: "port_of w' m' = port_of w m'" if "m' \<in> set ms" for m'
  proof -
    obtain sm' y s where q': "port_of w m' = Some (sm', y, s)" using pinv_port [OF pin \<open>m' \<in> set ms\<close>] by blast
    with off [OF that q'] w' have "port_of w' m' = Some (sm', y, s)" by (simp add: port_of_Some)
    with q' show ?thesis by simp
  qed
  have ap: "apart (sm, x, r) q'" if "m' \<in> set ms" "port_of w m' = Some q'" for m' q'
    using off [OF that(1)] that(2) q(1,2) by (cases q') (fastforce simp: apart_def)
  have "pinv ok prefix (m # ms) w'" by (rule pinv_add [OF pin w'(4) old qm q(3) ap])
  then show ?thesis using qm old by simp
qed

lemma new_creates:
  assumes S: "calls_ok e" "memory (P e)" and inv: "sinv ok (dev_prefix (P e)) ms w"
    and no: "\<forall>m \<in> set ms. dev_of w m \<noteq> devname (dev_prefix (P e)) index"
    and p: "p \<in> {CHR ''N'', CHR ''E'', CHR ''O''}"
  shows "\<exists>c m w' x r. serial_new (P e) index b p d st share w = Inr (c, w') \<and>
    sinv ok (dev_prefix (P e)) (m # ms) w' \<and> m \<notin> set ms \<and> c \<noteq> NULL \<and> c \<notin> dom (sers w) \<and>
    port_of w' m = Some (\<lparr>sm_t = c, refcount = 1, opencount = 0, mt = False\<rparr>, x, r) \<and>
    \<not> is_open x \<and> share_mode x = uint share \<and> (\<forall>m' \<in> set ms. port_of w' m' = port_of w m') \<and>
    serial_rtu.truncate r =
      \<lparr>device = devname (dev_prefix (P e)) index, baud = b, data_bit = d, stop_bit = st, parity = p\<rparr>"
proof -
  note g = sinv_lock [OF inv]
  let ?dev = "devname (dev_prefix (P e)) index" and ?wg = "w\<lparr>g_mangers := True\<rparr>"
  have pin: "pinv ok (dev_prefix (P e)) ms w" using inv by (simp add: sinv_def)
  have fs: "find_serial ?dev ?wg = Inr None"
    using find_serial_ring [OF g(2), of ?dev] no by (simp add: find_None_iff [THEN iffD2])
  have fin: "finite (used ?wg)" using inv by (simp add: sinv_def used_def)
  obtain c a x r w1 where 1: "create_serial (P e) ?dev b p d st share ?wg =
       bnd (add_serial (P e) c w1) (\<lambda>(_, w). bnd (unlock_global w) (\<lambda>w. Inr (c, w)))"
    "sers w1 = (sers ?wg)(c \<mapsto> x)" "rtus w1 = (rtus ?wg)(a \<mapsto> r)" "mgrs w1 = mgrs ?wg" "nodes w1 = nodes ?wg"
    "g_mangers w1 = g_mangers ?wg" "c \<notin> used ?wg" "c \<noteq> NULL" "a \<notin> used ?wg"
    "x = \<lparr>debug = 0, is_open = False, err_code = 0, share_mode = uint share, backend_data = a\<rparr>"
    "ok False r" "serial_rtu.truncate r = \<lparr>device = ?dev, baud = b, data_bit = d, stop_bit = st, parity = p\<rparr>"
    by (rule create_run [OF S fin p to_device_devname])
  have fin1: "finite (used w1)" using inv 1(2-5) by (simp add: sinv_def finite_used)
  have r1: "ring (nodes w1) serial_mangers ms" using 1(5) pinv_ring [OF pin] by simp
  let ?sm = "\<lparr>sm_t = c, refcount = 1, opencount = 0, mt = False\<rparr>"
  obtain m o1 h where h: "add_serial (P e) c w1 = Inr (0, (put_mgr m ?sm w1)\<lparr>tty := o1, nodes := h\<rparr>)"
    "ring h serial_mangers (m # ms)" "m \<notin> used w1"
    "dom h = insert m (dom (nodes w1))"
    by (rule add_serial_eq [OF S fin1 r1])
  define w' where "w' = (put_mgr m ?sm w1)\<lparr>tty := o1, nodes := h, g_mangers := False\<rparr>"
  have run: "serial_new (P e) index b p d st share w = Inr (c, w')"
    using g(1) fs 1(1,6) h(1)
    by (simp add: serial_new_def to_device_devname unlock_global_def w'_def sworld_simps)
  have m: "m \<notin> set ms" using ring_distinct [OF h(2)] by simp
  have dev: "device r = ?dev" using 1(12) by (simp add: serial_rtu.defs)
  have "pinv ok (dev_prefix (P e)) (m # ms) w' \<and> port_of w' m = Some (?sm, x, r) \<and> (\<forall>m' \<in> set ms. port_of w' m' = port_of w m')"
    by (rule manager_joins [OF pin, where c = c and a = a])
      (use 1 no dev m h(2) in \<open>simp_all add: w'_def sworld_simps used_def fine_def\<close>)
  moreover from this have "sinv ok (dev_prefix (P e)) (m # ms) w'"
    using fin1 h(4) by (simp add: sinv_def w'_def finite_used sworld_simps)
  moreover have "c \<notin> dom (sers w)" using 1(7) by (simp add: used_def)
  ultimately show ?thesis using run m 1(8,10,12)
    by (intro exI [of _ c] exI [of _ m] exI [of _ w'] exI [of _ x] exI [of _ r]) simp
qed

end

end
