(* ===== verification/Serial_Unix.thy ===== *)
theory Serial_Unix
  imports Serial_State
begin

text \<open>
  The backend of \<open>src/serial/serial_unix.c\<close>: opening a terminal device and configuring it through
  \<open>termios\<close>, reading with a timeout, writing, flushing, closing. The calls of the operating system
  and of the C library are the parameter \<open>tty_sys\<close>; the constants are those of Linux.
\<close>

section \<open>Terminal settings\<close>

record termios =
  c_iflag :: flags
  c_oflag :: flags
  c_cflag :: flags
  c_lflag :: flags
  c_cc :: "byte list"
  c_ispeed :: flags
  c_ospeed :: flags

definition NCCS :: nat where "NCCS = 32"
definition VTIME :: nat where "VTIME = 5"
definition VMIN :: nat where "VMIN = 6"

definition CREAD :: flags where "CREAD = 0x80"
definition CLOCAL :: flags where "CLOCAL = 0x800"
definition CSIZE :: flags where "CSIZE = 0x30"
definition CS5 :: flags where "CS5 = 0x00"
definition CS6 :: flags where "CS6 = 0x10"
definition CS7 :: flags where "CS7 = 0x20"
definition CS8 :: flags where "CS8 = 0x30"
definition CSTOPB :: flags where "CSTOPB = 0x40"
definition PARENB :: flags where "PARENB = 0x100"
definition PARODD :: flags where "PARODD = 0x200"
definition ISIG :: flags where "ISIG = 0x1"
definition ICANON :: flags where "ICANON = 0x2"
definition ECHO :: flags where "ECHO = 0x8"
definition ECHOE :: flags where "ECHOE = 0x10"
definition INPCK :: flags where "INPCK = 0x10"
definition IXON :: flags where "IXON = 0x400"
definition IXANY :: flags where "IXANY = 0x800"
definition IXOFF :: flags where "IXOFF = 0x1000"
definition OPOST :: flags where "OPOST = 0x1"

lemmas tty_flags = CREAD_def CLOCAL_def CSIZE_def CS5_def CS6_def CS7_def CS8_def CSTOPB_def
  PARENB_def PARODD_def ISIG_def ICANON_def ECHO_def ECHOE_def INPCK_def IXON_def IXANY_def
  IXOFF_def OPOST_def

text \<open>The bits per second as \<open>speed_t\<close>, \<open>B110\<close> to \<open>B115200\<close>; an unknown rate is taken as 9600.\<close>

definition speed_of :: "int \<Rightarrow> flags" where
  "speed_of b =
     (if b = 110 then 0x3 else if b = 300 then 0x7 else if b = 600 then 0x8
      else if b = 1200 then 0x9 else if b = 2400 then 0xB else if b = 4800 then 0xC
      else if b = 9600 then 0xD else if b = 19200 then 0xE else if b = 38400 then 0xF
      else if b = 57600 then 0x1001 else if b = 115200 then 0x1002 else 0xD)"

definition zero_termios :: termios where
  "zero_termios = \<lparr>c_iflag = 0, c_oflag = 0, c_cflag = 0, c_lflag = 0, c_cc = replicate NCCS 0,
     c_ispeed = 0, c_ospeed = 0\<rparr>"

section \<open>The platform\<close>

text \<open>
  \<open>old_tios\<close> and the descriptor \<open>rtu_s\<close> (\<open>s\<close> in C) are \<open>None\<close> before they are first written.
\<close>

record unix_rtu = serial_rtu +
  old_tios :: "termios option"
  rtu_s :: "int option"

text \<open>
  Each call takes the state of the outside world. \<open>tcgetattr\<close> gives the settings it stored, or
  \<open>None\<close> where it failed and stored nothing; \<open>tty_read\<close> the count and the bytes it stored; \<open>errno\<close>
  reads the variable; \<open>tty_malloc\<close> and the \<open>junk\<close> in a new block are the allocator. \<open>cfsetispeed\<close> and \<open>cfsetospeed\<close> work on a \<open>struct termios\<close>.
\<close>

record 'o tty_sys =
  tty_open :: "string \<Rightarrow> 'o \<Rightarrow> int \<times> 'o"
  tty_close :: "int \<Rightarrow> 'o \<Rightarrow> 'o"
  tty_read :: "int \<Rightarrow> int \<Rightarrow> 'o \<Rightarrow> int \<times> byte list \<times> 'o"
  tty_write :: "int \<Rightarrow> byte list \<Rightarrow> 'o \<Rightarrow> int \<times> 'o"
  tty_select :: "int \<Rightarrow> int set \<Rightarrow> int \<times> int \<Rightarrow> 'o \<Rightarrow> int \<times> 'o"
  tcgetattr :: "int \<Rightarrow> 'o \<Rightarrow> termios option \<times> 'o"
  tcsetattr :: "int \<Rightarrow> termios \<Rightarrow> 'o \<Rightarrow> int \<times> 'o"
  tcflush :: "int \<Rightarrow> 'o \<Rightarrow> 'o"
  cfsetispeed :: "flags \<Rightarrow> termios \<Rightarrow> int \<times> termios"
  cfsetospeed :: "flags \<Rightarrow> termios \<Rightarrow> int \<times> termios"
  errno :: "'o \<Rightarrow> int"
  tty_malloc :: "addr set \<Rightarrow> 'o \<Rightarrow> addr option \<times> 'o"
  junk_serial :: "'o \<Rightarrow> serial"
  junk_rtu :: "'o \<Rightarrow> serial_rtu"

type_synonym 'o uworld = "(\<lparr>old_tios :: termios option, rtu_s :: int option\<rparr>, 'o) sworld"

section \<open>Opening\<close>

text \<open>The settings that \<open>unix_serial_open\<close> makes from the parameters, step by step.\<close>

definition set_size :: "8 word \<Rightarrow> flags \<Rightarrow> flags" where
  "set_size d c =
     (let c = c AND NOT CSIZE in
      if d = 5 then c OR CS5 else if d = 6 then c OR CS6 else if d = 7 then c OR CS7 else c OR CS8)"

definition set_stop :: "8 word \<Rightarrow> flags \<Rightarrow> flags" where
  "set_stop st c = (if st = 1 then c AND NOT CSTOPB else c OR CSTOPB)"

definition set_parity :: "char \<Rightarrow> flags \<Rightarrow> flags" where
  "set_parity p c =
     (if p = CHR ''N'' then c AND NOT PARENB
      else if p = CHR ''E'' then (c OR PARENB) AND NOT PARODD
      else (c OR PARENB) OR PARODD)"

definition set_input :: "char \<Rightarrow> flags \<Rightarrow> flags" where
  "set_input p i =
     (let i = (if p = CHR ''N'' then i AND NOT INPCK else i OR INPCK) in
      i AND NOT (IXON OR IXOFF OR IXANY))"

definition configure :: "'x serial_rtu_scheme \<Rightarrow> termios \<Rightarrow> termios" where
  "configure r tios =
     (let tios = tios\<lparr>c_cflag := c_cflag tios OR (CREAD OR CLOCAL)\<rparr>;
          tios = tios\<lparr>c_cflag := set_size (data_bit r) (c_cflag tios)\<rparr>;
          tios = tios\<lparr>c_cflag := set_stop (stop_bit r) (c_cflag tios)\<rparr>;
          tios = tios\<lparr>c_cflag := set_parity (parity r) (c_cflag tios)\<rparr>;
          tios = tios\<lparr>c_lflag := c_lflag tios AND NOT (ICANON OR ECHO OR ECHOE OR ISIG)\<rparr>;
          tios = tios\<lparr>c_iflag := set_input (parity r) (c_iflag tios)\<rparr>;
          tios = tios\<lparr>c_oflag := c_oflag tios AND NOT OPOST\<rparr>
      in tios\<lparr>c_cc := (c_cc tios)[VMIN := 0, VTIME := 0]\<rparr>)"

text \<open>The exit of a failed step: \<open>errno\<close> is kept, the descriptor closed and reset.\<close>

definition give_up :: "'o tty_sys \<Rightarrow> addr \<Rightarrow> addr \<Rightarrow> unix_rtu \<Rightarrow> int \<Rightarrow> 'o uworld \<Rightarrow> (int \<times> 'o uworld) cres" where
  "give_up S c p r f w =
     bnd (set_err c (errno S (tty w)) w) (\<lambda>w.
     Inr (-1, put_rtu p (r\<lparr>rtu_s := Some (-1)\<rparr>) (w\<lparr>tty := tty_close S f (tty w)\<rparr>)))"

text \<open>The end of \<open>unix_serial_open\<close>: the settings are applied, and the object is marked open.\<close>

definition unix_apply ::
  "'o tty_sys \<Rightarrow> addr \<Rightarrow> addr \<Rightarrow> unix_rtu \<Rightarrow> int \<Rightarrow> termios \<Rightarrow> 'o uworld \<Rightarrow> (int \<times> 'o uworld) cres" where
  "unix_apply S c p r f tios w =
     (let (rs, o3) = tcsetattr S f tios (tty w);
          w = w\<lparr>tty := o3\<rparr> in
      if rs < 0 then give_up S c p r f w
      else bnd (deref (sers w) c) (\<lambda>x. Inr (0, put_ser c (x\<lparr>is_open := True\<rparr>) w)))"

definition unix_serial_open :: "'o tty_sys \<Rightarrow> addr \<Rightarrow> 'o uworld \<Rightarrow> (int \<times> 'o uworld) cres" where
  "unix_serial_open S c w =
     bnd (deref (sers w) c) (\<lambda>x.
     if is_open x then Inr (0, w)
     else
       bnd (the_rtu c w) (\<lambda>(p, r).
       let (f, o1) = tty_open S (device r) (tty w);
           r = r\<lparr>rtu_s := Some f\<rparr>;
           w = put_rtu p r (w\<lparr>tty := o1\<rparr>) in
       if f = -1 then bnd (set_err c (errno S (tty w)) w) (\<lambda>w. Inr (-1, w))
       else
         let (old, o2) = tcgetattr S f (tty w);
             r = (case old of Some tios \<Rightarrow> r\<lparr>old_tios := Some tios\<rparr> | None \<Rightarrow> r);
             w = put_rtu p r (w\<lparr>tty := o2\<rparr>);
             speed = speed_of (baud r);
             (ri, tios) = cfsetispeed S speed zero_termios in
         if ri < 0 then give_up S c p r f w
         else
           let (ro, tios) = cfsetospeed S speed tios in
           if ro < 0 then give_up S c p r f w
           else unix_apply S c p r f (configure r tios) w))"

section \<open>Reading\<close>

text \<open>It only waits in \<open>select\<close>: 0 means readable, or that it did not wait or failed to.\<close>

definition unix_serial_set_timeout :: "'o tty_sys \<Rightarrow> addr \<Rightarrow> int \<Rightarrow> 'o uworld \<Rightarrow> (int \<times> 'o uworld) cres" where
  "unix_serial_set_timeout S c mtimeout w =
     bnd (the_rtu c w) (\<lambda>(p, r).
     if mtimeout \<le> 0 then Inr (0, w)
     else
       bnd (initialised (rtu_s r)) (\<lambda>f.
       bnd (FD_SET f {}) (\<lambda>rset.
       let (ret, o1) = tty_select S (f + 1) rset (timeval_of mtimeout) (tty w);
           w = w\<lparr>tty := o1\<rparr> in
       if ret = 0 then Inr (-1, w) else Inr (0, w))))"

text \<open>
  The loop of \<open>unix_serial_read\<close>. It returns whether it left through the \<open>return\<close> in its body, the
  count, the buffer and the world. A turn that goes on has read at least one byte, so the loop
  ends; each turn copies through \<open>temp\<close>, an array of 1024 zeroes.
\<close>

function unix_read_loop ::
  "'o tty_sys \<Rightarrow> addr \<Rightarrow> int \<Rightarrow> int \<Rightarrow> int \<Rightarrow> byte list \<Rightarrow> 'o uworld \<Rightarrow> (bool \<times> int \<times> byte list \<times> 'o uworld) cres" where
  "unix_read_loop S c len mtimeout read_len buf w =
     (if read_len < len then
        bnd (if mtimeout \<ge> 0 then unix_serial_set_timeout S c mtimeout w else Inr (0, w)) (\<lambda>(ready, w).
        if mtimeout \<ge> 0 \<and> ready = -1 then Inr (False, read_len, buf, w)
        else
          bnd (the_rtu c w) (\<lambda>(p, r).
          bnd (initialised (rtu_s r)) (\<lambda>f.
          let temp_len = (if len - read_len < 1024 then len - read_len else 1024);
              (cur_len, bs, o1) = tty_read S f temp_len (tty w);
              w = w\<lparr>tty := o1\<rparr> in
          if cur_len \<le> 0 then Inr (True, read_len, buf, w)
          else
            bnd (wr (replicate 1024 0) 0 bs) (\<lambda>temp.
            bnd (rd temp 0 (nat cur_len)) (\<lambda>src.
            bnd (wr buf (nat read_len) src) (\<lambda>buf.
            unix_read_loop S c len mtimeout (read_len + cur_len) buf w))))))
      else Inr (False, read_len, buf, w))"
  by pat_completeness auto
termination
  by (relation "measure (\<lambda>(S, c, len, mtimeout, read_len, buf, w). nat (len - read_len))") auto

definition unix_serial_read ::
  "'o tty_sys \<Rightarrow> addr \<Rightarrow> byte list \<Rightarrow> int \<Rightarrow> int \<Rightarrow> 'o uworld \<Rightarrow> (int \<times> byte list \<times> 'o uworld) cres" where
  "unix_serial_read S c buf len mtimeout w =
     bnd (deref (sers w) c) (\<lambda>x.
     if \<not> is_open x then Inr (-1, buf, w)
     else
       bnd (the_rtu c w) (\<lambda>(p, r).
       bnd (initialised (rtu_s r)) (\<lambda>f.
       if f = -1 then Inr (-1, buf, w)
       else
         bnd (unix_read_loop S c len mtimeout 0 buf w) (\<lambda>(returned, read_len, buf, w).
         if returned then Inr (read_len, buf, w)
         else if read_len \<le> 0 then
           bnd (set_err c (errno S (tty w)) w) (\<lambda>w. Inr (-1, buf, w))
         else Inr (read_len, buf, w)))))"

section \<open>Writing, flushing, closing\<close>

text \<open>\<open>write\<close> takes the count as a \<open>size_t\<close>.\<close>

definition unix_serial_write ::
  "'o tty_sys \<Rightarrow> addr \<Rightarrow> byte list \<Rightarrow> int \<Rightarrow> int \<Rightarrow> 'o uworld \<Rightarrow> (int \<times> 'o uworld) cres" where
  "unix_serial_write S c buf len mtimeout w =
     bnd (deref (sers w) c) (\<lambda>x.
     if \<not> is_open x then Inr (-1, w)
     else
       bnd (the_rtu c w) (\<lambda>(p, r).
       bnd (initialised (rtu_s r)) (\<lambda>f.
       if f = -1 then bnd (set_err c (errno S (tty w)) w) (\<lambda>w. Inr (-1, w))
       else
         bnd (rd buf 0 (unat (word_of_int len :: size_t))) (\<lambda>bs.
         let (n, o1) = tty_write S f bs (tty w);
             ret = to_int n;
             w = w\<lparr>tty := o1\<rparr> in
         if ret = -1 then bnd (set_err c (errno S (tty w)) w) (\<lambda>w. Inr (ret, w))
         else Inr (ret, w)))))"

definition unix_serial_clean_buffer :: "'o tty_sys \<Rightarrow> addr \<Rightarrow> 'o uworld \<Rightarrow> (int \<times> 'o uworld) cres" where
  "unix_serial_clean_buffer S c w =
     bnd (the_rtu c w) (\<lambda>(p, r).
     bnd (initialised (rtu_s r)) (\<lambda>f.
     Inr (0, w\<lparr>tty := tcflush S f (tty w)\<rparr>)))"

definition unix_serial_close :: "'o tty_sys \<Rightarrow> addr \<Rightarrow> 'o uworld \<Rightarrow> (int \<times> 'o uworld) cres" where
  "unix_serial_close S c w =
     bnd (the_rtu c w) (\<lambda>(p, r).
     bnd (initialised (rtu_s r)) (\<lambda>f.
     if f = -1 then Inr (-1, w)
     else
       bnd (initialised (old_tios r)) (\<lambda>old.
       let (rs, o1) = tcsetattr S f old (tty w);
           w = w\<lparr>tty := o1\<rparr> in
       if rs < 0 then bnd (set_err c (errno S (tty w)) w) (\<lambda>w. Inr (-1, w))
       else
         let w = w\<lparr>tty := tty_close S f (tty w)\<rparr> in
         bnd (deref (sers w) c) (\<lambda>x.
         Inr (0, put_rtu p (r\<lparr>rtu_s := Some (-1)\<rparr>) (put_ser c (x\<lparr>is_open := False\<rparr>) w))))))"

definition unix_serial_destory :: "'o tty_sys \<Rightarrow> addr \<Rightarrow> 'o uworld \<Rightarrow> 'o uworld cres" where
  "unix_serial_destory S c w = bnd (unix_serial_close S c w) (\<lambda>(_, w). free_serial c w)"

definition linux_serial_backend :: "'o tty_sys \<Rightarrow> (\<lparr>old_tios :: termios option, rtu_s :: int option\<rparr>, 'o) serial_backend" where
  "linux_serial_backend S =
     \<lparr>bopen = unix_serial_open S, bread = unix_serial_read S, bwrite = unix_serial_write S,
      bclean = unix_serial_clean_buffer S, bclose = unix_serial_close S, bdestory = unix_serial_destory S\<rparr>"

end
