(* ===== verification/Serial_Linux.thy ===== *)
theory Serial_Linux
  imports Serial_New Serial_Unix
begin

text \<open>
  The Linux platform: the functions of \<open>serial_unix.c\<close> keep the contract \<open>serial_platform\<close>, given
  what is documented of the system calls (\<open>tty_ok\<close>), and what \<open>unix_serial_open\<close> and
  \<open>unix_serial_read\<close> do beyond the contract.
\<close>

section \<open>The platform\<close>

definition linux_platform :: "'o tty_sys \<Rightarrow> (\<lparr>old_tios :: termios option, rtu_s :: int option\<rparr>, 'o) platform" where
  "linux_platform S =
     \<lparr>backend = linux_serial_backend S, dev_prefix = ''/dev/ttyS'', pmalloc = tty_malloc S,
      junk_ser = junk_serial S,
      raw_rtu = (\<lambda>o1. serial_rtu.extend (junk_rtu S o1) \<lparr>old_tios = None, rtu_s = None\<rparr>),
      reset_rtu = (\<lambda>r. r\<lparr>rtu_s := Some (-1)\<rparr>)\<rparr>"

text \<open>
  Documented behaviour: a descriptor is not negative and, for \<open>select\<close>, below \<open>FD_SETSIZE\<close>; a
  descriptor that \<open>tcgetattr\<close> refuses is refused by \<open>tcsetattr\<close> at that moment too (it is no
  terminal, or not open); \<open>read\<close> stores no more than it was asked for and says how much; a new
  block lies outside those in use.
\<close>

definition tty_ok :: "'o tty_sys \<Rightarrow> bool" where
  "tty_ok S \<longleftrightarrow>
     (\<forall>dev o1. fst (tty_open S dev o1) = -1 \<or> 0 \<le> fst (tty_open S dev o1) \<and> fst (tty_open S dev o1) < FD_SETSIZE) \<and>
     (\<forall>f o1 tios. fst (tcgetattr S f o1) = None \<longrightarrow> fst (tcsetattr S f tios (snd (tcgetattr S f o1))) < 0) \<and>
     (\<forall>f n o1 m bs o2. 0 < n \<longrightarrow> tty_read S f n o1 = (m, bs, o2) \<longrightarrow> m \<le> n \<and> (0 < m \<longrightarrow> int (length bs) = m)) \<and>
     (\<forall>A o1 a o2. tty_malloc S A o1 = (Some a, o2) \<longrightarrow> a \<notin> A \<and> a \<noteq> NULL)"

lemma tty_okD:
  assumes "tty_ok S"
  shows "tty_open S dev o1 = (f, o2) \<Longrightarrow> f = -1 \<or> 0 \<le> f \<and> f < FD_SETSIZE"
    and "tcgetattr S f o1 = (None, o2) \<Longrightarrow> tcsetattr S f tios o2 = (n, o3) \<Longrightarrow> n < 0"
    and "0 < n \<Longrightarrow> tty_read S f n o1 = (m, bs, o2) \<Longrightarrow> m \<le> n \<and> (0 < m \<longrightarrow> int (length bs) = m)"
    and "tty_malloc S A o1 = (Some a, o2) \<Longrightarrow> a \<notin> A \<and> a \<noteq> NULL"
  using assms unfolding tty_ok_def by (metis fst_conv, metis fst_conv snd_conv, metis, metis)

text \<open>The parameters of a port that is open or not.\<close>

definition unix_ok :: "bool \<Rightarrow> unix_rtu \<Rightarrow> bool" where
  "unix_ok opn r \<longleftrightarrow>
     (\<exists>f. rtu_s r = Some f \<and> (opn \<longleftrightarrow> f \<noteq> -1) \<and> (opn \<longrightarrow> 0 \<le> f \<and> f < FD_SETSIZE \<and> old_tios r \<noteq> None))"

lemma truncate_unix [simp]:
  "serial_rtu.truncate (r\<lparr>rtu_s := a\<rparr>) = serial_rtu.truncate r"
  "serial_rtu.truncate (r\<lparr>old_tios := b\<rparr>) = serial_rtu.truncate r"
  by (simp_all add: serial_rtu.defs)

section \<open>Opening\<close>

lemma give_up_eq:
  assumes "sers w c = Some x"
  shows "give_up S c p r f (put_rtu p r0 (w\<lparr>tty := o1\<rparr>)) =
    Inr (-1, put_ser c (x\<lparr>err_code := errno S o1\<rparr>) (put_rtu p (r\<lparr>rtu_s := Some (-1)\<rparr>) (w\<lparr>tty := tty_close S f o1\<rparr>)))"
  using assms by (simp add: give_up_def set_err_eq sworld_simps put_rtu_twice put_ser_commute)

text \<open>The parameters with the descriptor and the settings as \<open>tcgetattr\<close> stored them.\<close>

definition with_tios :: "termios option \<Rightarrow> int \<Rightarrow> unix_rtu \<Rightarrow> unix_rtu" where
  "with_tios old f r =
     (case old of None \<Rightarrow> r\<lparr>rtu_s := Some f\<rparr> | Some tios \<Rightarrow> r\<lparr>rtu_s := Some f, old_tios := Some tios\<rparr>)"

lemma with_tios_simps [simp]:
  "serial_rtu.truncate (with_tios old f r) = serial_rtu.truncate r" "baud (with_tios old f r) = baud r"
  "configure (with_tios old f r) tios = configure r tios"
  by (simp_all add: with_tios_def configure_def split: option.split)

text \<open>Every way through \<open>unix_serial_open\<close> on a closed port.\<close>

lemma unix_open_eq:
  assumes "sers w c = Some x" and "rtus w (backend_data x) = Some r" and "\<not> is_open x"
    and "tty_open S (device r) (tty w) = (f, o1)" and "tcgetattr S f o1 = (old, o2)"
    and "cfsetispeed S (speed_of (baud r)) zero_termios = (ri, ti)" and "cfsetospeed S (speed_of (baud r)) ti = (ro, t2)"
    and "tcsetattr S f (configure r t2) o2 = (rs, o3)"
  defines "r2 \<equiv> with_tios old f r"
  shows "unix_serial_open S c w =
    (if f = -1 then
       Inr (-1, put_ser c (x\<lparr>err_code := errno S o1\<rparr>) (put_rtu (backend_data x) (r\<lparr>rtu_s := Some f\<rparr>) (w\<lparr>tty := o1\<rparr>)))
     else if ri < 0 \<or> ro < 0 then give_up S c (backend_data x) r2 f (put_rtu (backend_data x) r2 (w\<lparr>tty := o2\<rparr>))
     else if rs < 0 then give_up S c (backend_data x) r2 f (put_rtu (backend_data x) r2 (w\<lparr>tty := o3\<rparr>))
     else Inr (0, put_ser c (x\<lparr>is_open := True\<rparr>) (put_rtu (backend_data x) r2 (w\<lparr>tty := o3\<rparr>))))"
proof -
  have r2: "(case old of None \<Rightarrow> r\<lparr>rtu_s := Some f\<rparr> | Some tios \<Rightarrow> r\<lparr>rtu_s := Some f, old_tios := Some tios\<rparr>) = r2"
    by (simp add: r2_def with_tios_def)
  have "baud r2 = baud r" "configure r2 t2 = configure r t2" by (simp_all add: r2_def)
  then show ?thesis using assms(1-8)
    by (cases "f = -1"; cases "ri < 0"; cases "ro < 0")
      (simp_all add: unix_serial_open_def unix_apply_def the_rtu_eq set_err_eq sworld_simps put_rtu_twice r2 Let_def)
qed

lemma unix_open_law:
  assumes S: "tty_ok S" and x: "sers w c = Some x" and r: "rtus w (backend_data x) = Some r" and ok: "unix_ok (is_open x) r"
  shows "\<exists>n w'. unix_serial_open S c w = Inr (n, w') \<and> port_step unix_ok c w w' \<and>
    (n = 0 \<or> n = -1) \<and> (n = 0 \<longleftrightarrow> opened c w')"
proof (cases "is_open x")
  case True
  then show ?thesis using x port_step_refl [where ok = unix_ok, OF x r ok] by (simp add: unix_serial_open_def opened_def)
next
  case closed: False
  obtain f o1 where f: "tty_open S (device r) (tty w) = (f, o1)" by fastforce
  obtain old o2 where old: "tcgetattr S f o1 = (old, o2)" by fastforce
  obtain ri ti where ti: "cfsetispeed S (speed_of (baud r)) zero_termios = (ri, ti)" by fastforce
  obtain ro t2 where t2: "cfsetospeed S (speed_of (baud r)) ti = (ro, t2)" by fastforce
  obtain rs o3 where rs: "tcsetattr S f (configure r t2) o2 = (rs, o3)" by fastforce
  note run = unix_open_eq [OF x r closed f old ti t2 rs] and stay = not_open_step [where ok = unix_ok, OF x r closed]
  let ?r2 = "with_tios old f r"
  have closed_ok: "unix_ok False (r'\<lparr>rtu_s := Some (-1)\<rparr>)" for r' by (simp add: unix_ok_def)
  show ?thesis
  proof (cases "f = -1 \<or> ri < 0 \<or> ro < 0 \<or> rs < 0")
    case True
    then show ?thesis using run x stay closed_ok
      by (cases "f = -1"; cases "ri < 0 \<or> ro < 0") (simp_all add: give_up_eq [OF x])
  next
    case False
    let ?w = "put_ser c (x\<lparr>is_open := True\<rparr>) (put_rtu (backend_data x) ?r2 (w\<lparr>tty := o3\<rparr>))"
    have "old \<noteq> None" using tty_okD(2) [OF S, of f o1 o2] old rs False by auto
    then have "unix_ok True ?r2" using tty_okD(1) [OF S f] False by (auto simp: unix_ok_def with_tios_def)
    then have "port_step unix_ok c w ?w"
      by (intro port_stepI [where x = x and r = r and x' = "x\<lparr>is_open := True\<rparr>" and r' = ?r2])
        (use x r in \<open>simp_all add: sworld_simps\<close>)
    moreover have "opened c ?w" by (simp add: opened_def sworld_simps)
    ultimately show ?thesis using run False by simp
  qed
qed

section \<open>Reading\<close>

text \<open>
  What arrives, without buffers: wait until the descriptor is readable (no wait where the timeout
  is not positive), read a block of at most 1024 bytes, until \<open>n\<close> bytes are there, the wait times
  out, or \<open>read\<close> gives nothing. The first component says that the last was the case.
\<close>

definition wait_ready :: "'o tty_sys \<Rightarrow> int \<Rightarrow> int \<Rightarrow> 'o \<Rightarrow> bool \<times> 'o" where
  "wait_ready S f mtimeout o1 =
     (if mtimeout \<le> 0 then (True, o1)
      else let (ret, o2) = tty_select S (f + 1) {f} (timeval_of mtimeout) o1 in (ret \<noteq> 0, o2))"

function tty_gather :: "'o tty_sys \<Rightarrow> int \<Rightarrow> int \<Rightarrow> int \<Rightarrow> 'o \<Rightarrow> bool \<times> byte list \<times> 'o" where
  "tty_gather S f mtimeout n o1 =
     (if n \<le> 0 then (False, [], o1)
      else
        case wait_ready S f mtimeout o1 of (ready, o2) \<Rightarrow>
        if \<not> ready then (False, [], o2)
        else
          case tty_read S f (if n < 1024 then n else 1024) o2 of (m, bs, o3) \<Rightarrow>
          if m \<le> 0 then (True, [], o3)
          else case tty_gather S f mtimeout (n - m) o3 of (ret, rest, o4) \<Rightarrow> (ret, bs @ rest, o4))"
  by pat_completeness auto
termination by (relation "measure (\<lambda>(S, f, mtimeout, n, o1). nat n)") auto

declare tty_gather.simps [simp del] unix_read_loop.simps [simp del]

lemma gather_done: "n \<le> 0 \<Longrightarrow> tty_gather S f mtimeout n o1 = (False, [], o1)"
  by (simp add: tty_gather.simps)

lemma gather_length: "tty_ok S \<Longrightarrow> 0 \<le> n \<Longrightarrow> tty_gather S f mtimeout n o1 = (ret, bs, o2) \<Longrightarrow> int (length bs) \<le> n"
proof (induction S f mtimeout n o1 arbitrary: ret bs o2 rule: tty_gather.induct)
  case (1 S f mtimeout n o1)
  show ?case
  proof (cases "n \<le> 0")
    case True
    then show ?thesis using 1(3,4) gather_done [of n S f mtimeout o1] by auto
  next
    case n: False
    obtain ready o2' where rd: "wait_ready S f mtimeout o1 = (ready, o2')" by fastforce
    obtain m b o3 where m: "tty_read S f (if n < 1024 then n else 1024) o2' = (m, b, o3)" using prod_cases3 by blast
    show ?thesis
    proof (cases "ready \<and> 0 < m")
      case True
      obtain ret' rest o4 where g: "tty_gather S f mtimeout (n - m) o3 = (ret', rest, o4)" using prod_cases3 by blast
      have kpos: "0 < (if n < 1024 then n else 1024)" using n by simp
      have b: "m \<le> n" "int (length b) = m" using tty_okD(3) [OF 1(2) kpos m] True by (auto split: if_splits)
      have "int (length rest) \<le> n - m"
        by (rule 1(1) [OF n rd [symmetric] _ m [symmetric] refl _ 1(2) _ g]) (use True b n in auto)
      moreover have "bs = b @ rest" using 1(4) n rd m True g by (simp add: tty_gather.simps [of S f mtimeout n])
      ultimately show ?thesis using b by simp
    next
      case False
      then have "bs = []" using 1(4) n rd m by (auto simp: tty_gather.simps [of S f mtimeout n] split: if_splits)
      then show ?thesis using n by simp
    qed
  qed
qed

lemma set_timeout_eq:
  assumes "sers w c = Some x" and "rtus w (backend_data x) = Some r" and "rtu_s r = Some f" and "0 \<le> f" and "f < FD_SETSIZE"
  shows "unix_serial_set_timeout S c mtimeout w =
    (case wait_ready S f mtimeout (tty w) of (ready, o2) \<Rightarrow> Inr (if ready then 0 else -1, w\<lparr>tty := o2\<rparr>))"
  using assms
  by (cases w) (simp add: unix_serial_set_timeout_def the_rtu_eq wait_ready_def FD_SET_def split: prod.split)

text \<open>
  A turn of the loop: it ends where the wait times out or nothing was read; otherwise the bytes read
  go behind those read before, through an array of 1024.
\<close>

lemma read_loop_turn:
  assumes S: "tty_ok S" and x: "sers w c = Some x" "rtus w (backend_data x) = Some r" "rtu_s r = Some f" and f: "0 \<le> f" "f < FD_SETSIZE"
    and rl: "0 \<le> rl" "rl < len" "len \<le> int (length buf)"
    and rd: "wait_ready S f mtimeout (tty w) = (ready, o1)"
    and m: "tty_read S f (if len - rl < 1024 then len - rl else 1024) o1 = (m, b, o2)"
  shows "unix_read_loop S c len mtimeout rl buf w =
    (if \<not> ready then Inr (False, rl, buf, w\<lparr>tty := o1\<rparr>)
     else if m \<le> 0 then Inr (True, rl, buf, w\<lparr>tty := o2\<rparr>)
     else unix_read_loop S c len mtimeout (rl + m) (take (nat rl) buf @ b @ drop (nat rl + length b) buf) (w\<lparr>tty := o2\<rparr>))"
proof -
  have wait: "ready \<and> o1 = tty w" if "mtimeout < 0" using rd that by (simp add: wait_ready_def)
  have "unix_read_loop S c len mtimeout rl buf w =
      (if \<not> ready then Inr (False, rl, buf, w\<lparr>tty := o1\<rparr>)
       else if m \<le> 0 then Inr (True, rl, buf, w\<lparr>tty := o2\<rparr>)
       else
         bnd (wr (replicate 1024 0) 0 b) (\<lambda>temp. bnd (rd temp 0 (nat m)) (\<lambda>src. bnd (wr buf (nat rl) src) (\<lambda>buf.
         unix_read_loop S c len mtimeout (rl + m) buf (w\<lparr>tty := o2\<rparr>)))))"
    using rl(2) set_timeout_eq [OF x f, of S mtimeout] rd m wait x
    by (subst unix_read_loop.simps) (cases "mtimeout < 0"; cases w; simp add: the_rtu_eq)
  moreover have "bnd (wr (replicate 1024 0) 0 b) (\<lambda>temp. rd temp 0 (nat m)) = Inr b"
    "wr buf (nat rl) b = Inr (take (nat rl) buf @ b @ drop (nat rl + length b) buf)" if pos: "0 < m"
  proof -
    have "0 < (if len - rl < 1024 then len - rl else 1024)" using rl(2) by simp
    from tty_okD(3) [OF S this m] pos have "m \<le> len - rl" "m \<le> 1024" "int (length b) = m" by (auto split: if_splits)
    then have "length b = nat m" "length b \<le> 1024" "nat rl + length b \<le> length buf" using rl by linarith+
    then show "bnd (wr (replicate 1024 0) 0 b) (\<lambda>temp. rd temp 0 (nat m)) = Inr b"
      "wr buf (nat rl) b = Inr (take (nat rl) buf @ b @ drop (nat rl + length b) buf)" by simp_all
  qed
  ultimately show ?thesis by (auto simp: bnd_assoc)
qed

text \<open>The loop reads what \<open>tty_gather\<close> gathers, to the place behind what it read before.\<close>

lemma read_loop_gather:
  assumes "tty_ok S" and "sers w c = Some x" and "rtus w (backend_data x) = Some r" and "rtu_s r = Some f"
    and "0 \<le> f" and "f < FD_SETSIZE" and "0 \<le> rl" and "len \<le> int (length buf)" and "rl = 0 \<or> rl \<le> len"
    and "tty_gather S f mtimeout (len - rl) (tty w) = (ret, bs, o2)"
  shows "unix_read_loop S c len mtimeout rl buf w =
    Inr (ret, rl + int (length bs), take (nat rl) buf @ bs @ drop (nat rl + length bs) buf, w\<lparr>tty := o2\<rparr>)"
  using assms
proof (induction "nat (len - rl)" arbitrary: rl buf w ret bs o2 rule: less_induct)
  case less
  show ?case
  proof (cases "rl < len")
    case False
    then have "bs = []" "\<not> ret" "o2 = tty w" using less.prems(10) by (simp_all add: tty_gather.simps)
    then show ?thesis using False by (simp add: unix_read_loop.simps)
  next
    case rl: True
    then have n: "\<not> len - rl \<le> 0" and kpos: "0 < (if len - rl < 1024 then len - rl else 1024)" by simp_all
    obtain ready o3 where rd: "wait_ready S f mtimeout (tty w) = (ready, o3)" by fastforce
    obtain m b o4 where m: "tty_read S f (if len - rl < 1024 then len - rl else 1024) o3 = (m, b, o4)" using prod_cases3 by blast
    note head = read_loop_turn [OF less.prems(1-7) rl less.prems(8) rd m]
    have gat: "tty_gather S f mtimeout (len - rl) (tty w) =
        (if \<not> ready then (False, [], o3) else if m \<le> 0 then (True, [], o4)
         else case tty_gather S f mtimeout (len - rl - m) o4 of (ret, rest, o5) \<Rightarrow> (ret, b @ rest, o5))"
      using n rd m by (subst tty_gather.simps) simp
    show ?thesis
    proof (cases "ready \<and> 0 < m")
      case False
      then show ?thesis using head gat less.prems(10) by (auto split: if_splits)
    next
      case True
      obtain ret' rest o5 where g: "tty_gather S f mtimeout (len - rl - m) o4 = (ret', rest, o5)" using prod_cases3 by blast
      have b: "m \<le> len - rl" "int (length b) = m"
        using tty_okD(3) [OF less.prems(1) kpos m] True by (auto split: if_splits)
      define buf1 where "buf1 = take (nat rl) buf @ b @ drop (nat rl + length b) buf"
      have fits: "nat rl + length b \<le> length buf" using b less.prems(7,8) by linarith
      have next_: "unix_read_loop S c len mtimeout (rl + m) buf1 (w\<lparr>tty := o4\<rparr>) =
          Inr (ret', rl + m + int (length rest),
               take (nat (rl + m)) buf1 @ rest @ drop (nat (rl + m) + length rest) buf1, (w\<lparr>tty := o4\<rparr>)\<lparr>tty := o5\<rparr>)"
        by (rule less.hyps) (use less.prems b True rl fits g in \<open>auto simp: buf1_def diff_diff_eq\<close>)
      have "take (nat (rl + m)) buf1 = take (nat rl) buf @ b"
        "drop (nat (rl + m) + length rest) buf1 = drop (nat rl + length (b @ rest)) buf"
        using less.prems(7) True b fits by (auto simp: buf1_def nat_add_distrib ac_simps)
      then show ?thesis using head next_ [unfolded buf1_def] gat g True b less.prems(10) by (auto simp: buf1_def)
    qed
  qed
qed

text \<open>
  \<open>unix_serial_read\<close> on an open port: the bytes gathered, at the front of the buffer. Where none
  came, -1 after a wait that timed out, but 0 where \<open>read\<close> failed.
\<close>

lemma unix_read_eq:
  assumes S: "tty_ok S" and x: "sers w c = Some x" and r: "rtus w (backend_data x) = Some r" and ok: "unix_ok True r"
    and o: "is_open x" and f: "rtu_s r = Some f" and len: "len \<le> int (length buf)"
    and g: "tty_gather S f mtimeout len (tty w) = (ret, bs, o2)"
  shows "unix_serial_read S c buf len mtimeout w =
    (if bs = [] \<and> \<not> ret then Inr (-1, buf, put_ser c (x\<lparr>err_code := errno S o2\<rparr>) (w\<lparr>tty := o2\<rparr>))
     else Inr (int (length bs), bs @ drop (length bs) buf, w\<lparr>tty := o2\<rparr>))"
proof -
  have f': "f \<noteq> -1" "0 \<le> f" "f < FD_SETSIZE" using ok f by (auto simp: unix_ok_def)
  have "unix_read_loop S c len mtimeout 0 buf w = Inr (ret, int (length bs), bs @ drop (length bs) buf, w\<lparr>tty := o2\<rparr>)"
    using read_loop_gather [OF S x r f f'(2,3), of 0 len buf mtimeout ret bs o2] len g by simp
  then show ?thesis using x r f f' o
    by (simp add: unix_serial_read_def the_rtu_eq set_err_eq)
qed

section \<open>The other laws\<close>

lemma unix_read_law:
  assumes S: "tty_ok S" and x: "sers w c = Some x" and r: "rtus w (backend_data x) = Some r" and ok: "unix_ok (is_open x) r"
    and len: "len \<le> int (length buf)"
  shows "\<exists>n buf' w'. unix_serial_read S c buf len mtimeout w = Inr (n, buf', w') \<and> port_step unix_ok c w w' \<and>
    (opened c w' \<longleftrightarrow> opened c w) \<and> length buf' = length buf \<and> (n = -1 \<or> 0 \<le> n \<and> n \<le> len)"
proof (cases "is_open x")
  case False
  then show ?thesis using x port_step_refl [where ok = unix_ok, OF x r ok] by (simp add: unix_serial_read_def)
next
  case o: True
  obtain f where f: "rtu_s r = Some f" using ok by (auto simp: unix_ok_def)
  obtain ret bs o2 where g: "tty_gather S f mtimeout len (tty w) = (ret, bs, o2)" using prod_cases3 by blast
  note e = unix_read_eq [OF S x r ok [unfolded eqTrueI [OF o]] o f len g] and st = tty_step [where ok = unix_ok, OF x r ok]
  show ?thesis
  proof (cases "bs = [] \<and> \<not> ret")
    case True
    then show ?thesis using e st by simp
  next
    case False
    have "0 < len" using False g gather_done [of len S f mtimeout "tty w"] by force
    then have "int (length bs) \<le> len" using gather_length [OF S _ g] by simp
    then show ?thesis using e st False len by auto
  qed
qed

lemma unix_write_law:
  assumes x: "sers w c = Some x" and r: "rtus w (backend_data x) = Some r" and ok: "unix_ok (is_open x) r"
    and len: "0 \<le> len" "len \<le> int (length buf)" "len < 2 ^ 31"
  shows "\<exists>n w'. unix_serial_write S c buf len mtimeout w = Inr (n, w') \<and> port_step unix_ok c w w' \<and>
    (opened c w' \<longleftrightarrow> opened c w)"
proof (cases "is_open x")
  case False
  then show ?thesis using x port_step_refl [where ok = unix_ok, OF x r ok] by (simp add: unix_serial_write_def)
next
  case o: True
  obtain f where f: "rtu_s r = Some f" "f \<noteq> -1" using ok o by (auto simp: unix_ok_def)
  have "unat (word_of_int len :: size_t) = nat len"
    by (rule to_size_t [OF len(1,3)])
  then have rd: "rd buf 0 (unat (word_of_int len :: size_t)) = Inr (take (nat len) buf)" using len(2) by simp
  obtain n o1 where n: "tty_write S f (take (nat len) buf) (tty w) = (n, o1)" by fastforce
  have "unix_serial_write S c buf len mtimeout w =
      Inr (to_int n, if to_int n = -1 then put_ser c (x\<lparr>err_code := errno S o1\<rparr>) (w\<lparr>tty := o1\<rparr>) else w\<lparr>tty := o1\<rparr>)"
    using x r o f rd n by (simp add: unix_serial_write_def the_rtu_eq set_err_eq)
  then show ?thesis using tty_step [where ok = unix_ok, OF x r ok] by simp
qed

lemma unix_clean_law:
  assumes x: "sers w c = Some x" and r: "rtus w (backend_data x) = Some r" and ok: "unix_ok (is_open x) r"
  shows "\<exists>n w'. unix_serial_clean_buffer S c w = Inr (n, w') \<and> port_step unix_ok c w w' \<and> (opened c w' \<longleftrightarrow> opened c w)"
proof -
  obtain f where "rtu_s r = Some f" using ok by (auto simp: unix_ok_def)
  then show ?thesis using x r tty_step [where ok = unix_ok, OF x r ok]
    by (simp add: unix_serial_clean_buffer_def the_rtu_eq)
qed

text \<open>Closing fails where the old settings cannot be restored; the port then stays open.\<close>

lemma unix_close_law:
  assumes x: "sers w c = Some x" and r: "rtus w (backend_data x) = Some r" and ok: "unix_ok (is_open x) r"
  shows "\<exists>n w'. unix_serial_close S c w = Inr (n, w') \<and> port_step unix_ok c w w' \<and>
    (n = 0 \<and> \<not> opened c w' \<or> n = -1 \<and> (opened c w' \<longleftrightarrow> opened c w))"
proof (cases "is_open x")
  case False
  then have "rtu_s r = Some (-1)" using ok by (auto simp: unix_ok_def)
  then show ?thesis using x r port_step_refl [where ok = unix_ok, OF x r ok]
    by (simp add: unix_serial_close_def the_rtu_eq)
next
  case o: True
  obtain f old where f: "rtu_s r = Some f" "f \<noteq> -1" "old_tios r = Some old" using ok o by (auto simp: unix_ok_def)
  obtain rs o1 where rs: "tcsetattr S f old (tty w) = (rs, o1)" by fastforce
  show ?thesis
  proof (cases "rs < 0")
    case True
    then have "unix_serial_close S c w = Inr (-1, put_ser c (x\<lparr>err_code := errno S o1\<rparr>) (w\<lparr>tty := o1\<rparr>))"
      using x r f rs by (simp add: unix_serial_close_def the_rtu_eq set_err_eq)
    then show ?thesis using tty_step [where ok = unix_ok, OF x r ok] by simp
  next
    case False
    define x' r' where "x' = x\<lparr>is_open := False\<rparr>" and "r' = r\<lparr>rtu_s := Some (-1)\<rparr>"
    define w' where "w' = put_rtu (backend_data x) r' (put_ser c x' (w\<lparr>tty := tty_close S f o1\<rparr>))"
    have "unix_serial_close S c w = Inr (0, w')"
      using x r f rs False by (simp add: unix_serial_close_def the_rtu_eq w'_def x'_def r'_def)
    moreover have "port_step unix_ok c w w'"
      by (rule port_stepI [where x = x and r = r and x' = x' and r' = r'])
        (use x r in \<open>simp_all add: w'_def x'_def r'_def sworld_simps unix_ok_def\<close>)
    moreover have "\<not> opened c w'" by (simp add: opened_def w'_def x'_def sworld_simps)
    ultimately show ?thesis by blast
  qed
qed

lemma unix_destory_law:
  assumes x: "sers w c = Some x" and r: "rtus w (backend_data x) = Some r" and ok: "unix_ok (is_open x) r"
  shows "\<exists>w'. unix_serial_destory S c w = Inr w' \<and> removed c x w w'"
proof -
  obtain n w1 where w1: "unix_serial_close S c w = Inr (n, w1)" "port_step unix_ok c w w1"
    using unix_close_law [OF x r ok, of S] by blast
  then show ?thesis using step_then_free [OF x r w1(2)] by (simp add: unix_serial_destory_def)
qed

text \<open>The platform keeps the contract.\<close>

interpretation linux: serial_platform linux_platform tty_ok unix_ok
proof unfold_locales
  show "length (dev_prefix (linux_platform e)) \<le> 12" for e :: "'o tty_sys" by (simp add: linux_platform_def)
  show "unix_ok False (reset_rtu (linux_platform e) r)" for e :: "'o tty_sys" and r
    by (simp add: linux_platform_def unix_ok_def)
  show "serial_rtu.truncate (reset_rtu (linux_platform e) r) = serial_rtu.truncate r" for e :: "'o tty_sys" and r
    by (simp add: linux_platform_def)
  show "a \<notin> A \<and> a \<noteq> NULL" if "tty_ok e" "pmalloc (linux_platform e) A o1 = (Some a, o2)" for e :: "'o tty_sys" and A a o1 o2
    using tty_okD(4) [OF that(1)] that(2) by (simp add: linux_platform_def)
qed (simp_all add: linux_platform_def linux_serial_backend_def
  unix_open_law unix_close_law unix_destory_law unix_read_law unix_write_law unix_clean_law)

end
