(* ===== verification/Serial_Client.thy ===== *)
theory Serial_Client
  imports Serial_Linux
begin

text \<open>
  What a client of the serial ports on Linux may rely on: the properties of the operations over
  the interpretation \<open>linux\<close>, the worlds a client reaches, runs of opening and closing, and where
  the code goes wrong. \<open>Serial_Demo\<close> shows that the hypotheses can hold.
\<close>

section \<open>The invariant\<close>

definition serial_start :: "'o \<Rightarrow> 'o uworld" where
  "serial_start o1 =
     \<lparr>sers = Map.empty, rtus = Map.empty, mgrs = Map.empty,
      nodes = [serial_mangers \<mapsto> \<lparr>prv = serial_mangers, nxt = serial_mangers\<rparr>], g_mangers = False, tty = o1\<rparr>"

text \<open>The client holds the object \<open>c\<close>, whose manager is \<open>m\<close>; no listed manager is locked.\<close>

definition holds :: "addr \<Rightarrow> addr \<Rightarrow> 'o uworld \<Rightarrow> bool" where
  "holds c m w \<longleftrightarrow> (\<exists>ms sm. ring (nodes w) serial_mangers ms \<and> m \<in> set ms \<and> mgrs w m = Some sm \<and> sm_t sm = c)"

definition unlocked :: "'o uworld \<Rightarrow> bool" where
  "unlocked w \<longleftrightarrow>
     (\<forall>ms m sm. ring (nodes w) serial_mangers ms \<longrightarrow> m \<in> set ms \<longrightarrow> mgrs w m = Some sm \<longrightarrow> \<not> mt sm)"

text \<open>The calls of a client that uses objects it holds and locks only around reading and writing.\<close>

inductive serial_step :: "'o tty_sys \<Rightarrow> 'o uworld \<Rightarrow> 'o uworld \<Rightarrow> bool" for S where
  call_new: "serial_new (linux_platform S) i b p d st sh w = Inr (c, w') \<Longrightarrow> p \<in> {CHR ''N'', CHR ''E'', CHR ''O''} \<Longrightarrow>
     unlocked w \<Longrightarrow> serial_step S w w'"
| call_open: "serial_open (linux_platform S) c w = Inr (n, w') \<Longrightarrow> holds c m w \<Longrightarrow> unlocked w \<Longrightarrow> serial_step S w w'"
| call_close: "serial_close (linux_platform S) c w = Inr (n, w') \<Longrightarrow> holds c m w \<Longrightarrow> unlocked w \<Longrightarrow> serial_step S w w'"
| call_destory: "serial_destory (linux_platform S) c w = Inr w' \<Longrightarrow> holds c m w \<Longrightarrow> unlocked w \<Longrightarrow> serial_step S w w'"
| call_read: "serial_read (linux_platform S) c buf len mtimeout w = Inr (n, buf', w') \<Longrightarrow> holds c m w \<Longrightarrow>
     0 \<le> len \<Longrightarrow> len \<le> int (length buf) \<Longrightarrow> len < 2 ^ 31 \<Longrightarrow> serial_step S w w'"
| call_write: "serial_write (linux_platform S) c buf len mtimeout w = Inr (n, w') \<Longrightarrow> holds c m w \<Longrightarrow>
     0 \<le> len \<Longrightarrow> len \<le> int (length buf) \<Longrightarrow> len < 2 ^ 31 \<Longrightarrow> serial_step S w w'"
| call_clean: "serial_clean (linux_platform S) c w = Inr (n, w') \<Longrightarrow> holds c m w \<Longrightarrow> serial_step S w w'"
| call_lock: "serial_lock c w = Inr w' \<Longrightarrow> holds c m w \<Longrightarrow> serial_step S w w'"
| call_unlock: "serial_unlock c w = Inr w' \<Longrightarrow> holds c m w \<Longrightarrow> serial_step S w w'"
| call_debug: "serial_set_debug c b w = Inr w' \<Longrightarrow> holds c m w \<Longrightarrow> serial_step S w w'"

inductive serial_reach :: "'o tty_sys \<Rightarrow> 'o uworld \<Rightarrow> bool" for S where
  start: "serial_reach S (serial_start o1)"
| step: "serial_reach S w \<Longrightarrow> serial_step S w w' \<Longrightarrow> serial_reach S w'"

abbreviation usinv :: "addr list \<Rightarrow> 'o uworld \<Rightarrow> bool" where
  "usinv \<equiv> sinv unix_ok ''/dev/ttyS''"

lemma linux_prefix [simp]: "dev_prefix (linux_platform S) = ''/dev/ttyS''"
  by (simp add: linux_platform_def)

lemmas linux_specs = linux.open_spec [unfolded linux_prefix] linux.close_spec [unfolded linux_prefix]
  linux.destory_spec [unfolded linux_prefix] linux.read_spec [unfolded linux_prefix]
  linux.write_spec [unfolded linux_prefix] linux.clean_spec [unfolded linux_prefix]

lemma holds_port:
  assumes "usinv ms w" and "holds c m w"
  obtains sm x r where "m \<in> set ms" "port_of w m = Some (sm, x, r)" "c = sm_t sm"
proof -
  have p: "pinv unix_ok ''/dev/ttyS'' ms w" using assms(1) by (simp add: sinv_def)
  obtain ms' sm where h: "ring (nodes w) serial_mangers ms'" "m \<in> set ms'" "mgrs w m = Some sm" "sm_t sm = c"
    using assms(2) by (auto simp: holds_def)
  then have m: "m \<in> set ms" using ring_unique [OF h(1) pinv_ring [OF p]] by simp
  obtain sm' x r where "port_of w m = Some (sm', x, r)" using pinv_port [OF p m] by blast
  then show thesis using that [OF m] h(3,4) by (simp add: port_of_Some)
qed

lemma unlockedD: "unlocked w \<Longrightarrow> usinv ms w \<Longrightarrow> m \<in> set ms \<Longrightarrow> port_of w m = Some (sm, x, r) \<Longrightarrow> \<not> mt sm"
  using pinv_ring [of unix_ok _ ms w] by (auto simp: unlocked_def port_of_Some sinv_def)

lemma new_inv:
  assumes S: "tty_ok S" "memory (linux_platform S)" and inv: "usinv ms w" and u: "unlocked w"
    and p: "p \<in> {CHR ''N'', CHR ''E'', CHR ''O''}" and r: "serial_new (linux_platform S) i b p d st sh w = Inr (c, w')"
  shows "\<exists>ms'. usinv ms' w'"
proof (cases "\<exists>m \<in> set ms. dev_of w m = devname ''/dev/ttyS'' i")
  case True
  then obtain m where m: "m \<in> set ms" "dev_of w m = devname ''/dev/ttyS'' i" by blast
  obtain sm x r where q: "port_of w m = Some (sm, x, r)"
    using inv pinv_port [OF _ m(1)] by (metis sinv_def)
  have "device r = devname ''/dev/ttyS'' i" using m(2) q by (simp add: dev_of_def)
  then show ?thesis
    using linux.new_shares [of S, unfolded linux_prefix, OF inv m(1) q unlockedD [OF u inv m(1) q], of i b p d st sh] r inv
    by (auto split: if_splits)
next
  case False
  then show ?thesis
    using linux.new_creates [of S, unfolded linux_prefix, OF S inv _ p, of i b d st sh] r by auto
qed

text \<open>A lock or an unlock changes nothing but the mutex.\<close>

lemma mutex_inv:
  assumes inv: "usinv ms w" and m: "m \<in> set ms" and q: "port_of w m = Some (sm, x, r)"
  shows "usinv ms (put_mgr m (sm\<lparr>mt := b\<rparr>) w)"
  using sinv_change [OF inv m q, of "put_mgr m (sm\<lparr>mt := b\<rparr>) w" "sm\<lparr>mt := b\<rparr>" x r] sinv_port [OF inv m q]
  by (simp add: sworld_simps fun_upd_idem)

lemma debug_inv:
  assumes inv: "usinv ms w" and m: "m \<in> set ms" and q: "port_of w m = Some (sm, x, r)"
  shows "usinv ms (put_ser (sm_t sm) (x\<lparr>debug := b\<rparr>) w)"
  using sinv_change [OF inv m q, of "put_ser (sm_t sm) (x\<lparr>debug := b\<rparr>) w" sm "x\<lparr>debug := b\<rparr>" r] sinv_port [OF inv m q]
  by (simp add: sworld_simps fun_upd_idem)

text \<open>Every call with an object that is held ends in a state with the invariant, if it ends at all.\<close>

definition stays :: "('a \<Rightarrow> 'o uworld) \<Rightarrow> 'e + 'a \<Rightarrow> bool" where
  "stays out v \<longleftrightarrow> (\<forall>y. v = Inr y \<longrightarrow> (\<exists>ms. usinv ms (out y)))"

lemma staysD:
  "stays snd v \<Longrightarrow> v = Inr (n, w') \<Longrightarrow> \<exists>ms. usinv ms w'"
  "stays (\<lambda>w. w) u \<Longrightarrow> u = Inr w' \<Longrightarrow> \<exists>ms. usinv ms w'"
  "stays (\<lambda>(n, buf, w). w) t \<Longrightarrow> t = Inr (n, buf', w') \<Longrightarrow> \<exists>ms. usinv ms w'"
  by (auto simp: stays_def)

lemma held_stays:
  assumes S: "tty_ok S" and inv: "usinv ms w" and h: "holds c m w"
  shows "unlocked w \<Longrightarrow> stays snd (serial_open (linux_platform S) c w)"
    "unlocked w \<Longrightarrow> stays snd (serial_close (linux_platform S) c w)"
    "unlocked w \<Longrightarrow> stays (\<lambda>w. w) (serial_destory (linux_platform S) c w)"
    "0 \<le> len \<Longrightarrow> len \<le> int (length buf) \<Longrightarrow> len < 2 ^ 31 \<Longrightarrow>
       stays (\<lambda>(n, buf, w). w) (serial_read (linux_platform S) c buf len mtimeout w)"
    "0 \<le> len \<Longrightarrow> len \<le> int (length buf) \<Longrightarrow> len < 2 ^ 31 \<Longrightarrow>
       stays snd (serial_write (linux_platform S) c buf len mtimeout w)"
    "stays snd (serial_clean (linux_platform S) c w)" "stays (\<lambda>w. w) (serial_lock c w)"
    "stays (\<lambda>w. w) (serial_unlock c w)" "stays (\<lambda>w. w) (serial_set_debug c b w)"
proof -
  obtain sm x r where q: "m \<in> set ms" "port_of w m = Some (sm, x, r)" and c: "c = sm_t sm"
    by (rule holds_port [OF inv h])
  note at = S inv q
  show "unlocked w \<Longrightarrow> stays snd (serial_open (linux_platform S) c w)"
    using linux_specs(1) [OF at unlockedD [OF _ inv q]] by (auto simp: stays_def c)
  show "unlocked w \<Longrightarrow> stays snd (serial_close (linux_platform S) c w)"
    using linux_specs(2) [OF at unlockedD [OF _ inv q]] by (auto simp: stays_def c)
  show "unlocked w \<Longrightarrow> stays (\<lambda>w. w) (serial_destory (linux_platform S) c w)"
    using linux_specs(3) [OF at unlockedD [OF _ inv q]] by (auto simp: stays_def c split: if_splits)
  show "0 \<le> len \<Longrightarrow> len \<le> int (length buf) \<Longrightarrow> len < 2 ^ 31 \<Longrightarrow>
      stays (\<lambda>(n, buf, w). w) (serial_read (linux_platform S) c buf len mtimeout w)"
    using linux_specs(4) [OF at, of len buf mtimeout] by (auto simp: stays_def c)
  show "0 \<le> len \<Longrightarrow> len \<le> int (length buf) \<Longrightarrow> len < 2 ^ 31 \<Longrightarrow>
      stays snd (serial_write (linux_platform S) c buf len mtimeout w)"
    using linux_specs(5) [OF at, of len buf mtimeout] by (auto simp: stays_def c)
  show "stays snd (serial_clean (linux_platform S) c w)" using linux_specs(6) [OF at] by (auto simp: stays_def c)
  show "stays (\<lambda>w. w) (serial_lock c w)" "stays (\<lambda>w. w) (serial_unlock c w)"
    using mutex_inv [OF inv q] sinv_port(1,9) [OF inv q]
    by (auto simp: stays_def c serial_lock_def lock_mgr_def serial_unlock_def unlock_mgr_def)
  show "stays (\<lambda>w. w) (serial_set_debug c b w)"
    using debug_inv [OF inv q] sinv_port(2) [OF inv q] by (auto simp: stays_def c serial_set_debug_def)
qed

lemmas calls_stay = held_stays(1,2,5,6) [THEN staysD(1)] held_stays(3,7-9) [THEN staysD(2)]
  held_stays(4) [THEN staysD(3)]

inductive_cases serial_stepE: "serial_step S w w'"

lemma serial_step_inv:
  assumes step: "serial_step S w w'" and S: "tty_ok S" "memory (linux_platform S)" and inv: "usinv ms w"
  shows "\<exists>ms'. usinv ms' w'"
proof (cases rule: serial_stepE [OF step])
  case (1 i b p d st sh c)
  then show ?thesis using new_inv [OF S inv] by blast
qed (rule calls_stay [OF S(1) inv]; (assumption | simp))+

lemma start_sinv: "usinv [] (serial_start o1)"
  by (simp add: sinv_def pinv_def serial_start_def ring_def nxt_of_def prv_of_def used_def)

lemma serial_reach_inv:
  assumes "serial_reach S w" and "tty_ok S" and "memory (linux_platform S)"
  shows "\<exists>ms. usinv ms w"
  using assms(1)
proof induction
  case (start o1)
  show ?case by (rule exI) (rule start_sinv)
next
  case (step w w')
  then show ?case using serial_step_inv assms(2,3) by blast
qed


section \<open>Opening, closing, destroying\<close>

text \<open>
  C25: Opening a port that is open already only counts; otherwise the terminal is opened, and counted
  where that worked. The result is 0 just where the port is open afterwards, and no other
  port changes.
\<close>

theorem port_open:
  assumes "tty_ok S" and "sinv unix_ok ''/dev/ttyS'' ms w" and "m \<in> set ms"
    and "port_of w m = Some (sm, x, r)" and "\<not> mt sm"
  shows "\<exists>n w'. serial_open (linux_platform S) (sm_t sm) w = Inr (n, w') \<and> sinv unix_ok ''/dev/ttyS'' ms w' \<and>
    now_port m (if n = 0 then sm\<lparr>opencount := opencount sm + 1\<rparr> else sm) x r w' \<and> others_same ms m w w' \<and>
    (n = 0 \<or> n = -1 \<and> opencount sm = 0) \<and> (opened (sm_t sm) w' \<longleftrightarrow> n = 0) \<and>
    (0 < opencount sm \<longrightarrow> n = 0 \<and> tty w' = tty w)"
  by (rule linux_specs(1) [OF assms])

text \<open>
  C24: Closing counts down, and reaches the terminal only where nobody else has the port open; where
  the terminal cannot be reset the result is -1 and the port stays open, with a count of 0.
\<close>

theorem port_close:
  assumes "tty_ok S" and "sinv unix_ok ''/dev/ttyS'' ms w" and "m \<in> set ms"
    and "port_of w m = Some (sm, x, r)" and "\<not> mt sm"
  shows "\<exists>n w'. serial_close (linux_platform S) (sm_t sm) w = Inr (n, w') \<and> sinv unix_ok ''/dev/ttyS'' ms w' \<and>
    now_port m (sm\<lparr>opencount := max 0 (opencount sm - 1)\<rparr>) x r w' \<and> others_same ms m w w' \<and>
    (if 1 < opencount sm then n = 0 \<and> opened (sm_t sm) w' \<and> tty w' = tty w
     else n = 0 \<and> \<not> opened (sm_t sm) w' \<or> n = -1 \<and> (opened (sm_t sm) w' \<longleftrightarrow> opened (sm_t sm) w))"
  by (rule linux_specs(2) [OF assms])

text \<open>
  C26: Destroying an object that has other users only counts down. The last user's call frees the
  object, its parameters and its manager, which leaves the list, and nothing else.
\<close>

theorem port_destory:
  assumes "tty_ok S" and "sinv unix_ok ''/dev/ttyS'' ms w" and "m \<in> set ms"
    and "port_of w m = Some (sm, x, r)" and "\<not> mt sm"
  shows "\<exists>w'. serial_destory (linux_platform S) (sm_t sm) w = Inr w' \<and> others_same ms m w w' \<and>
    (if 1 < refcount sm
     then sinv unix_ok ''/dev/ttyS'' ms w' \<and>
       port_of w' m = Some (sm\<lparr>refcount := refcount sm - 1\<rparr>, x, r) \<and> tty w' = tty w
     else sinv unix_ok ''/dev/ttyS'' (remove1 m ms) w' \<and> sers w' = (sers w)(sm_t sm := None) \<and>
       rtus w' = (rtus w)(backend_data x := None) \<and> mgrs w' = (mgrs w)(m := None) \<and>
       dom (nodes w') = dom (nodes w) - {m})"
  by (rule linux_specs(3) [OF assms])

section \<open>Creating and sharing\<close>

text \<open>
  C27: \<open>serial_new\<close> for a device in use gives the same object again, counted once more, where both
  sides share and the parameters are equal; otherwise it gives NULL and changes nothing.
\<close>

theorem port_shared:
  assumes "sinv unix_ok ''/dev/ttyS'' ms w" and "m \<in> set ms" and "port_of w m = Some (sm, x, r)"
    and "\<not> mt sm" and "device r = devname ''/dev/ttyS'' index"
  shows "\<exists>w'. serial_new (linux_platform S) index b p d st share w =
      (if share = 0 \<or> share_mode x = 0 \<or> \<not> same_params r b p d st then Inr (NULL, w) else Inr (sm_t sm, w')) \<and>
    sinv unix_ok ''/dev/ttyS'' ms w' \<and> w' = put_mgr m (sm\<lparr>refcount := refcount sm + 1\<rparr>) w"
  by (rule linux.new_shares [of S, unfolded linux_prefix, OF assms])

text \<open>
  \<open>serial_new\<close> for a new device, with parity N, E or O and memory to be had, gives a new object
  with these parameters, closed, with one reference, first in the list of managers.
\<close>

theorem port_created:
  assumes "tty_ok S" and "memory (linux_platform S)" and "sinv unix_ok ''/dev/ttyS'' ms w"
    and "\<forall>m \<in> set ms. dev_of w m \<noteq> devname ''/dev/ttyS'' index" and "p \<in> {CHR ''N'', CHR ''E'', CHR ''O''}"
  shows "\<exists>c m w' x r. serial_new (linux_platform S) index b p d st share w = Inr (c, w') \<and>
    sinv unix_ok ''/dev/ttyS'' (m # ms) w' \<and> m \<notin> set ms \<and> c \<noteq> NULL \<and> c \<notin> dom (sers w) \<and>
    port_of w' m = Some (\<lparr>sm_t = c, refcount = 1, opencount = 0, mt = False\<rparr>, x, r) \<and>
    \<not> is_open x \<and> share_mode x = uint share \<and> (\<forall>m' \<in> set ms. port_of w' m' = port_of w m') \<and>
    serial_rtu.truncate r =
      \<lparr>device = devname ''/dev/ttyS'' index, baud = b, data_bit = d, stop_bit = st, parity = p\<rparr>"
  by (rule linux.new_creates [of S, unfolded linux_prefix, OF assms])

text \<open>
  C34: The name of a device fits the 16 characters of its array, and different indices have
  different names: reading the digits back gives the index.
\<close>

theorem device_names:
  "length (devname ''/dev/ttyS'' index) < DEVICE_SIZE \<and>
   undec (drop (length ''/dev/ttyS'') (devname ''/dev/ttyS'' index)) = unat index"
proof
  have "length (devname ''/dev/ttyS'' index) \<le> length ''/dev/ttyS'' + 3" by (rule length_devname)
  then show "length (devname ''/dev/ttyS'' index) < DEVICE_SIZE" by (simp add: DEVICE_SIZE_def)
  show "undec (drop (length ''/dev/ttyS'') (devname ''/dev/ttyS'' index)) = unat index"
    by (simp add: devname_def undec_dec)
qed

section \<open>Settings and reading\<close>

text \<open>
  The settings given to the terminal: receiver on and modem lines ignored, as many data bits as
  asked (8 where the number is unknown), two stop bits unless one was asked for, parity as asked
  and checked, raw input and output, no flow control, whatever the settings were before.
\<close>

theorem port_settings:
  defines "c \<equiv> \<lambda>r tios. c_cflag (configure r tios)"
  shows "c r tios AND (CREAD OR CLOCAL) = CREAD OR CLOCAL \<and>
    c r tios AND CSIZE = (if data_bit r = 5 then CS5 else if data_bit r = 6 then CS6 else if data_bit r = 7 then CS7 else CS8) \<and>
    (c r tios AND CSTOPB = 0 \<longleftrightarrow> stop_bit r = 1) \<and>
    (c r tios AND PARENB = 0 \<longleftrightarrow> parity r = CHR ''N'') \<and>
    (parity r \<noteq> CHR ''N'' \<longrightarrow> (c r tios AND PARODD = 0 \<longleftrightarrow> parity r = CHR ''E'')) \<and>
    (c_iflag (configure r tios) AND INPCK = 0 \<longleftrightarrow> parity r = CHR ''N'') \<and>
    c_iflag (configure r tios) AND (IXON OR IXOFF OR IXANY) = 0 \<and>
    c_lflag (configure r tios) AND (ICANON OR ECHO OR ECHOE OR ISIG) = 0 \<and>
    c_oflag (configure r tios) AND OPOST = 0"
  unfolding c_def
  by (simp add: configure_def set_size_def set_stop_def set_parity_def set_input_def tty_flags Let_def
    bit.conj_disj_distrib2 and.assoc)

text \<open>
  C28: Reading from an open port stores the bytes that arrive, in order, at the front of the buffer,
  leaves the rest of it alone and returns their number. Where none arrived the result is -1
  after a wait that timed out, but 0 where \<open>read\<close> itself failed.
\<close>

theorem port_read:
  assumes "tty_ok S" and "sinv unix_ok ''/dev/ttyS'' ms w" and "m \<in> set ms"
    and "port_of w m = Some (sm, x, r)" and "is_open x" and "rtu_s r = Some f" and "len \<le> int (length buf)"
    and "tty_gather S f mtimeout len (tty w) = (failed, bs, o2)"
  shows "serial_read (linux_platform S) (sm_t sm) buf len mtimeout w =
    (if bs = [] \<and> \<not> failed
     then Inr (-1, buf, put_ser (sm_t sm) (x\<lparr>err_code := errno S o2\<rparr>) (w\<lparr>tty := o2\<rparr>))
     else Inr (int (length bs), bs @ drop (length bs) buf, w\<lparr>tty := o2\<rparr>))"
proof -
  note p = sinv_port [OF assms(2-4)]
  have "unix_ok True r" using p(4) assms(5) by simp
  with unix_read_eq [OF assms(1) p(2,3) this assms(5-8)] p(9) show ?thesis
    by (simp add: serial_read_def linux_platform_def linux_serial_backend_def)
qed

section \<open>Runs of opening and closing\<close>

text \<open>A terminal that can be opened, set and reset whenever it is asked.\<close>

definition reliable :: "'o tty_sys \<Rightarrow> bool" where
  "reliable S \<longleftrightarrow>
     (\<forall>dev o1. fst (tty_open S dev o1) \<noteq> -1) \<and> (\<forall>sp tios. 0 \<le> fst (cfsetispeed S sp tios)) \<and>
     (\<forall>sp tios. 0 \<le> fst (cfsetospeed S sp tios)) \<and> (\<forall>f tios o1. 0 \<le> fst (tcsetattr S f tios o1))"

lemma reliableD:
  assumes "reliable S"
  shows "tty_open S dev o1 = (f, o2) \<Longrightarrow> f \<noteq> -1" "cfsetispeed S sp tios = (n, t2) \<Longrightarrow> 0 \<le> n"
    "cfsetospeed S sp tios = (n, t2) \<Longrightarrow> 0 \<le> n" "tcsetattr S f tios o1 = (n, o2) \<Longrightarrow> 0 \<le> n"
  using assms unfolding reliable_def by (metis fst_conv)+

lemma reliable_open:
  assumes S: "reliable S" and x: "sers w c = Some x" "rtus w (backend_data x) = Some r"
  shows "\<exists>w'. unix_serial_open S c w = Inr (0, w')"
proof (cases "is_open x")
  case False
  obtain f o1 where f: "tty_open S (device r) (tty w) = (f, o1)" by fastforce
  obtain old o2 where old: "tcgetattr S f o1 = (old, o2)" by fastforce
  obtain ri ti where ti: "cfsetispeed S (speed_of (baud r)) zero_termios = (ri, ti)" by fastforce
  obtain ro t2 where t2: "cfsetospeed S (speed_of (baud r)) ti = (ro, t2)" by fastforce
  obtain rs o3 where rs: "tcsetattr S f (configure r t2) o2 = (rs, o3)" by fastforce
  show ?thesis
    using unix_open_eq [OF x False f old ti t2 rs] reliableD(1) [OF S f] reliableD(2) [OF S ti] reliableD(3) [OF S t2]
      reliableD(4) [OF S rs]
    by simp
qed (use x in \<open>simp add: unix_serial_open_def\<close>)

lemma reliable_close:
  assumes S: "reliable S" and x: "sers w c = Some x" "rtus w (backend_data x) = Some r" and ok: "unix_ok True r"
  shows "\<exists>w'. unix_serial_close S c w = Inr (0, w')"
proof -
  obtain f old where f: "rtu_s r = Some f" "f \<noteq> -1" "old_tios r = Some old" using ok by (auto simp: unix_ok_def)
  obtain rs o1 where rs: "tcsetattr S f old (tty w) = (rs, o1)" by fastforce
  show ?thesis using x f rs reliableD(4) [OF S rs] by (simp add: unix_serial_close_def the_rtu_eq)
qed

datatype port_call = Open_Port | Close_Port

fun run_calls :: "('x, 'o) platform \<Rightarrow> addr \<Rightarrow> port_call list \<Rightarrow> ('x, 'o) sworld \<Rightarrow> ('x, 'o) sworld cres" where
  "run_calls P c [] w = Inr w"
| "run_calls P c (Open_Port # cs) w = bnd (serial_open P c w) (\<lambda>(_, w). run_calls P c cs w)"
| "run_calls P c (Close_Port # cs) w = bnd (serial_close P c w) (\<lambda>(_, w). run_calls P c cs w)"

text \<open>The abstract port is a number: how many users have it open.\<close>

fun users :: "port_call list \<Rightarrow> int \<Rightarrow> int" where
  "users [] n = n"
| "users (Open_Port # cs) n = users cs (n + 1)"
| "users (Close_Port # cs) n = users cs (max 0 (n - 1))"

lemma open_reliable:
  assumes S: "tty_ok S" "reliable S" and inv: "usinv ms w" and m: "m \<in> set ms" and q: "port_of w m = Some (sm, x, r)" "\<not> mt sm"
  shows "\<exists>w' x' r'. serial_open (linux_platform S) (sm_t sm) w = Inr (0, w') \<and> usinv ms w' \<and>
    port_of w' m = Some (sm\<lparr>opencount := opencount sm + 1\<rparr>, x', r') \<and> is_open x'"
proof -
  note p = sinv_port [OF inv m q(1)]
  obtain n w' where w': "serial_open (linux_platform S) (sm_t sm) w = Inr (n, w')" "usinv ms w'"
    "now_port m (if n = 0 then sm\<lparr>opencount := opencount sm + 1\<rparr> else sm) x r w'" "n = 0 \<or> n = -1 \<and> opencount sm = 0"
    using linux_specs(1) [OF S(1) inv m q] by blast
  have "n = 0"
  proof (rule ccontr)
    assume n: "n \<noteq> 0"
    obtain w2 where "unix_serial_open S (sm_t sm) w = Inr (0, w2)" using reliable_open [OF S(2) p(2,3)] by blast
    then have "serial_open (linux_platform S) (sm_t sm) w = bnd (count_open m (sm_t sm) w2) (\<lambda>w. Inr (0, w))"
      using p n w'(4) by (simp add: serial_open_def linux_platform_def linux_serial_backend_def)
    with w'(1) n show False by auto
  qed
  then obtain x' r' where x': "port_of w' m = Some (sm\<lparr>opencount := opencount sm + 1\<rparr>, x', r')"
    using w'(3) by (auto simp: now_port_def)
  have "is_open x'" using sinv_port(8) [OF w'(2) m x'] p(7) by simp
  then show ?thesis using w'(1,2) x' \<open>n = 0\<close> by (intro exI [of _ w'] exI [of _ x'] exI [of _ r']) simp
qed

lemma close_reliable:
  assumes S: "tty_ok S" "reliable S" and inv: "usinv ms w" and m: "m \<in> set ms" and q: "port_of w m = Some (sm, x, r)" "\<not> mt sm"
    and o: "is_open x \<longleftrightarrow> 0 < opencount sm"
  shows "\<exists>n w' x' r'. serial_close (linux_platform S) (sm_t sm) w = Inr (n, w') \<and> usinv ms w' \<and>
    port_of w' m = Some (sm\<lparr>opencount := max 0 (opencount sm - 1)\<rparr>, x', r') \<and> (is_open x' \<longleftrightarrow> 1 < opencount sm)"
proof -
  note p = sinv_port [OF inv m q(1)]
  obtain n w' where w': "serial_close (linux_platform S) (sm_t sm) w = Inr (n, w')" "usinv ms w'"
    "now_port m (sm\<lparr>opencount := max 0 (opencount sm - 1)\<rparr>) x r w'"
    "if 1 < opencount sm then n = 0 \<and> opened (sm_t sm) w' \<and> tty w' = tty w
     else n = 0 \<and> \<not> opened (sm_t sm) w' \<or> n = -1 \<and> (opened (sm_t sm) w' \<longleftrightarrow> opened (sm_t sm) w)"
    using linux_specs(2) [OF S(1) inv m q] by blast
  obtain x' r' where x': "port_of w' m = Some (sm\<lparr>opencount := max 0 (opencount sm - 1)\<rparr>, x', r')"
    using w'(3) by (auto simp: now_port_def)
  have op: "opened (sm_t sm) w' \<longleftrightarrow> is_open x'" "opened (sm_t sm) w \<longleftrightarrow> is_open x"
    using sinv_port(2) [OF w'(2) m x'] p(2) by (simp_all add: opened_def)
  have "n = 0" if one: "opencount sm = 1"
  proof -
    define w1 where "w1 = put_mgr m (sm\<lparr>opencount := 0\<rparr>) w"
    have w1: "sers w1 (sm_t sm) = Some x" "rtus w1 (backend_data x) = Some r" "mgrs w1 m = Some (sm\<lparr>opencount := 0\<rparr>)"
      using p by (simp_all add: w1_def sworld_simps)
    have "unix_ok True r" using p(4) o one by simp
    then obtain w2 where "unix_serial_close S (sm_t sm) w1 = Inr (0, w2)" using reliable_close [OF S(2) w1(1,2)] by blast
    moreover have "locked_update m (\<lambda>sm. sm\<lparr>opencount := opencount sm - 1\<rparr>) Inr w = Inr w1"
      using locked_count [of w m sm "\<lambda>sm. sm\<lparr>opencount := opencount sm - 1\<rparr>"] p(1) q(2) one by (simp add: w1_def)
    ultimately have "serial_close (linux_platform S) (sm_t sm) w = Inr (0, w2)"
      using p one w1(3) by (simp add: serial_close_def linux_platform_def linux_serial_backend_def)
    with w'(1) show ?thesis by simp
  qed
  then have "is_open x' \<longleftrightarrow> 1 < opencount sm" using w'(4) op o p(7) by (cases "opencount sm = 1") (auto split: if_splits)
  then show ?thesis using w' x' by blast
qed


section \<open>Where the code goes wrong\<close>

text \<open>
  A client that locks a port which is open and then opens it once more waits for itself: the
  lock of the client and the lock of the counters are one mutex.
\<close>

theorem lock_then_open:
  assumes "sinv unix_ok ''/dev/ttyS'' ms w" and "m \<in> set ms" and "port_of w m = Some (sm, x, r)"
    and "\<not> mt sm" and "0 < opencount sm"
  shows "\<exists>w'. serial_lock (sm_t sm) w = Inr w' \<and> serial_open (linux_platform S) (sm_t sm) w' = Inl Deadlock"
proof -
  note p = sinv_port [OF assms(1-3)]
  let ?w = "put_mgr m (sm\<lparr>mt := True\<rparr>) w"
  have "port_of ?w m = Some (sm\<lparr>mt := True\<rparr>, x, r)" using p by (simp add: port_of_Some sworld_simps)
  then have "find_mgr (sm_t sm) ?w = Inr (Some m)"
    using sinv_port(9) [OF mutex_inv [OF assms(1-3)] assms(2)] by fastforce
  then have "serial_open (linux_platform S) (sm_t sm) ?w = Inl Deadlock"
    using assms(5) by (simp add: serial_open_def count_open_def locked_update_def lock_mgr_def sworld_simps)
  moreover have "serial_lock (sm_t sm) w = Inr ?w"
    using p(1,9) assms(4) by (simp add: serial_lock_def lock_mgr_def)
  ultimately show ?thesis by blast
qed

text \<open>
  \<open>serial_new\<close> with another parity than N, E or O calls the backend's \<open>destory\<close> on parameters whose
  descriptor was never written, and reads it.
\<close>

theorem bad_parity:
  assumes S: "tty_ok S" "memory (linux_platform S)" and inv: "sinv unix_ok ''/dev/ttyS'' ms w"
    and no: "\<forall>m \<in> set ms. dev_of w m \<noteq> devname ''/dev/ttyS'' index" and p: "p \<notin> {CHR ''N'', CHR ''E'', CHR ''O''}"
  shows "serial_new (linux_platform S) index b p d st share w = Inl Uninitialised"
proof -
  note g = sinv_lock [OF inv]
  let ?wg = "w\<lparr>g_mangers := True\<rparr>" and ?P = "linux_platform S"
  have fin: "finite (used ?wg)" using inv by (simp add: sinv_def used_def)
  have fs: "find_serial (devname ''/dev/ttyS'' index) ?wg = Inr None"
    using find_serial_ring [OF g(2), of "devname ''/dev/ttyS'' index"] no by (simp add: find_None_iff [THEN iffD2])
  have dev: "to_device (devname ''/dev/ttyS'' index) = Inr (devname ''/dev/ttyS'' index)"
    using linux.to_device_devname [of S index] by simp
  obtain c o1 where c: "malloc ?P ?wg = Inr (c, ?wg\<lparr>tty := o1\<rparr>)" by (rule linux.malloc_eq [OF S fin])
  define w1 where "w1 = put_ser c (junk_serial S o1) (?wg\<lparr>tty := o1\<rparr>)"
  have fin1: "finite (used w1)" using fin by (simp add: w1_def finite_used sworld_simps)
  obtain a o2 where a: "malloc ?P w1 = Inr (a, w1\<lparr>tty := o2\<rparr>)" by (rule linux.malloc_eq [OF S fin1])
  have raw: "rtu_s (raw_rtu ?P o2) = None" and junk: "junk_ser ?P = junk_serial S"
    by (simp_all add: linux_platform_def serial_rtu.defs)
  have "bdestory (backend ?P) c v = Inl Uninitialised"
    if "sers v c = Some x" "rtus v (backend_data x) = Some r" "rtu_s r = None" for v :: "'a uworld" and x r
    using that by (simp add: linux_platform_def linux_serial_backend_def unix_serial_destory_def unix_serial_close_def the_rtu_eq)
  then show ?thesis
    using g(1) fs dev c a p raw
    by (simp add: serial_new_def create_serial_def junk w1_def [symmetric]) (simp add: w1_def sworld_simps)
qed

text \<open>Where \<open>malloc\<close> has no memory for the object, its NULL is written through.\<close>

theorem new_without_memory:
  assumes inv: "sinv unix_ok ''/dev/ttyS'' ms w"
    and no: "\<forall>m \<in> set ms. dev_of w m \<noteq> devname ''/dev/ttyS'' index"
    and mem: "fst (tty_malloc S (used w) (tty w)) = None"
  shows "serial_new (linux_platform S) index b p d st share w = Inl Bad_Pointer"
proof -
  note g = sinv_lock [OF inv]
  let ?wg = "w\<lparr>g_mangers := True\<rparr>"
  have "used ?wg = used w" by (simp add: used_def)
  then have "malloc (linux_platform S) ?wg = Inl Bad_Pointer"
    using mem by (cases "tty_malloc S (used w) (tty w)") (simp add: malloc_def linux_platform_def)
  moreover have "find_serial (devname ''/dev/ttyS'' index) ?wg = Inr None"
    using find_serial_ring [OF g(2), of "devname ''/dev/ttyS'' index"] no by (simp add: find_None_iff [THEN iffD2])
  ultimately show ?thesis using g(1) linux.to_device_devname [of S index] by (simp add: serial_new_def create_serial_def)
qed

end
