(* ===== verification/Serial_Demo.thy ===== *)
theory Serial_Demo
  imports Serial_Client
begin

text \<open>
  A concrete terminal, with the bytes that wait in it as its state, and a world with one manager:
  the hypotheses of the properties of the serial ports hold there.
\<close>

definition demo_tty :: "byte list tty_sys" where
  "demo_tty =
     \<lparr>tty_open = (\<lambda>dev o1. (3, o1)), tty_close = (\<lambda>f o1. o1),
      tty_read = (\<lambda>f n o1. (int (length (take (nat n) o1)), take (nat n) o1, drop (nat n) o1)),
      tty_write = (\<lambda>f bs o1. (int (length bs), o1)),
      tty_select = (\<lambda>f A tv o1. (if o1 = [] then 0 else 1, o1)),
      tcgetattr = (\<lambda>f o1. (Some zero_termios, o1)), tcsetattr = (\<lambda>f tios o1. (0, o1)), tcflush = (\<lambda>f o1. []),
      cfsetispeed = (\<lambda>sp tios. (0, tios\<lparr>c_ispeed := sp\<rparr>)), cfsetospeed = (\<lambda>sp tios. (0, tios\<lparr>c_ospeed := sp\<rparr>)),
      errno = (\<lambda>o1. 11),
      tty_malloc = (\<lambda>A o1. (if finite A then Some (Suc (Max (insert 1 A))) else None, o1)),
      junk_serial = (\<lambda>o1. \<lparr>debug = 7, is_open = True, err_code = 7, share_mode = 7, backend_data = 7\<rparr>),
      junk_rtu = (\<lambda>o1. \<lparr>device = [], baud = 7, data_bit = 7, stop_bit = 7, parity = CHR ''x''\<rparr>)\<rparr>"

text \<open>The same without memory.\<close>

definition poor_tty :: "byte list tty_sys" where
  "poor_tty = demo_tty\<lparr>tty_malloc := \<lambda>A o1. (None, o1)\<rparr>"

lemma fresh_Max: "finite A \<Longrightarrow> Suc (Max (insert (Suc 0) A)) \<notin> A"
  using Max_ge [of "insert (Suc 0) A"] by (metis Suc_n_not_le_n finite_insert insertCI)

lemma demo_tty_ok: "tty_ok demo_tty"
  by (auto simp: tty_ok_def demo_tty_def FD_SETSIZE_def NULL_def min_def fresh_Max split: if_splits)

lemma demo_memory: "memory (linux_platform demo_tty)"
  by (simp add: memory_def linux_platform_def demo_tty_def)

lemma demo_reliable: "reliable demo_tty"
  by (simp add: reliable_def demo_tty_def)

text \<open>One port, opened \<open>n\<close> times by \<open>k\<close> users.\<close>

definition demo_mgr :: "int \<Rightarrow> int \<Rightarrow> serial_manger" where
  "demo_mgr k n = \<lparr>sm_t = 2, refcount = k, opencount = n, mt = False\<rparr>"

definition demo_ser :: "int \<Rightarrow> serial" where
  "demo_ser n = \<lparr>debug = 0, is_open = 0 < n, err_code = 0, share_mode = 1, backend_data = 3\<rparr>"

definition demo_rtu :: "int \<Rightarrow> unix_rtu" where
  "demo_rtu n = \<lparr>device = ''/dev/ttyS1'', baud = 9600, data_bit = 8, stop_bit = 1, parity = CHR ''N'',
     old_tios = Some zero_termios, rtu_s = Some (if 0 < n then 3 else -1)\<rparr>"

definition demo_port :: "int \<Rightarrow> int \<Rightarrow> byte list \<Rightarrow> byte list uworld" where
  "demo_port k n bs =
     \<lparr>sers = [2 \<mapsto> demo_ser n], rtus = [3 \<mapsto> demo_rtu n], mgrs = [4 \<mapsto> demo_mgr k n],
      nodes = [serial_mangers \<mapsto> \<lparr>prv = 4, nxt = 4\<rparr>, 4 \<mapsto> \<lparr>prv = serial_mangers, nxt = serial_mangers\<rparr>],
      g_mangers = False, tty = bs\<rparr>"

lemma devname_1: "devname ''/dev/ttyS'' 1 = ''/dev/ttyS1''"
  by code_simp

lemma devname_2: "devname ''/dev/ttyS'' 2 = ''/dev/ttyS2''"
  by code_simp

lemma demo_port_of: "port_of (demo_port k n bs) 4 = Some (demo_mgr k n, demo_ser n, demo_rtu n)"
  by (simp add: port_of_Some demo_port_def demo_mgr_def demo_ser_def)

lemma demo_sinv:
  assumes "1 \<le> k" and "0 \<le> n"
  shows "sinv unix_ok ''/dev/ttyS'' [4] (demo_port k n bs)"
proof -
  have "''/dev/ttyS1'' \<in> range (devname ''/dev/ttyS'')" using devname_1 by (metis rangeI)
  then have "fine unix_ok ''/dev/ttyS'' (demo_mgr k n, demo_ser n, demo_rtu n)"
    using assms by (simp add: fine_def demo_mgr_def demo_ser_def demo_rtu_def unix_ok_def NULL_def FD_SETSIZE_def)
  moreover have "ring (nodes (demo_port k n bs)) serial_mangers [4]"
    by (simp add: ring_def demo_port_def nxt_of_def prv_of_def serial_mangers_def)
  ultimately show ?thesis by (simp add: sinv_def pinv_def demo_port_of) (simp add: demo_port_def used_def)
qed

lemma demo_dev: "dev_of (demo_port k n bs) 4 = ''/dev/ttyS1''"
  by (simp add: dev_of_def demo_port_of demo_rtu_def)

section \<open>The properties there\<close>

lemma demo_step: "\<exists>w. serial_reach demo_tty w \<and> mgrs w \<noteq> Map.empty"
proof -
  have "\<forall>m \<in> set []. dev_of (serial_start [] :: byte list uworld) m \<noteq> devname ''/dev/ttyS'' 1"
    and "CHR ''N'' \<in> {CHR ''N'', CHR ''E'', CHR ''O''}" by simp_all
  from linux.new_creates [of demo_tty, unfolded linux_prefix, OF demo_tty_ok demo_memory start_sinv this,
      where b = 9600 and d = 8 and st = 1 and share = 1]
  obtain c m w x r where w: "serial_new (linux_platform demo_tty) 1 9600 (CHR ''N'') 8 1 1 (serial_start []) = Inr (c, w)"
    "port_of w m = Some (\<lparr>sm_t = c, refcount = 1, opencount = 0, mt = False\<rparr>, x, r)"
    by (elim exE conjE) (rule that)
  have w2: "mgrs w \<noteq> Map.empty" using w(2) by (auto simp: port_of_Some)
  have "unlocked (serial_start [])" by (simp add: unlocked_def serial_start_def)
  then have "serial_step demo_tty (serial_start []) w" by (rule call_new [OF w(1), rotated]) simp
  then have "serial_reach demo_tty w" by (rule serial_reach.step [OF serial_reach.start])
  with w2 show ?thesis by blast
qed


theorem port_open_witness:
  "\<exists>n w'. serial_open (linux_platform demo_tty) 2 (demo_port 2 0 []) = Inr (n, w') \<and> (opened 2 w' \<longleftrightarrow> n = 0)"
  using port_open [OF demo_tty_ok demo_sinv _ demo_port_of, of 2 0 "[]"] by (auto simp: demo_mgr_def)

theorem port_close_witness:
  "\<exists>n w'. serial_close (linux_platform demo_tty) 2 (demo_port 2 2 []) = Inr (n, w') \<and> n = 0 \<and> opened 2 w'"
  using port_close [OF demo_tty_ok demo_sinv _ demo_port_of, of 2 2 "[]"] by (auto simp: demo_mgr_def)

theorem port_destory_witness:
  "\<exists>w'. serial_destory (linux_platform demo_tty) 2 (demo_port 1 1 []) = Inr w' \<and> sinv unix_ok ''/dev/ttyS'' [] w' \<and>
     sers w' = (sers (demo_port 1 1 []))(2 := None)"
  using port_destory [OF demo_tty_ok demo_sinv _ demo_port_of, of 1 1 "[]"] by (auto simp: demo_mgr_def)

theorem port_shared_witness:
  "\<exists>w'. serial_new (linux_platform demo_tty) 1 9600 (CHR ''N'') 8 1 1 (demo_port 1 0 []) = Inr (2, w') \<and>
     sinv unix_ok ''/dev/ttyS'' [4] w'"
  using port_shared [OF demo_sinv [of 1 0 "[]"] _ demo_port_of, where index = 1 and S = demo_tty
      and b = 9600 and p = "CHR ''N''" and d = 8 and st = 1 and share = 1]
  by (auto simp: demo_mgr_def demo_ser_def demo_rtu_def same_params_def devname_1)

theorem port_created_witness:
  "\<exists>c m w'. serial_new (linux_platform demo_tty) 2 9600 (CHR ''E'') 7 2 0 (demo_port 1 0 []) = Inr (c, w') \<and>
     sinv unix_ok ''/dev/ttyS'' [m, 4] w' \<and> m \<noteq> 4"
  using port_created [OF demo_tty_ok demo_memory demo_sinv [of 1 0 "[]"], where index = 2
      and b = 9600 and p = "CHR ''E''" and d = 7 and st = 2 and share = 0]
  by (auto simp: demo_dev devname_2)

theorem port_read_witness:
  "serial_read (linux_platform demo_tty) 2 [0, 0, 0, 0] 3 100 (demo_port 1 1 [5, 6]) =
     Inr (2, [5, 6, 0, 0], demo_port 1 1 [])"
proof -
  have g: "tty_gather demo_tty 3 100 3 (tty (demo_port 1 1 [5, 6])) = (False, [5, 6], [])"
    by (simp add: demo_tty_def demo_port_def tty_gather.simps wait_ready_def)
  have "(demo_port 1 1 [5, 6])\<lparr>tty := []\<rparr> = demo_port 1 1 []" by (simp add: demo_port_def)
  then show ?thesis
    using port_read [OF demo_tty_ok demo_sinv _ demo_port_of _ _ _ g, where buf = "[0, 0, 0, 0]"]
    by (simp add: demo_mgr_def demo_ser_def demo_rtu_def)
qed


theorem lock_then_open_witness:
  "\<exists>w'. serial_lock 2 (demo_port 1 1 []) = Inr w' \<and> serial_open (linux_platform demo_tty) 2 w' = Inl Deadlock"
  using lock_then_open [OF demo_sinv _ demo_port_of, of 1 1 "[]" demo_tty] by (simp add: demo_mgr_def)

theorem bad_parity_witness:
  "serial_new (linux_platform demo_tty) 2 9600 (CHR ''X'') 8 1 0 (demo_port 1 0 []) = Inl Uninitialised"
  by (rule bad_parity [OF demo_tty_ok demo_memory demo_sinv [of 1 0]]) (simp_all add: demo_dev devname_2)

theorem new_without_memory_witness:
  "serial_new (linux_platform poor_tty) 2 9600 (CHR ''N'') 8 1 0 (demo_port 1 0 []) = Inl Bad_Pointer"
  by (rule new_without_memory [OF demo_sinv [of 1 0]]) (simp_all add: demo_dev devname_2 poor_tty_def)

theorem port_settings_witness:
  "c_cflag (configure (demo_rtu 0) zero_termios) AND CSIZE = CS8"
  using port_settings [of "demo_rtu 0" zero_termios] by (simp add: demo_rtu_def)

end
