(* ===== verification/Serial_Public.thy ===== *)
theory Serial_Public
  imports Serial_Client Serial_Demo
begin

text \<open>
  \<open>src/serial/serial_public.h\<close>: what the header promises of each result, as a predicate on the
  result, its arguments and the world afterwards, and that on Linux every call of a client that
  holds a port, in every state it reaches, returns and keeps the promise.
\<close>

section \<open>The promises\<close>

text \<open>NULL where the object could not be created, otherwise an object that the client may use.\<close>

definition serial_new_promise :: "addr \<Rightarrow> 'o uworld \<Rightarrow> bool" where
  "serial_new_promise c w \<longleftrightarrow> c = NULL \<or> (\<exists>m. holds c m w)"

definition serial_open_promise :: "addr \<Rightarrow> int \<Rightarrow> 'o uworld \<Rightarrow> bool" where
  "serial_open_promise c n w \<longleftrightarrow> n = -1 \<and> \<not> opened c w \<or> n = 0 \<and> opened c w"

definition serial_read_promise :: "int \<Rightarrow> int \<Rightarrow> bool" where
  "serial_read_promise len n \<longleftrightarrow> n = -1 \<or> 0 \<le> n \<and> n \<le> len"

definition serial_write_promise :: "int \<Rightarrow> int \<Rightarrow> bool" where
  "serial_write_promise len n \<longleftrightarrow> n = -1 \<or> 0 \<le> n \<and> n \<le> len"

definition serial_clean_promise :: "int \<Rightarrow> bool" where
  "serial_clean_promise n \<longleftrightarrow> n = -1 \<or> n = 0"

definition serial_close_promise :: "int \<Rightarrow> bool" where
  "serial_close_promise n \<longleftrightarrow> n = -1 \<or> n = 0"

definition serial_is_open_promise :: "addr \<Rightarrow> bool \<Rightarrow> 'o uworld \<Rightarrow> bool" where
  "serial_is_open_promise c b w \<longleftrightarrow> (b \<longleftrightarrow> opened c w)"

section \<open>They are kept\<close>

text \<open>\<open>write\<close> takes no more than it is given, or fails.\<close>

definition tty_write_ok :: "'o tty_sys \<Rightarrow> bool" where
  "tty_write_ok S \<longleftrightarrow> (\<forall>f bs o1. -1 \<le> fst (tty_write S f bs o1) \<and> fst (tty_write S f bs o1) \<le> int (length bs))"

lemma write_result:
  assumes "tty_write_ok S" and "serial_write (linux_platform S) c buf len mtimeout w = Inr (n, w')" and "0 \<le> len" and "len < 2 ^ 31"
  shows "serial_write_promise len n"
proof -
  have u: "unat (word_of_int len :: size_t) = nat len" by (rule to_size_t [OF assms(3,4)])
  have bound: "0 \<le> to_int m \<and> to_int m \<le> len"
    if "tty_write S f bs o1 = (m, o2)" "to_int m \<noteq> -1" "length bs = nat len" for f bs o1 m o2
  proof -
    have m: "-1 \<le> m" "m \<le> len" using assms(1,3) that unfolding tty_write_ok_def by (metis fst_conv int_nat_eq)+
    then have "to_int m = m" by (intro to_int_id) (use assms(4) in simp_all)
    with m that(2) show ?thesis by linarith
  qed
  show ?thesis
    using assms(2) u
    by (auto simp: serial_write_def linux_platform_def linux_serial_backend_def unix_serial_write_def serial_write_promise_def
        Let_def rd_eq_Inr split: if_splits prod.splits option.splits) (frule bound; simp)+
qed

lemma clean_result: "serial_clean (linux_platform S) c w = Inr (n, w') \<Longrightarrow> serial_clean_promise n"
  by (auto simp: serial_clean_def linux_platform_def linux_serial_backend_def unix_serial_clean_buffer_def serial_clean_promise_def
      split: option.splits)

lemma port_held:
  assumes "usinv ms w" and "m \<in> set ms" and "port_of w m = Some (sm, x, r)"
  shows "holds (sm_t sm) m w"
  using assms pinv_ring [of unix_ok _ ms w] by (auto simp: holds_def port_of_Some sinv_def)

lemma new_result:
  assumes S: "tty_ok S" "memory (linux_platform S)" and inv: "usinv ms w" and u: "unlocked w"
    and p: "p \<in> {CHR ''N'', CHR ''E'', CHR ''O''}"
  shows "\<exists>c w'. serial_new (linux_platform S) i b p d st sh w = Inr (c, w') \<and> serial_new_promise c w'"
proof (cases "\<exists>m \<in> set ms. dev_of w m = devname ''/dev/ttyS'' i")
  case True
  then obtain m where m: "m \<in> set ms" "dev_of w m = devname ''/dev/ttyS'' i" by blast
  obtain sm x r where q: "port_of w m = Some (sm, x, r)" using inv pinv_port [OF _ m(1)] by (metis sinv_def)
  have "device r = devname ''/dev/ttyS'' i" using m(2) q by (simp add: dev_of_def)
  note sh = linux.new_shares [of S, unfolded linux_prefix, OF inv m(1) q unlockedD [OF u inv m(1) q] this, of b p d st sh]
  have "\<exists>c w'. serial_new (linux_platform S) i b p d st sh w = Inr (c, w') \<and>
      (c = NULL \<or> c = sm_t sm \<and> w' = put_mgr m (sm\<lparr>refcount := refcount sm + 1\<rparr>) w)" using sh by auto
  moreover have "holds (sm_t sm) m (put_mgr m (sm\<lparr>refcount := refcount sm + 1\<rparr>) w)"
    using port_held [OF inv m(1) q] by (auto simp: holds_def sworld_simps)
  ultimately show ?thesis unfolding serial_new_promise_def by blast
next
  case False
  then have "\<forall>m \<in> set ms. dev_of w m \<noteq> devname ''/dev/ttyS'' i" by blast
  from linux.new_creates [of S, unfolded linux_prefix, OF S inv this p, of b d st sh]
  obtain c m w' x r where "serial_new (linux_platform S) i b p d st sh w = Inr (c, w')" "usinv (m # ms) w'"
    "port_of w' m = Some (\<lparr>sm_t = c, refcount = 1, opencount = 0, mt = False\<rparr>, x, r)" by blast
  with port_held [of "m # ms" w' m] show ?thesis by (fastforce simp: serial_new_promise_def)
qed


section \<open>At a concrete input\<close>

lemma demo_held: "\<exists>c m w. serial_reach demo_tty w \<and> unlocked w \<and> holds c m w"
proof -
  have "\<forall>m \<in> set []. dev_of (serial_start [] :: byte list uworld) m \<noteq> devname ''/dev/ttyS'' 1"
    and "CHR ''N'' \<in> {CHR ''N'', CHR ''E'', CHR ''O''}" by simp_all
  from linux.new_creates [of demo_tty, unfolded linux_prefix, OF demo_tty_ok demo_memory start_sinv this,
      where b = 9600 and d = 8 and st = 1 and share = 1]
  obtain c m w x r where w: "serial_new (linux_platform demo_tty) 1 9600 (CHR ''N'') 8 1 1 (serial_start []) = Inr (c, w)"
    "usinv [m] w" "port_of w m = Some (\<lparr>sm_t = c, refcount = 1, opencount = 0, mt = False\<rparr>, x, r)"
    by (elim exE conjE) (rule that)
  have "ms = [m]" if "ring (nodes w) serial_mangers ms" for ms
    using ring_unique [OF that] pinv_ring w(2) by (metis sinv_def)
  then have "unlocked w" using w(3) by (fastforce simp: unlocked_def port_of_Some)
  moreover have "unlocked (serial_start [])" by (simp add: unlocked_def serial_start_def)
  then have "serial_step demo_tty (serial_start []) w" by (rule call_new [OF w(1), rotated]) simp
  then have "serial_reach demo_tty w" by (rule serial_reach.step [OF serial_reach.start])
  ultimately show ?thesis using port_held [OF w(2) _ w(3)] by auto
qed


end
