(* ===== verification/Serial_Threads.thy ===== *)
theory Serial_Threads
  imports Serial_Demo
begin

text \<open>
  Several threads that open and close one port. \<open>serial_open\<close> and \<open>serial_close\<close> lock the manager's mutex
  only where they change its counter: the test of the counter, the call of the backend and the
  change are steps of their own, and other threads run between them. A call of the backend counts
  as one step. The schedule is a list of thread numbers.
\<close>

section \<open>Steps\<close>

text \<open>Where a thread is: the arguments are the manager it found.\<close>

datatype pc = Open_Start | Call_Open addr | Count_Open addr
  | Close_Start | Count_Close addr | Test_Close addr | Call_Close addr | Returned int

fun open_step :: "('x, 'o) platform \<Rightarrow> addr \<Rightarrow> pc \<Rightarrow> ('x, 'o) sworld \<Rightarrow> (pc \<times> ('x, 'o) sworld) cres" where
  "open_step P c Open_Start w =
     bnd (find_mgr c w) (\<lambda>m.
     case m of
       None \<Rightarrow> Inr (Returned (-1), w)
     | Some m \<Rightarrow> bnd (deref (mgrs w) m) (\<lambda>sm. Inr (if opencount sm > 0 then Count_Open m else Call_Open m, w)))"
| "open_step P c (Call_Open m) w =
     bnd (bopen (backend P) c w) (\<lambda>(r, w). Inr (if r = 0 then Count_Open m else Returned (-1), w))"
| "open_step P c (Count_Open m) w = bnd (count_open m c w) (\<lambda>w. Inr (Returned 0, w))"
| "open_step P c pc w = Inr (pc, w)"

fun close_step :: "('x, 'o) platform \<Rightarrow> addr \<Rightarrow> pc \<Rightarrow> ('x, 'o) sworld \<Rightarrow> (pc \<times> ('x, 'o) sworld) cres" where
  "close_step P c Close_Start w =
     bnd (find_mgr c w) (\<lambda>m.
     case m of
       None \<Rightarrow> Inr (Returned (-1), w)
     | Some m \<Rightarrow> bnd (deref (mgrs w) m) (\<lambda>sm. Inr (if opencount sm > 0 then Count_Close m else Test_Close m, w)))"
| "close_step P c (Count_Close m) w =
     bnd (locked_update m (\<lambda>sm. sm\<lparr>opencount := opencount sm - 1\<rparr>) Inr w) (\<lambda>w. Inr (Test_Close m, w))"
| "close_step P c (Test_Close m) w =
     bnd (deref (mgrs w) m) (\<lambda>sm. Inr (if opencount sm = 0 then Call_Close m else Returned 0, w))"
| "close_step P c (Call_Close m) w = bnd (bclose (backend P) c w) (\<lambda>(n, w). Inr (Returned n, w))"
| "close_step P c pc w = Inr (pc, w)"

text \<open>A step of any thread: each of the two leaves a thread alone that runs the other.\<close>

definition thread_step :: "('x, 'o) platform \<Rightarrow> addr \<Rightarrow> pc \<Rightarrow> ('x, 'o) sworld \<Rightarrow> (pc \<times> ('x, 'o) sworld) cres" where
  "thread_step P c pc w =
     (case pc of
        Open_Start \<Rightarrow> open_step P c pc w | Call_Open m \<Rightarrow> open_step P c pc w | Count_Open m \<Rightarrow> open_step P c pc w
      | _ \<Rightarrow> close_step P c pc w)"

lemma thread_step_simps [simp]:
  "thread_step P c Open_Start w = open_step P c Open_Start w"
  "thread_step P c (Call_Open m) w = open_step P c (Call_Open m) w"
  "thread_step P c (Count_Open m) w = open_step P c (Count_Open m) w"
  "thread_step P c Close_Start w = close_step P c Close_Start w"
  "thread_step P c (Count_Close m) w = close_step P c (Count_Close m) w"
  "thread_step P c (Test_Close m) w = close_step P c (Test_Close m) w"
  "thread_step P c (Call_Close m) w = close_step P c (Call_Close m) w"
  "thread_step P c (Returned n) w = Inr (Returned n, w)"
  by (simp_all add: thread_step_def)

fun sched :: "('x, 'o) platform \<Rightarrow> addr \<Rightarrow> nat list \<Rightarrow> pc list \<Rightarrow> ('x, 'o) sworld \<Rightarrow> (pc list \<times> ('x, 'o) sworld) cres" where
  "sched P c [] pcs w = Inr (pcs, w)"
| "sched P c (i # ss) pcs w =
     (if i < length pcs
      then bnd (thread_step P c (pcs ! i) w) (\<lambda>(pc, w). sched P c ss (pcs[i := pc]) w)
      else sched P c ss pcs w)"

lemma sched_one: "sched P c (0 # ss) [pc] w = bnd (thread_step P c pc w) (\<lambda>(pc, w). sched P c ss [pc] w)"
  by simp

lemma counting_alone: "sched P c [0, 0] [Count_Open m] w = bnd (count_open m c w) (\<lambda>w. Inr ([Returned 0], w))"
  by (cases "count_open m c w") simp_all

lemma calling_alone:
  "sched P c [0, 0] [Call_Open m] w =
     bnd (bopen (backend P) c w) (\<lambda>(r, w).
     if r = 0 then bnd (count_open m c w) (\<lambda>w. Inr ([Returned 0], w)) else Inr ([Returned (-1)], w))"
  by (cases "bopen (backend P) c w") (auto simp: bnd_assoc)

lemma testing_alone:
  "sched P c [0, 0, 0] [Test_Close m] w =
     bnd (deref (mgrs w) m) (\<lambda>sm.
     if opencount sm = 0 then bnd (bclose (backend P) c w) (\<lambda>(n, w). Inr ([Returned n], w)) else Inr ([Returned 0], w))"
  "sched P c [0, 0] [Test_Close m] w = sched P c [0, 0, 0] [Test_Close m] w"
  by (cases "deref (mgrs w) m"; cases "bclose (backend P) c w"; auto)+

lemma uncounting_alone:
  "sched P c [0, 0, 0] [Count_Close m] w =
     bnd (locked_update m (\<lambda>sm. sm\<lparr>opencount := opencount sm - 1\<rparr>) Inr w) (\<lambda>w. sched P c [0, 0, 0] [Test_Close m] w)"
  unfolding testing_alone(2) [symmetric] by (subst sched_one) (simp add: bnd_assoc del: sched.simps)


section \<open>Threads that open\<close>

text \<open>How many steps a thread that opens has left at most.\<close>

fun turns_left :: "pc \<Rightarrow> nat" where
  "turns_left Open_Start = 3"
| "turns_left (Call_Open m) = 2"
| "turns_left (Count_Open m) = 1"
| "turns_left _ = 0"

definition opened_by :: "pc list \<Rightarrow> int" where
  "opened_by pcs = int (length (filter (\<lambda>pc. pc = Returned 0) pcs))"

lemma opened_by_upd:
  assumes "i < length pcs" and "pcs ! i \<noteq> Returned 0"
  shows "opened_by (pcs[i := pc]) = opened_by pcs + (if pc = Returned 0 then 1 else 0)"
proof -
  have "opened_by (pcs[i := pc]) = opened_by (take i pcs) + (if pc = Returned 0 then 1 else 0) + opened_by (drop (Suc i) pcs)"
    using assms(1) by (simp add: opened_by_def upd_conv_take_nth_drop)
  moreover have "opened_by pcs = opened_by (take i pcs) + opened_by (drop (Suc i) pcs)"
    using assms by (subst id_take_nth_drop [OF assms(1)]) (simp add: opened_by_def)
  ultimately show ?thesis by simp
qed

text \<open>
  Between two steps: the counter is what it was and one for each thread that returned, and
  where a thread is about to count, the port is open.
\<close>

definition in_opening :: "addr list \<Rightarrow> addr \<Rightarrow> addr \<Rightarrow> int \<Rightarrow> pc list \<Rightarrow> 'o uworld \<Rightarrow> bool" where
  "in_opening ms m c n pcs w \<longleftrightarrow>
     usinv ms w \<and> set pcs \<subseteq> {Open_Start, Call_Open m, Count_Open m, Returned 0} \<and>
     (\<exists>sm x r. port_of w m = Some (sm, x, r) \<and> sm_t sm = c \<and> \<not> mt sm \<and> opencount sm = n + opened_by pcs \<and>
        (Count_Open m \<in> set pcs \<longrightarrow> is_open x))"

lemma openingI:
  assumes "usinv ms w" and "set pcs \<subseteq> {Open_Start, Call_Open m, Count_Open m, Returned 0}"
    and "port_of w m = Some (sm, x, r)" and "sm_t sm = c" and "\<not> mt sm" and "opencount sm = n + opened_by pcs"
    and "Count_Open m \<in> set pcs \<Longrightarrow> is_open x"
  shows "in_opening ms m c n pcs w"
  using assms unfolding in_opening_def by blast

lemma now_opening:
  assumes inv: "usinv ms w" and m: "m \<in> set ms" and now: "now_port m sm x r w" and op: "opened (sm_t sm) w"
    and pcs: "set pcs \<subseteq> {Open_Start, Call_Open m, Count_Open m, Returned 0}"
    and sm: "\<not> mt sm" "opencount sm = n + opened_by pcs"
  shows "in_opening ms m (sm_t sm) n pcs w"
proof -
  obtain x' r' where q: "port_of w m = Some (sm, x', r')" using now by (auto simp: now_port_def)
  have "is_open x'" using sinv_port(2) [OF inv m q] op by (simp add: opened_def)
  then show ?thesis by (intro openingI [OF inv pcs q refl sm])
qed

lemma opening_step:
  assumes S: "tty_ok S" "reliable S" and m: "m \<in> set ms" and o: "in_opening ms m c n pcs w" and i: "i < length pcs"
  shows "\<exists>pc w'. thread_step (linux_platform S) c (pcs ! i) w = Inr (pc, w') \<and> in_opening ms m c n (pcs[i := pc]) w' \<and>
    turns_left pc \<le> turns_left (pcs ! i) - 1"
proof -
  let ?A = "{Open_Start, Call_Open m, Count_Open m, Returned 0}"
  have inv: "usinv ms w" and pcs: "set pcs \<subseteq> ?A" using o by (simp_all add: in_opening_def)
  obtain sm x r where q: "port_of w m = Some (sm, x, r)" "sm_t sm = c" "\<not> mt sm" "opencount sm = n + opened_by pcs"
    "Count_Open m \<in> set pcs \<longrightarrow> is_open x" using o unfolding in_opening_def by blast
  note p = sinv_port [OF inv m q(1)]
  have upd: "set (pcs[i := pc]) \<subseteq> insert pc (set pcs)" for pc by (rule set_update_subset_insert)
  then have upd': "set (pcs[i := pc]) \<subseteq> ?A" if "pc \<in> ?A" for pc using that pcs by blast
  have at: "pcs ! i \<in> ?A" using pcs i nth_mem by blast
  then consider (st) "pcs ! i = Open_Start" | (call) "pcs ! i = Call_Open m" | (cnt) "pcs ! i = Count_Open m"
    | (ret) "pcs ! i = Returned 0" by blast
  then show ?thesis
  proof cases
    case st
    let ?pc = "if opencount sm > 0 then Count_Open m else Call_Open m"
    have "in_opening ms m c n (pcs[i := ?pc]) w"
      by (rule openingI [OF inv _ q(1-3)])
        (use upd [of ?pc] pcs p(8) q(4,5) opened_by_upd [OF i, of ?pc] st in \<open>auto split: if_splits\<close>)
    then show ?thesis using st p(1,9) q(2) by simp
  next
    case call
    obtain w1 where w1: "unix_serial_open S c w = Inr (0, w1)" "port_step unix_ok c w w1" "opened c w1"
      using unix_open_law [OF S(1) p(2-4)] reliable_open [OF S(2) p(2,3)] q(2) by fastforce
    have "mgrs w1 = mgrs w" using w1(2) by (rule port_stepE)
    then have "usinv ms w1 \<and> now_port m sm x r w1 \<and> others_same ms m w w1"
      by (intro now_port_step [OF inv m q(1) w1(2) [folded q(2)]]) (use p w1(3) q(2) in \<open>simp_all add: fun_upd_idem\<close>)
    then have "in_opening ms m c n (pcs[i := Count_Open m]) w1"
      using now_opening [of ms w1 m sm x r "pcs[i := Count_Open m]" n] m w1(3) upd' q opened_by_upd [OF i, of "Count_Open m"] call
      by simp
    then show ?thesis using call w1(1) by (simp add: linux_platform_def linux_serial_backend_def)
  next
    case cnt
    then have "is_open x" using q(5) i nth_mem by metis
    then have "opened (sm_t sm) w" using p(2) by (simp add: opened_def)
    from linux.count_open_spec [OF _ m q(1,3) port_step_refl [where ok = unix_ok, OF p(2-4)] this, of S] inv q(2)
    obtain w' where w': "count_open m c w = Inr w'" "usinv ms w'" "now_port m (sm\<lparr>opencount := opencount sm + 1\<rparr>) x r w'"
      "opened c w'" by (auto simp: linux_platform_def)
    have "in_opening ms m c n (pcs[i := Returned 0]) w'"
      using now_opening [OF w'(2) m w'(3), of "pcs[i := Returned 0]" n] w'(4) upd' q opened_by_upd [OF i, of "Returned 0"] cnt
      by simp
    then show ?thesis using cnt w'(1) by simp
  next
    case ret
    then have "pcs[i := Returned 0] = pcs" by (metis list_update_id)
    then show ?thesis using ret o by simp
  qed
qed

lemma opening_run:
  assumes "tty_ok S" and "reliable S" and "m \<in> set ms" and "in_opening ms m c n pcs w"
  shows "\<exists>pcs' w'. sched (linux_platform S) c ss pcs w = Inr (pcs', w') \<and> in_opening ms m c n pcs' w' \<and> length pcs' = length pcs \<and>
    (\<forall>i < length pcs. turns_left (pcs' ! i) \<le> turns_left (pcs ! i) - count_list ss i)"
  using assms(4)
proof (induction ss arbitrary: pcs w)
  case Nil
  then show ?case by simp
next
  case (Cons i ss)
  show ?case
  proof (cases "i < length pcs")
    case False
    then show ?thesis using Cons.IH [OF Cons.prems] by auto
  next
    case True
    obtain pc w1 where 1: "thread_step (linux_platform S) c (pcs ! i) w = Inr (pc, w1)" "in_opening ms m c n (pcs[i := pc]) w1"
      "turns_left pc \<le> turns_left (pcs ! i) - 1" using opening_step [OF assms(1-3) Cons.prems True] by blast
    obtain pcs' w' where 2: "sched (linux_platform S) c ss (pcs[i := pc]) w1 = Inr (pcs', w')" "in_opening ms m c n pcs' w'"
      "length pcs' = length pcs" "\<forall>j < length pcs. turns_left (pcs' ! j) \<le> turns_left (pcs[i := pc] ! j) - count_list ss j"
      using Cons.IH [OF 1(2)] by auto
    have "turns_left (pcs' ! j) \<le> turns_left (pcs ! j) - count_list (i # ss) j" if "j < length pcs" for j
      using 2(4) that 1(3) by (cases "i = j") fastforce+
    then show ?thesis using True 1(1) 2(1-3) by simp
  qed
qed


section \<open>A thread that closes and one that opens\<close>

text \<open>
  C38: One user has the port open. A thread closes it and another opens it: where the second calls the
  backend after the first has counted down and before the first calls the backend, both
  return 0 and the counter is 1, but the port is closed: it is marked open without a descriptor,
  and reading from it fails.
\<close>

theorem open_close_race:
  assumes "tty_ok S" and "reliable S" and "sinv unix_ok ''/dev/ttyS'' ms w" and "m \<in> set ms"
    and "port_of w m = Some (sm, x, r)" and "\<not> mt sm" and "opencount sm = 1"
  shows "\<exists>w' x' r'. sched (linux_platform S) (sm_t sm) [0, 0, 0, 1, 1, 0, 1] [Close_Start, Open_Start] w =
      Inr ([Returned 0, Returned 0], w') \<and>
    port_of w' m = Some (sm, x', r') \<and> is_open x' \<and> rtu_s r' = Some (-1) \<and>
    unix_serial_read S (sm_t sm) buf len mtimeout w' = Inr (-1, buf, w')"
proof -
  note p = sinv_port [OF assms(3-5)]
  let ?c = "sm_t sm" and ?sm = "sm\<lparr>opencount := 0\<rparr>"
  have o: "is_open x" using p(8) assms(7) by simp
  define w1 where "w1 = put_mgr m ?sm w"
  have dec: "locked_update m (\<lambda>sm. sm\<lparr>opencount := opencount sm - 1\<rparr>) Inr w = Inr w1"
    using locked_count [of w m sm "\<lambda>sm. sm\<lparr>opencount := opencount sm - 1\<rparr>"] p(1) assms(6,7) by (simp add: w1_def)
  have w1: "sers w1 ?c = Some x" "rtus w1 (backend_data x) = Some r" "mgrs w1 m = Some ?sm" by (use p in \<open>simp_all add: w1_def sworld_simps\<close>)
  have "usinv ms w1"
    using sinv_change [OF assms(3-5), of w1 ?sm x r] p by (simp add: w1_def sworld_simps fun_upd_idem)
  then have fm: "find_mgr ?c w1 = Inr (Some m)" using sinv_port(9) [of unix_ok _ ms w1 m ?sm x r] assms(4) w1 by (simp add: port_of_Some)
  have op: "unix_serial_open S ?c w1 = Inr (0, w1)" using w1(1) o by (simp add: unix_serial_open_def)
  obtain f old where f: "rtu_s r = Some f" "f \<noteq> -1" "old_tios r = Some old" using p(4) o by (auto simp: unix_ok_def)
  obtain rs o1 where rs: "tcsetattr S f old (tty w1) = (rs, o1)" by fastforce
  define x2 r2 where "x2 = x\<lparr>is_open := False\<rparr>" and "r2 = r\<lparr>rtu_s := Some (-1)\<rparr>"
  define w2 where "w2 = put_rtu (backend_data x) r2 (put_ser ?c x2 (w1\<lparr>tty := tty_close S f o1\<rparr>))"
  have cl: "unix_serial_close S ?c w1 = Inr (0, w2)"
    using w1 f rs reliableD(4) [OF assms(2) rs] by (simp add: unix_serial_close_def the_rtu_eq w2_def x2_def r2_def)
  define w3 where "w3 = put_mgr m sm (put_ser ?c (x2\<lparr>is_open := True\<rparr>) w2)"
  have "sm\<lparr>opencount := 1\<rparr> = sm" using assms(7) by (cases sm) simp
  then have cnt: "count_open m ?c w2 = Inr w3"
    using linux.count_open_eq [of w2 m ?sm ?c x2] w1(3) assms(6) by (simp add: w2_def w3_def sworld_simps)
  have run: "sched (linux_platform S) ?c [0, 0, 0, 1, 1, 0, 1] [Close_Start, Open_Start] w = Inr ([Returned 0, Returned 0], w3)"
    using p(1,9) assms(7) dec w1(3) fm op cl cnt by (simp add: linux_platform_def linux_serial_backend_def)
  have q: "port_of w3 m = Some (sm, x2\<lparr>is_open := True\<rparr>, r2)" by (simp add: port_of_Some w3_def w2_def x2_def sworld_simps)
  then have "unix_serial_read S ?c buf len mtimeout w3 = Inr (-1, buf, w3)"
    by (simp add: unix_serial_read_def the_rtu_def port_of_Some r2_def)
  with run q show ?thesis by (auto simp: r2_def)
qed

section \<open>The properties at concrete inputs\<close>


theorem open_close_race_witness:
  "\<exists>w' x' r'. sched (linux_platform demo_tty) 2 [0, 0, 0, 1, 1, 0, 1] [Close_Start, Open_Start] (demo_port 2 1 []) =
      Inr ([Returned 0, Returned 0], w') \<and> port_of w' 4 = Some (demo_mgr 2 1, x', r') \<and> is_open x' \<and> rtu_s r' = Some (-1)"
  using open_close_race [OF demo_tty_ok demo_reliable demo_sinv [of 2 1 "[]"] _ demo_port_of, where buf = "[]" and len = 0 and mtimeout = 0]
  by (auto simp: demo_mgr_def)

end
