(* ===== verification/Socket_Cli.thy ===== *)
theory Socket_Cli
  imports Posix
begin

text \<open>
  The TCP client of \<open>src/socket/socket_cli.c\<close> (the build without \<open>_WIN32\<close>): connecting, reading
  with a timeout, reading until a buffer is full, writing all of a buffer, clearing, disconnecting,
  and the reading thread of an asynchronous client. The calls of the operating system are the
  parameter \<open>net\<close>.
\<close>

section \<open>Data\<close>

definition INVALID_SOCKET :: int where "INVALID_SOCKET = -1"
definition AF_INET :: "16 word" where "AF_INET = 2"

text \<open>A field that is \<open>None\<close> was never written. A callback and a thread are named by a number.\<close>

record socket_data =
  recv_cb :: "nat option"
  t_id :: "nat option"
  socket_id :: int
  remote_addr :: sockaddr_in

record socket_cli =
  debug :: int
  is_connect :: bool
  err_code :: int
  async :: int
  con_timeout :: int
  backend_data :: addr

record 'o cworld =
  clis :: "addr \<rightharpoonup> socket_cli"
  datas :: "addr \<rightharpoonup> socket_data"
  cnet :: 'o

text \<open>
  \<open>net_connect\<close>, \<open>net_select\<close>, \<open>net_recv\<close> and \<open>net_send\<close> are the calls of that name, \<open>net_recv\<close> with the
  bytes it stored; \<open>net_sndtimeo\<close> sets the send timeout; \<open>net_spawn\<close> starts a thread and is \<open>None\<close>
  where it cannot (\<open>pthread_create\<close> then leaves the identifier undefined); \<open>net_join\<close> waits for one and is \<open>None\<close>
  where it never ends; \<open>net_pton\<close> reads an address; \<open>net_malloc\<close> gives a new
  block, \<open>net_junk\<close> the address bytes that it held.
\<close>

record 'o net =
  net_socket :: "'o \<Rightarrow> int \<times> 'o"
  net_sndtimeo :: "int \<Rightarrow> int \<times> int \<Rightarrow> 'o \<Rightarrow> 'o"
  net_connect :: "int \<Rightarrow> sockaddr_in \<Rightarrow> 'o \<Rightarrow> int \<times> 'o"
  net_select :: "int \<Rightarrow> int set \<Rightarrow> int \<times> int \<Rightarrow> 'o \<Rightarrow> int \<times> 'o"
  net_recv :: "int \<Rightarrow> size_t \<Rightarrow> 'o \<Rightarrow> int \<times> byte list \<times> 'o"
  net_send :: "int \<Rightarrow> byte list \<Rightarrow> 'o \<Rightarrow> int \<times> 'o"
  net_close :: "int \<Rightarrow> 'o \<Rightarrow> 'o"
  net_errno :: "'o \<Rightarrow> int"
  net_spawn :: "'o \<Rightarrow> nat option \<times> 'o"
  net_join :: "nat \<Rightarrow> 'o \<Rightarrow> 'o option"
  net_pton :: "string \<Rightarrow> 32 word option"
  net_malloc :: "addr set \<Rightarrow> 'o \<Rightarrow> addr option \<times> 'o"
  net_junk :: "'o \<Rightarrow> 32 word"

definition put_cli :: "addr \<Rightarrow> socket_cli \<Rightarrow> 'o cworld \<Rightarrow> 'o cworld" where
  "put_cli c s w = w\<lparr>clis := (clis w)(c \<mapsto> s)\<rparr>"

definition put_data :: "addr \<Rightarrow> socket_data \<Rightarrow> 'o cworld \<Rightarrow> 'o cworld" where
  "put_data p d w = w\<lparr>datas := (datas w)(p \<mapsto> d)\<rparr>"

text \<open>The data of a client; keeping the error of the last call in it.\<close>

definition the_data :: "addr \<Rightarrow> 'o cworld \<Rightarrow> (socket_cli \<times> socket_data) cres" where
  "the_data c w =
     bnd (deref (clis w) c) (\<lambda>s. bnd (deref (datas w) (backend_data s)) (\<lambda>d. Inr (s, d)))"

definition get_cur_err :: "'o net \<Rightarrow> 'o \<Rightarrow> int" where
  [simp]: "get_cur_err N o1 = net_errno N o1"

definition keep_err :: "'o net \<Rightarrow> addr \<Rightarrow> 'o cworld \<Rightarrow> 'o cworld cres" where
  "keep_err N c w =
     bnd (deref (clis w) c) (\<lambda>s. Inr (put_cli c (s\<lparr>err_code := get_cur_err N (cnet w)\<rparr>) w))"

text \<open>\<open>printf\<close> of a buffer with \<open>%s\<close> reads up to the first NUL, wherever that is.\<close>

definition print_str :: "byte list \<Rightarrow> unit cres" where
  "print_str buf = (if 0 \<in> set buf then Inr () else Inl Out_Of_Bounds)"

definition print_debug :: "addr \<Rightarrow> byte list \<Rightarrow> 'o cworld \<Rightarrow> unit cres" where
  "print_debug c buf w =
     bnd (deref (clis w) c) (\<lambda>s. if debug s \<noteq> 0 then print_str buf else Inr ())"

section \<open>Waiting and connecting\<close>

definition select_out :: "'o net \<Rightarrow> addr \<Rightarrow> int \<Rightarrow> 'o cworld \<Rightarrow> (int \<times> 'o cworld) cres" where
  "select_out N c timeout w =
     bnd (deref (clis w) c) (\<lambda>s.
     if timeout = 0 then Inr (1, w)
     else
       bnd (deref (datas w) (backend_data s)) (\<lambda>d.
       bnd (FD_SET (socket_id d) {}) (\<lambda>rset.
       let (ret, o1) = net_select N (socket_id d + 1) rset (timeval_of timeout) (cnet w);
           w = w\<lparr>cnet := o1\<rparr> in
       if ret = 0 then bnd (keep_err N c w) (\<lambda>w. Inr (-1, w)) else Inr (0, w))))"

definition connect_tcp :: "'o net \<Rightarrow> addr \<Rightarrow> 'o cworld \<Rightarrow> (int \<times> 'o cworld) cres" where
  "connect_tcp N c w =
     bnd (deref (clis w) c) (\<lambda>s.
     if is_connect s then Inr (-1, w)
     else
       bnd (deref (datas w) (backend_data s)) (\<lambda>d.
       let (f, o1) = net_socket N (cnet w);
           w = put_data (backend_data s) (d\<lparr>socket_id := f\<rparr>) (w\<lparr>cnet := o1\<rparr>) in
       if f = INVALID_SOCKET then bnd (keep_err N c w) (\<lambda>w. Inr (-1, w))
       else
         let o2 = net_sndtimeo N f (timeval_of (con_timeout s)) (cnet w);
             (r, o3) = net_connect N f (remote_addr d) o2;
             w = w\<lparr>cnet := o3\<rparr> in
         if r = -1 then bnd (keep_err N c w) (\<lambda>w. Inr (-1, w))
         else bnd (deref (clis w) c) (\<lambda>s. Inr (0, put_cli c (s\<lparr>is_connect := True\<rparr>) w))))"

section \<open>Reading\<close>

text \<open>A \<open>recv\<close> to the place behind the bytes read so far; the count is an \<open>int\<close>.\<close>

definition recv_at ::
  "'o net \<Rightarrow> addr \<Rightarrow> byte list \<Rightarrow> int \<Rightarrow> int \<Rightarrow> 'o cworld \<Rightarrow> (int \<times> byte list \<times> 'o cworld) cres" where
  "recv_at N c buf read_len len w =
     bnd (the_data c w) (\<lambda>(s, d).
     let (n, bs, o1) = net_recv N (socket_id d) (word_of_int (len - read_len)) (cnet w) in
     bnd (if 0 < n then wr buf (nat read_len) bs else Inr buf) (\<lambda>buf.
     Inr (to_int n, buf, w\<lparr>cnet := o1\<rparr>)))"

text \<open>The tests and the first \<open>recv\<close>, which the two ways of reading share.\<close>

definition read_first ::
  "'o net \<Rightarrow> addr \<Rightarrow> byte list \<Rightarrow> int \<Rightarrow> int \<Rightarrow> 'o cworld \<Rightarrow> (int \<times> byte list \<times> 'o cworld) cres" where
  "read_first N c buf len timeout w =
     bnd (deref (clis w) c) (\<lambda>s.
     if \<not> is_connect s then Inr (-1, buf, w)
     else if async s \<noteq> 0 then Inr (-1, buf, w)
     else
       bnd (select_out N c timeout w) (\<lambda>(ready, w).
       if ready = -1 then Inr (-1, buf, w)
       else
         bnd (recv_at N c buf 0 len w) (\<lambda>(read_len, buf, w).
         if read_len = -1 then
           bnd (keep_err N c w) (\<lambda>w. bnd (print_str buf) (\<lambda>_. Inr (-1, buf, w)))
         else Inr (read_len, buf, w))))"

definition read_tcp ::
  "'o net \<Rightarrow> addr \<Rightarrow> byte list \<Rightarrow> int \<Rightarrow> int \<Rightarrow> 'o cworld \<Rightarrow> (int \<times> byte list \<times> 'o cworld) cres" where
  "read_tcp N c buf len timeout w =
     bnd (read_first N c buf len timeout w) (\<lambda>(read_len, buf, w).
     if read_len = -1 then Inr (-1, buf, w)
     else bnd (print_debug c buf w) (\<lambda>_. Inr (read_len, buf, w)))"

fun read_all_loop ::
  "'o net \<Rightarrow> nat \<Rightarrow> addr \<Rightarrow> int \<Rightarrow> int \<Rightarrow> int \<Rightarrow> byte list \<Rightarrow> 'o cworld \<Rightarrow> (int \<times> byte list \<times> 'o cworld) cres" where
  "read_all_loop N 0 c len timeout read_len buf w = Inl No_Fuel"
| "read_all_loop N (Suc k) c len timeout read_len buf w =
     (if read_len < len then
        bnd (select_out N c timeout w) (\<lambda>(ready, w).
        if ready = -1 then bnd (print_debug c buf w) (\<lambda>_. Inr (read_len, buf, w))
        else
          bnd (recv_at N c buf read_len len w) (\<lambda>(temp, buf, w).
          if temp = -1 then Inr (read_len, buf, w)
          else read_all_loop N k c len timeout (read_len + temp) buf w))
      else bnd (print_debug c buf w) (\<lambda>_. Inr (read_len, buf, w)))"

definition read_tcp_all ::
  "'o net \<Rightarrow> nat \<Rightarrow> addr \<Rightarrow> byte list \<Rightarrow> int \<Rightarrow> int \<Rightarrow> 'o cworld \<Rightarrow> (int \<times> byte list \<times> 'o cworld) cres" where
  "read_tcp_all N k c buf len timeout w =
     bnd (read_first N c buf len timeout w) (\<lambda>(read_len, buf, w).
     if read_len = -1 then Inr (-1, buf, w)
     else read_all_loop N k c len timeout read_len buf w)"

section \<open>Writing\<close>

text \<open>Each turn that goes on has sent at least one byte. \<open>None\<close> is the \<open>return -1\<close> of the loop.\<close>

function write_loop ::
  "'o net \<Rightarrow> addr \<Rightarrow> byte list \<Rightarrow> int \<Rightarrow> int \<Rightarrow> 'o cworld \<Rightarrow> (int option \<times> 'o cworld) cres" where
  "write_loop N c buf bytes_left write_bytes w =
     (if bytes_left > 0 then
        bnd (the_data c w) (\<lambda>(s, d).
        bnd (rd buf (nat write_bytes) (nat bytes_left)) (\<lambda>bs.
        let (n, o1) = net_send N (socket_id d) bs (cnet w);
            ret = to_int n;
            w = w\<lparr>cnet := o1\<rparr> in
        if ret \<le> 0 then bnd (keep_err N c w) (\<lambda>w. Inr (None, w))
        else write_loop N c buf (bytes_left - ret) (write_bytes + ret) w))
      else Inr (Some write_bytes, w))"
  by pat_completeness auto
termination by (relation "measure (\<lambda>(N, c, buf, bytes_left, write_bytes, w). nat bytes_left)") auto

definition write_tcp ::
  "'o net \<Rightarrow> addr \<Rightarrow> byte list \<Rightarrow> int \<Rightarrow> int \<Rightarrow> 'o cworld \<Rightarrow> (int \<times> 'o cworld) cres" where
  "write_tcp N c buf len timeout w =
     bnd (deref (clis w) c) (\<lambda>s.
     if \<not> is_connect s then Inr (-1, w)
     else
       bnd (write_loop N c buf len 0 w) (\<lambda>(r, w).
       case r of
         None \<Rightarrow> Inr (-1, w)
       | Some n \<Rightarrow> bnd (print_debug c buf w) (\<lambda>_. Inr (n, w))))"

section \<open>Clearing, disconnecting, destroying\<close>

text \<open>The loop reads a byte while \<open>select\<close> with no wait says that one is there.\<close>

fun clean_loop :: "'o net \<Rightarrow> nat \<Rightarrow> addr \<Rightarrow> 'o cworld \<Rightarrow> 'o cworld cres" where
  "clean_loop N 0 c w = Inl No_Fuel"
| "clean_loop N (Suc k) c w =
     bnd (the_data c w) (\<lambda>(s, d).
     bnd (FD_SET (socket_id d) {}) (\<lambda>rset.
     let (n, o1) = net_select N (socket_id d + 1) rset (0, 0) (cnet w);
         w = w\<lparr>cnet := o1\<rparr> in
     if n = 0 then Inr w
     else
       bnd (recv_at N c [0, 0] 0 1 w) (\<lambda>(_, _, w).
       clean_loop N k c w)))"

definition clean_tcp :: "'o net \<Rightarrow> nat \<Rightarrow> addr \<Rightarrow> 'o cworld \<Rightarrow> (int \<times> 'o cworld) cres" where
  "clean_tcp N k c w =
     bnd (deref (clis w) c) (\<lambda>s.
     if \<not> is_connect s then Inr (-1, w)
     else if async s = 0 then Inr (0, w)
     else bnd (clean_loop N k c w) (\<lambda>w. Inr (0, w)))"

definition join_thread :: "'o net \<Rightarrow> nat option \<Rightarrow> 'o cworld \<Rightarrow> 'o cworld cres" where
  "join_thread N th w =
     bnd (initialised th) (\<lambda>th.
     case net_join N th (cnet w) of None \<Rightarrow> Inl Deadlock | Some o1 \<Rightarrow> Inr (w\<lparr>cnet := o1\<rparr>))"

definition disconnect_tcp :: "'o net \<Rightarrow> addr \<Rightarrow> 'o cworld \<Rightarrow> (int \<times> 'o cworld) cres" where
  "disconnect_tcp N c w =
     bnd (deref (clis w) c) (\<lambda>s.
     let w = put_cli c (s\<lparr>is_connect := False\<rparr>) w in
     bnd (deref (datas w) (backend_data s)) (\<lambda>d.
     bnd (if socket_id d \<noteq> INVALID_SOCKET then
            bnd (if async s \<noteq> 0 then join_thread N (t_id d) w else Inr w) (\<lambda>w.
            Inr (w\<lparr>cnet := net_close N (socket_id d) (cnet w)\<rparr>))
          else Inr w) (\<lambda>w.
     Inr (0, put_data (backend_data s) (d\<lparr>socket_id := INVALID_SOCKET\<rparr>) w))))"

definition destory_tcp :: "'o net \<Rightarrow> addr \<Rightarrow> 'o cworld \<Rightarrow> 'o cworld cres" where
  "destory_tcp N c w =
     bnd (disconnect_tcp N c w) (\<lambda>(_, w).
     bnd (deref (clis w) c) (\<lambda>s.
     Inr (w\<lparr>datas := (datas w)(backend_data s := None), clis := (clis w)(c := None)\<rparr>)))"

section \<open>The reading thread\<close>

text \<open>
  \<open>on_recv\<close> is what the callback does. Between two turns of the loop other threads change the
  world; \<open>others k\<close> is what they do before the turn with \<open>k\<close> to go. The loop may run for ever:
  \<open>k\<close> bounds it.
\<close>

fun task_read ::
  "'o net \<Rightarrow> (nat \<Rightarrow> byte list \<Rightarrow> int \<Rightarrow> 'o cworld \<Rightarrow> 'o cworld cres) \<Rightarrow> (nat \<Rightarrow> 'o cworld \<Rightarrow> 'o cworld) \<Rightarrow>
     nat \<Rightarrow> addr \<Rightarrow> 'o cworld \<Rightarrow> 'o cworld cres" where
  "task_read N on_recv others 0 c w = Inl No_Fuel"
| "task_read N on_recv others (Suc k) c w =
     (let w = others k w in
      bnd (deref (clis w) c) (\<lambda>s.
      if \<not> is_connect s then Inr w
      else
        bnd (recv_at N c (replicate 4096 0) 0 4096 w) (\<lambda>(ret, cbuf, w).
        if ret > 0 then
          bnd (the_data c w) (\<lambda>(s, d).
          bnd (initialised (recv_cb d)) (\<lambda>cb.
          bnd (on_recv cb cbuf ret w) (\<lambda>w.
          bnd (print_debug c cbuf w) (\<lambda>_.
          task_read N on_recv others k c w))))
        else task_read N on_recv others k c w)))"

section \<open>The interface\<close>

record 'o socket_cli_backend =
  cli_connect :: "addr \<Rightarrow> 'o cworld \<Rightarrow> (int \<times> 'o cworld) cres"
  cli_read :: "addr \<Rightarrow> byte list \<Rightarrow> int \<Rightarrow> int \<Rightarrow> 'o cworld \<Rightarrow> (int \<times> byte list \<times> 'o cworld) cres"
  cli_read_all :: "addr \<Rightarrow> byte list \<Rightarrow> int \<Rightarrow> int \<Rightarrow> 'o cworld \<Rightarrow> (int \<times> byte list \<times> 'o cworld) cres"
  cli_write :: "addr \<Rightarrow> byte list \<Rightarrow> int \<Rightarrow> int \<Rightarrow> 'o cworld \<Rightarrow> (int \<times> 'o cworld) cres"
  cli_clean :: "addr \<Rightarrow> 'o cworld \<Rightarrow> (int \<times> 'o cworld) cres"
  cli_disconnect :: "addr \<Rightarrow> 'o cworld \<Rightarrow> (int \<times> 'o cworld) cres"
  cli_destory :: "addr \<Rightarrow> 'o cworld \<Rightarrow> 'o cworld cres"

definition tcp_backend :: "'o net \<Rightarrow> nat \<Rightarrow> 'o socket_cli_backend" where
  "tcp_backend N k =
     \<lparr>cli_connect = connect_tcp N, cli_read = read_tcp N, cli_read_all = read_tcp_all N k, cli_write = write_tcp N,
      cli_clean = clean_tcp N k, cli_disconnect = disconnect_tcp N, cli_destory = destory_tcp N\<rparr>"

text \<open>A 16-bit number in network order, on a little-endian host.\<close>

definition htons :: "16 word \<Rightarrow> 16 word" where
  "htons x = push_bit 8 x OR drop_bit 8 x"

definition NULL_cli :: addr where "NULL_cli = 0"

text \<open>\<open>malloc\<close> is not checked: without memory its NULL is written through.\<close>

definition socket_cli_new :: "'o net \<Rightarrow> int \<Rightarrow> string \<Rightarrow> int \<Rightarrow> int \<Rightarrow> 'o cworld \<Rightarrow> (addr \<times> 'o cworld) cres" where
  "socket_cli_new N port addr asyn timeout w =
     (case net_malloc N (dom (clis w) \<union> dom (datas w)) (cnet w) of
        (None, o1) \<Rightarrow> Inl Bad_Pointer
      | (Some c, o1) \<Rightarrow>
          (case net_malloc N (insert c (dom (clis w) \<union> dom (datas w))) o1 of
             (None, o2) \<Rightarrow> Inl Bad_Pointer
           | (Some p, o2) \<Rightarrow>
               let ip = (case net_pton N addr of Some a \<Rightarrow> a | None \<Rightarrow> net_junk N o2);
                   d = \<lparr>recv_cb = None, t_id = None, socket_id = INVALID_SOCKET,
                        remote_addr = \<lparr>sin_family = AF_INET, sin_port = htons (word_of_int port), sin_addr = ip\<rparr>\<rparr>;
                   s = \<lparr>debug = 0, is_connect = False, err_code = 0, async = asyn, con_timeout = timeout,
                        backend_data = p\<rparr>
               in Inr (c, put_data p d (put_cli c s (w\<lparr>cnet := o2\<rparr>)))))"

definition socket_connect :: "'o net \<Rightarrow> nat \<Rightarrow> addr \<Rightarrow> 'o cworld \<Rightarrow> (int \<times> 'o cworld) cres" where
  "socket_connect N k c w = c_assert (c \<noteq> NULL_cli) (cli_connect (tcp_backend N k) c w)"

definition socket_register_notify :: "'o net \<Rightarrow> addr \<Rightarrow> nat \<Rightarrow> 'o cworld \<Rightarrow> (int \<times> 'o cworld) cres" where
  "socket_register_notify N c cb w =
     c_assert (c \<noteq> NULL_cli) (
     bnd (deref (clis w) c) (\<lambda>s.
     if \<not> is_connect s then Inr (-1, w)
     else if async s = 0 then Inr (-1, w)
     else
       bnd (deref (datas w) (backend_data s)) (\<lambda>d.
       let (th, o1) = net_spawn N (cnet w) in
       Inr (0, (put_data (backend_data s) (d\<lparr>recv_cb := Some cb, t_id := th\<rparr>) w)\<lparr>cnet := o1\<rparr>))))"

definition socket_read ::
  "'o net \<Rightarrow> nat \<Rightarrow> addr \<Rightarrow> byte list \<Rightarrow> int \<Rightarrow> int \<Rightarrow> 'o cworld \<Rightarrow> (int \<times> byte list \<times> 'o cworld) cres" where
  "socket_read N k c buf len timeout w = c_assert (c \<noteq> NULL_cli) (cli_read (tcp_backend N k) c buf len timeout w)"

definition socket_read_all ::
  "'o net \<Rightarrow> nat \<Rightarrow> addr \<Rightarrow> byte list \<Rightarrow> int \<Rightarrow> int \<Rightarrow> 'o cworld \<Rightarrow> (int \<times> byte list \<times> 'o cworld) cres" where
  "socket_read_all N k c buf len timeout w = c_assert (c \<noteq> NULL_cli) (cli_read_all (tcp_backend N k) c buf len timeout w)"

definition socket_write ::
  "'o net \<Rightarrow> nat \<Rightarrow> addr \<Rightarrow> byte list \<Rightarrow> int \<Rightarrow> int \<Rightarrow> 'o cworld \<Rightarrow> (int \<times> 'o cworld) cres" where
  "socket_write N k c buf len timeout w = c_assert (c \<noteq> NULL_cli) (cli_write (tcp_backend N k) c buf len timeout w)"

definition socket_clean :: "'o net \<Rightarrow> nat \<Rightarrow> addr \<Rightarrow> 'o cworld \<Rightarrow> (int \<times> 'o cworld) cres" where
  "socket_clean N k c w = c_assert (c \<noteq> NULL_cli) (cli_clean (tcp_backend N k) c w)"

definition socket_disconnect :: "'o net \<Rightarrow> nat \<Rightarrow> addr \<Rightarrow> 'o cworld \<Rightarrow> (int \<times> 'o cworld) cres" where
  "socket_disconnect N k c w = c_assert (c \<noteq> NULL_cli) (cli_disconnect (tcp_backend N k) c w)"

definition socket_destory :: "'o net \<Rightarrow> nat \<Rightarrow> addr \<Rightarrow> 'o cworld \<Rightarrow> 'o cworld cres" where
  "socket_destory N k c w = c_assert (c \<noteq> NULL_cli) (cli_destory (tcp_backend N k) c w)"

definition socket_is_connect :: "addr \<Rightarrow> 'o cworld \<Rightarrow> bool cres" where
  "socket_is_connect c w = c_assert (c \<noteq> NULL_cli) (bnd (deref (clis w) c) (\<lambda>s. Inr (is_connect s)))"

definition socket_set_debug :: "addr \<Rightarrow> bool \<Rightarrow> 'o cworld \<Rightarrow> 'o cworld cres" where
  "socket_set_debug c b w =
     c_assert (c \<noteq> NULL_cli) (bnd (deref (clis w) c) (\<lambda>s. Inr (put_cli c (s\<lparr>debug := (if b then 1 else 0)\<rparr>) w)))"

definition socket_get_last_error :: "addr \<Rightarrow> 'o cworld \<Rightarrow> int cres" where
  "socket_get_last_error c w = c_assert (c \<noteq> NULL_cli) (bnd (deref (clis w) c) (\<lambda>s. Inr (err_code s)))"

end
