(* ===== verification/Socket_Client.thy ===== *)
theory Socket_Client
  imports Socket_Cli
begin

text \<open>
  What the TCP client does: writing hands over the whole buffer or fails, reading delivers what
  arrived, disconnecting closes once; and where it goes wrong. The laws of the calls are on two
  logs that the outside world keeps, of the bytes sent and of the bytes received.
\<close>

named_theorems cworld_simps \<open>reading the client world after a store\<close>

lemma put_cli_fields [cworld_simps]:
  "clis (put_cli c s w) = (clis w)(c \<mapsto> s)" "datas (put_cli c s w) = datas w" "cnet (put_cli c s w) = cnet w"
  by (simp_all add: put_cli_def)

lemma put_data_fields [cworld_simps]:
  "clis (put_data p d w) = clis w" "datas (put_data p d w) = (datas w)(p \<mapsto> d)" "cnet (put_data p d w) = cnet w"
  by (simp_all add: put_data_def)

text \<open>The client \<open>c\<close> and its data; no debug output, which would print the buffers.\<close>

definition client :: "addr \<Rightarrow> socket_cli \<Rightarrow> socket_data \<Rightarrow> 'o cworld \<Rightarrow> bool" where
  "client c s d w \<longleftrightarrow> c \<noteq> NULL_cli \<and> clis w c = Some s \<and> datas w (backend_data s) = Some d"

lemma clientD:
  assumes "client c s d w"
  shows "c \<noteq> NULL_cli" "clis w c = Some s" "datas w (backend_data s) = Some d" "the_data c w = Inr (s, d)"
    "keep_err N c w = Inr (put_cli c (s\<lparr>err_code := net_errno N (cnet w)\<rparr>) w)"
    "print_debug c buf w = (if debug s \<noteq> 0 then print_str buf else Inr ())"
  using assms by (simp_all add: client_def the_data_def keep_err_def print_debug_def)

lemma client_net: "client c s d (w\<lparr>cnet := o1\<rparr>) = client c s d w"
  by (simp add: client_def)

lemma client_err: "client c s d w \<Longrightarrow> client c (s\<lparr>err_code := e\<rparr>) d (put_cli c (s\<lparr>err_code := e\<rparr>) w)"
  by (simp add: client_def cworld_simps)

section \<open>Writing\<close>

text \<open>\<open>send\<close> takes some bytes off the front of what it is given.\<close>

definition send_ok :: "'o net \<Rightarrow> ('o \<Rightarrow> byte list) \<Rightarrow> bool" where
  "send_ok N sent \<longleftrightarrow>
     (\<forall>f bs o1 n o2. net_send N f bs o1 = (n, o2) \<longrightarrow> n \<le> int (length bs) \<and> sent o2 = sent o1 @ take (nat n) bs)"

text \<open>Where \<open>send\<close> returns less than -1, which it never does, the count could wrap.\<close>

definition counts_ok :: "'o net \<Rightarrow> bool" where
  "counts_ok N \<longleftrightarrow> (\<forall>f bs o1. - 1 \<le> fst (net_send N f bs o1)) \<and> (\<forall>f n o1. - 1 \<le> fst (net_recv N f n o1))"

declare write_loop.simps [simp del]

text \<open>A turn of the loop: \<open>n\<close> bytes are sent, none of them where it ends the loop.\<close>

lemma write_turn:
  assumes S: "send_ok N sent" "counts_ok N" and c: "client c s d w" and b: "0 < lft" "lft < 2 ^ 31" "0 \<le> wn" "wn + lft \<le> int (length buf)"
  obtains n o1 where "n \<le> lft" "sent o1 = sent (cnet w) @ take (nat n) (drop (nat wn) buf)"
    "write_loop N c buf lft wn w =
      (if n \<le> 0 then Inr (None, put_cli c (s\<lparr>err_code := net_errno N o1\<rparr>) (w\<lparr>cnet := o1\<rparr>))
       else write_loop N c buf (lft - n) (wn + n) (w\<lparr>cnet := o1\<rparr>))"
proof -
  define bs where "bs = take (nat lft) (drop (nat wn) buf)"
  have len: "nat wn + nat lft \<le> length buf" using b by linarith
  have bs: "rd buf (nat wn) (nat lft) = Inr bs" "length bs = nat lft" using len by (simp_all add: bs_def)
  obtain n o1 where n: "net_send N (socket_id d) bs (cnet w) = (n, o1)" by fastforce
  have n1: "n \<le> int (length bs)" "sent o1 = sent (cnet w) @ take (nat n) bs" using S(1) n unfolding send_ok_def by blast+
  have n2: "- 1 \<le> n" using S(2) n unfolding counts_ok_def by (metis fst_conv)
  have nl: "n \<le> lft" using n1(1) bs(2) b(1) by simp
  have ti: "to_int n = n" by (rule to_int_id) (use n2 nl b in linarith)+
  have "client c s d (w\<lparr>cnet := o1\<rparr>)" using c by (simp add: client_net)
  from clientD(5) [OF this] have
    "write_loop N c buf lft wn w =
      (if n \<le> 0 then Inr (None, put_cli c (s\<lparr>err_code := net_errno N o1\<rparr>) (w\<lparr>cnet := o1\<rparr>))
       else write_loop N c buf (lft - n) (wn + n) (w\<lparr>cnet := o1\<rparr>))"
    using b(1) clientD(4) [OF c] bs(1) n ti by (subst write_loop.simps) simp
  moreover have "take (nat n) bs = take (nat n) (drop (nat wn) buf)" using nl by (simp add: bs_def min_absorb1 nat_mono)
  ultimately show thesis using that nl n1(2) by simp
qed

text \<open>
  What the loop does with \<open>lft\<close> bytes to go behind \<open>wn\<close> that were written: all of them are sent, or, where
  it gives up, a proper prefix is, and the client keeps the error.
\<close>

definition wrote :: "('o \<Rightarrow> byte list) \<Rightarrow> addr \<Rightarrow> socket_cli \<Rightarrow> byte list \<Rightarrow> int \<Rightarrow> int \<Rightarrow> 'o cworld \<Rightarrow>
    int option \<Rightarrow> 'o cworld \<Rightarrow> bool" where
  "wrote sent c s buf lft wn w r w' \<longleftrightarrow> datas w' = datas w \<and>
    (case r of
       Some n \<Rightarrow> n = wn + lft \<and> clis w' = clis w \<and> sent (cnet w') = sent (cnet w) @ take (nat lft) (drop (nat wn) buf)
     | None \<Rightarrow> (\<exists>e. clis w' = (clis w)(c \<mapsto> s\<lparr>err_code := e\<rparr>)) \<and>
         (\<exists>j. j < nat lft \<and> sent (cnet w') = sent (cnet w) @ take j (drop (nat wn) buf)))"

lemma wrote_more:
  assumes "wrote sent c s buf (lft - n) (wn + n) (w\<lparr>cnet := o1\<rparr>) r w'"
    and "sent o1 = sent (cnet w) @ take (nat n) (drop (nat wn) buf)" and "0 < n" and "n \<le> lft" and "0 \<le> wn"
  shows "wrote sent c s buf lft wn w r w'"
proof -
  have app: "take (nat n) (drop (nat wn) buf) @ take j (drop (nat (wn + n)) buf) = take (nat n + j) (drop (nat wn) buf)" for j
    using assms(3,5) unfolding take_add by (simp add: nat_add_distrib add.commute [of "nat wn"])
  have sum: "nat n + nat (lft - n) = nat lft" using assms(3,4) by linarith
  show ?thesis
  proof (cases r)
    case None
    then obtain j where "j < nat (lft - n)" "sent (cnet w') = sent (cnet w) @ take (nat n + j) (drop (nat wn) buf)"
      using assms(1,2) app by (auto simp: wrote_def)
    then show ?thesis using assms(1) None sum by (auto simp: wrote_def intro!: exI [of _ "nat n + j"])
  next
    case (Some m)
    then show ?thesis using assms(1,2) app [of "nat (lft - n)"] sum by (simp add: wrote_def)
  qed
qed

lemma write_loop_sends:
  assumes "send_ok N sent" and "counts_ok N" and "client c s d w" and "0 \<le> lft" and "lft < 2 ^ 31" and "0 \<le> wn"
    and "wn + lft \<le> int (length buf)"
  shows "\<exists>r w'. write_loop N c buf lft wn w = Inr (r, w') \<and> wrote sent c s buf lft wn w r w'"
  using assms
proof (induction "nat lft" arbitrary: lft wn w rule: less_induct)
  case less
  show ?case
  proof (cases "lft > 0")
    case False
    then show ?thesis using less.prems(4) by (simp add: write_loop.simps wrote_def)
  next
    case True
    obtain n o1 where n: "n \<le> lft" "sent o1 = sent (cnet w) @ take (nat n) (drop (nat wn) buf)"
      and run: "write_loop N c buf lft wn w =
        (if n \<le> 0 then Inr (None, put_cli c (s\<lparr>err_code := net_errno N o1\<rparr>) (w\<lparr>cnet := o1\<rparr>))
         else write_loop N c buf (lft - n) (wn + n) (w\<lparr>cnet := o1\<rparr>))"
      by (rule write_turn [OF less.prems(1-3) True less.prems(5-7)])
    show ?thesis
    proof (cases "n \<le> 0")
      case n0: True
      then show ?thesis using n(2) run True by (auto simp: wrote_def cworld_simps intro!: exI [of _ "0 :: nat"])
    next
      case n0: False
      have c1: "client c s d (w\<lparr>cnet := o1\<rparr>)" using less.prems(3) by (simp add: client_net)
      have lt: "nat (lft - n) < nat lft" "0 \<le> lft - n" "lft - n < 2 ^ 31" "0 \<le> wn + n" "wn + n + (lft - n) \<le> int (length buf)"
        using n0 n(1) less.prems(5-7) True by linarith+
      obtain r w' where ih: "write_loop N c buf (lft - n) (wn + n) (w\<lparr>cnet := o1\<rparr>) = Inr (r, w')"
        "wrote sent c s buf (lft - n) (wn + n) (w\<lparr>cnet := o1\<rparr>) r w'"
        using less.hyps [OF lt(1) less.prems(1,2) c1 lt(2-5)] by blast
      from wrote_more [OF ih(2) n(2) _ n(1) less.prems(6)] n0 run ih(1) show ?thesis by simp
    qed
  qed
qed

text \<open>The whole block is sent, or a proper prefix of it.\<close>

lemma write_whole:
  assumes "send_ok N sent" and "counts_ok N" and "client c s d w" and "is_connect s" and "debug s = 0"
    and "0 \<le> len" and "len < 2 ^ 31" and "len \<le> int (length buf)"
  shows "\<exists>n w'. socket_write N k c buf len timeout w = Inr (n, w') \<and>
    (n = len \<and> clis w' = clis w \<and> sent (cnet w') = sent (cnet w) @ take (nat len) buf \<or>
     n = -1 \<and> (\<exists>j. j < nat len \<and> sent (cnet w') = sent (cnet w) @ take j buf))"
proof -
  note cl = clientD [OF assms(3)]
  obtain r w' where w': "write_loop N c buf len 0 w = Inr (r, w')" "wrote sent c s buf len 0 w r w'"
    using write_loop_sends [OF assms(1-3,6,7), of 0 buf] assms(8) by auto
  have e: "socket_write N k c buf len timeout w =
      bnd (Inr (r, w')) (\<lambda>(r, w). case r of None \<Rightarrow> Inr (-1, w) | Some n \<Rightarrow> bnd (print_debug c buf w) (\<lambda>_. Inr (n, w)))"
    using cl assms(4) w'(1) by (simp add: socket_write_def tcp_backend_def write_tcp_def)
  show ?thesis
  proof (cases r)
    case None
    then show ?thesis using e w'(2) by (auto simp: wrote_def)
  next
    case (Some n)
    then have c': "client c s d w'" using assms(3) w'(2) by (simp add: client_def wrote_def)
    show ?thesis using e w'(2) Some clientD(6) [OF c'] assms(5) by (simp add: wrote_def)
  qed
qed

text \<open>
  C15: Writing to a connected client returns. It returns the length of the block and all of it was
  sent, in order; or -1, and a proper prefix of it was.
\<close>

theorem cli_write_all:
  assumes "send_ok N sent" and "counts_ok N" and "client c s d w" and "is_connect s" and "debug s = 0"
    and "0 \<le> len" and "len < 2 ^ 31" and "len \<le> int (length buf)"
  shows "\<exists>n w'. socket_write N k c buf len timeout w = Inr (n, w') \<and>
    (n = len \<and> clis w' = clis w \<and> sent (cnet w') = sent (cnet w) @ take (nat len) buf \<or>
     n = -1 \<and> (\<exists>j. j < nat len \<and> sent (cnet w') = sent (cnet w) @ take j buf))"
  by (rule write_whole [OF assms])

section \<open>Reading\<close>

text \<open>\<open>recv\<close> stores as many bytes as it says; \<open>got\<close> logs what was received. \<open>select\<close> receives nothing.\<close>

definition recv_ok :: "'o net \<Rightarrow> ('o \<Rightarrow> byte list) \<Rightarrow> bool" where
  "recv_ok N got \<longleftrightarrow>
     (\<forall>f k o1 n bs o2. net_recv N f k o1 = (n, bs, o2) \<longrightarrow>
        n \<le> int (unat k) \<and> (0 < n \<longrightarrow> int (length bs) = n) \<and> got o2 = got o1 @ (if 0 < n then bs else [])) \<and>
     (\<forall>f A tv o1 n o2. net_select N f A tv o1 = (n, o2) \<longrightarrow> got o2 = got o1)"

text \<open>A step of a read: the client stays but for its error code, the log grows by \<open>bs\<close>.\<close>

definition read_step :: "('o \<Rightarrow> byte list) \<Rightarrow> addr \<Rightarrow> socket_cli \<Rightarrow> byte list \<Rightarrow> 'o cworld \<Rightarrow> 'o cworld \<Rightarrow> bool" where
  "read_step got c s bs w w' \<longleftrightarrow>
     datas w' = datas w \<and> (\<exists>e. clis w' = (clis w)(c \<mapsto> s\<lparr>err_code := e\<rparr>)) \<and> got (cnet w') = got (cnet w) @ bs"

lemma read_step_refl: "client c s d w \<Longrightarrow> read_step got c s [] w w"
  by (auto simp: read_step_def client_def fun_upd_idem intro!: exI [of _ "err_code s"])

lemma read_step_trans:
  assumes "read_step got c s bs w w1" and "read_step got c (s\<lparr>err_code := e\<rparr>) bs' w1 w2"
  shows "read_step got c s (bs @ bs') w w2"
  using assms by (auto simp: read_step_def)

lemma read_step_client:
  assumes "client c s d w" and "read_step got c s bs w w'"
  obtains e where "client c (s\<lparr>err_code := e\<rparr>) d w'"
  using assms by (auto simp: client_def read_step_def)

lemma select_out_step:
  assumes "recv_ok N got" and "client c s d w" and "0 \<le> socket_id d" and "socket_id d < FD_SETSIZE"
  shows "\<exists>r w'. select_out N c timeout w = Inr (r, w') \<and> read_step got c s [] w w' \<and> (r = -1 \<or> 0 \<le> r)"
proof (cases "timeout = 0")
  case True
  then show ?thesis using clientD(2) [OF assms(2)] read_step_refl [OF assms(2)] by (simp add: select_out_def)
next
  case False
  obtain n o1 where n: "net_select N (socket_id d + 1) {socket_id d} (timeval_of timeout) (cnet w) = (n, o1)" by fastforce
  have g: "got o1 = got (cnet w)" using assms(1) n unfolding recv_ok_def by blast
  have c1: "client c s d (w\<lparr>cnet := o1\<rparr>)" using assms(2) by (simp add: client_net)
  have "select_out N c timeout w =
      (if n = 0 then Inr (-1, put_cli c (s\<lparr>err_code := net_errno N o1\<rparr>) (w\<lparr>cnet := o1\<rparr>)) else Inr (0, w\<lparr>cnet := o1\<rparr>))"
    using False clientD [OF assms(2)] assms(3,4) n clientD(5) [OF c1] by (simp add: select_out_def FD_SET_def)
  moreover have "read_step got c s [] w (put_cli c (s\<lparr>err_code := net_errno N o1\<rparr>) (w\<lparr>cnet := o1\<rparr>))"
    using g by (auto simp: read_step_def cworld_simps)
  moreover have "read_step got c s [] w (w\<lparr>cnet := o1\<rparr>)"
    using g clientD(2) [OF assms(2)] by (auto simp: read_step_def fun_upd_idem intro!: exI [of _ "err_code s"])
  ultimately show ?thesis by simp
qed

text \<open>A \<open>recv\<close> into the rest of the buffer.\<close>

lemma recv_at_step:
  assumes "recv_ok N got" and "counts_ok N" and "client c s d w" and "0 \<le> rl" and "rl \<le> len" and "len \<le> int (length buf)"
    and "len < 2 ^ 31" and "net_recv N (socket_id d) (word_of_int (len - rl)) (cnet w) = (n, bs, o1)"
  shows "recv_at N c buf rl len w =
      Inr (n, if 0 < n then take (nat rl) buf @ bs @ drop (nat rl + length bs) buf else buf, w\<lparr>cnet := o1\<rparr>)"
    and "-1 \<le> n" and "n \<le> len - rl" and "0 < n \<Longrightarrow> int (length bs) = n"
    and "read_step got c s (if 0 < n then bs else []) w (w\<lparr>cnet := o1\<rparr>)"
proof -
  have u: "unat (word_of_int (len - rl) :: size_t) = nat (len - rl)"
    by (rule to_size_t) (use assms(4,5,7) in linarith)+
  have r: "n \<le> int (unat (word_of_int (len - rl) :: size_t))" "0 < n \<longrightarrow> int (length bs) = n"
    "got o1 = got (cnet w) @ (if 0 < n then bs else [])"
    using assms(1,8) unfolding recv_ok_def by blast+
  show n1: "-1 \<le> n" using assms(2,8) unfolding counts_ok_def by (metis fst_conv)
  show n2: "n \<le> len - rl" using r(1) assms(5) unfolding u by simp
  show "0 < n \<Longrightarrow> int (length bs) = n" using r(2) by simp
  have "to_int n = n" by (rule to_int_id) (use n1 n2 assms(4,7) in auto)
  moreover have "nat rl + length bs \<le> length buf" if "0 < n" using that r(2) n2 assms(4-6) by linarith
  ultimately show "recv_at N c buf rl len w =
      Inr (n, if 0 < n then take (nat rl) buf @ bs @ drop (nat rl + length bs) buf else buf, w\<lparr>cnet := o1\<rparr>)"
    using clientD(4) [OF assms(3)] assms(8) by (simp add: recv_at_def)
  show "read_step got c s (if 0 < n then bs else []) w (w\<lparr>cnet := o1\<rparr>)"
    using r(3) clientD(2) [OF assms(3)] by (auto simp: read_step_def fun_upd_idem intro!: exI [of _ "err_code s"])
qed

text \<open>The peer keeps the connection: \<open>recv\<close> never gives 0, which is the end of the stream.\<close>

definition stays_open :: "'o net \<Rightarrow> bool" where
  "stays_open N \<longleftrightarrow> (\<forall>f k o1. fst (net_recv N f k o1) \<noteq> 0)"

text \<open>The result of a read: \<open>n\<close> bytes behind the first \<open>rl\<close>, the rest of the buffer as it was.\<close>

definition filled :: "int \<Rightarrow> int \<Rightarrow> byte list \<Rightarrow> byte list \<Rightarrow> byte list \<Rightarrow> bool" where
  "filled rl n bs buf buf' \<longleftrightarrow>
     rl \<le> n \<and> int (length bs) = n - rl \<and> buf' = take (nat rl) buf @ bs @ drop (nat rl + length bs) buf"

lemma filled_refl: "filled rl rl [] buf buf"
  by (simp add: filled_def)

lemma filled_trans:
  assumes "filled rl m bs buf buf1" and "filled m n bs' buf1 buf2" and "0 \<le> rl" and "m \<le> int (length buf)"
  shows "filled rl n (bs @ bs') buf buf2"
proof -
  have m: "nat m = nat rl + length bs" using assms(1,3) by (simp add: filled_def) linarith
  then have "length bs + nat rl \<le> length buf" using assms(4) by linarith
  then have "take (nat m) buf1 = take (nat rl) buf @ bs"
    and "drop (nat m + length bs') buf1 = drop (nat rl + length (bs @ bs')) buf"
    using assms(1) m by (auto simp: filled_def ac_simps)
  then show ?thesis using assms(1,2) by (simp add: filled_def)
qed

text \<open>
  A turn waits, then receives behind what is there: it ends the read where the wait times out or
  \<open>recv\<close> fails, and brings at least one byte otherwise.
\<close>

lemma read_turn:
  assumes "recv_ok N got" and "counts_ok N" and "stays_open N" and c: "client c s d w"
    and "0 \<le> socket_id d" and "socket_id d < FD_SETSIZE"
    and rl: "0 \<le> rl" "rl \<le> len" "len \<le> int (length buf)" "len < 2 ^ 31"
  obtains
    (timeout) w1 where "select_out N c timeout w = Inr (-1, w1)" "read_step got c s [] w w1"
  | (failed) r w1 w2 where "select_out N c timeout w = Inr (r, w1)" "r \<noteq> -1" "recv_at N c buf rl len w1 = Inr (-1, buf, w2)"
      "read_step got c s [] w w2"
  | (more) r w1 w2 n bs buf' where "select_out N c timeout w = Inr (r, w1)" "r \<noteq> -1"
      "recv_at N c buf rl len w1 = Inr (n, buf', w2)" "0 < n" "rl + n \<le> len" "length buf' = length buf"
      "filled rl (rl + n) bs buf buf'" "read_step got c s bs w w2"
proof -
  obtain r w1 where w1: "select_out N c timeout w = Inr (r, w1)" "read_step got c s [] w w1"
    using select_out_step [OF assms(1) c assms(5,6)] by blast
  obtain e where c1: "client c (s\<lparr>err_code := e\<rparr>) d w1" by (rule read_step_client [OF c w1(2)])
  obtain n bs o1 where n: "net_recv N (socket_id d) (word_of_int (len - rl)) (cnet w1) = (n, bs, o1)" using prod_cases3 by blast
  note rc = recv_at_step [OF assms(1,2) c1 rl n]
  have nz: "n \<noteq> 0" using assms(3) n unfolding stays_open_def by (metis fst_conv)
  have st: "read_step got c s (if 0 < n then bs else []) w (w1\<lparr>cnet := o1\<rparr>)" using read_step_trans [OF w1(2) rc(5)] by simp
  show thesis
  proof (cases "r = -1"; cases "n = -1")
    assume "r \<noteq> -1" and "n \<noteq> -1"
    with rc(2) nz have pos: "0 < n" by linarith
    let ?buf = "take (nat rl) buf @ bs @ drop (nat rl + length bs) buf"
    have "length ?buf = length buf" using rc(3,4) pos rl by simp
    moreover have "filled rl (rl + n) bs buf ?buf" using rc(4) pos by (simp add: filled_def)
    ultimately show thesis using more [OF w1(1) \<open>r \<noteq> -1\<close>, of n ?buf "w1\<lparr>cnet := o1\<rparr>" bs] rc(1,3) pos st by simp
  qed (use timeout failed w1 rc(1) st in simp_all)
qed

lemma read_all_loop_step:
  assumes "recv_ok N got" and "counts_ok N" and "stays_open N" and "client c s d w"
    and "0 \<le> socket_id d" and "socket_id d < FD_SETSIZE" and "debug s = 0"
    and "0 \<le> rl" and "rl \<le> len" and "len \<le> int (length buf)" and "len < 2 ^ 31" and "nat (len - rl) < k"
  shows "\<exists>n bs buf' w'. read_all_loop N k c len timeout rl buf w = Inr (n, buf', w') \<and> n \<le> len \<and>
    filled rl n bs buf buf' \<and> read_step got c s bs w w'"
  using assms(4,7-12)
proof (induction k arbitrary: s rl buf w)
  case 0
  then show ?case by simp
next
  case (Suc k)
  note c = Suc.prems(1)
  have stop: "bnd (print_debug c buf v) (\<lambda>_. Inr (rl, buf, v)) = Inr (rl, buf, v)" if v: "read_step got c s [] w v" for v
  proof -
    obtain e where "client c (s\<lparr>err_code := e\<rparr>) d v" by (rule read_step_client [OF c v])
    from clientD(6) [OF this] Suc.prems(2) show ?thesis by simp
  qed
  show ?case
  proof (cases "rl < len")
    case False
    then show ?thesis using stop [OF read_step_refl [OF c]] filled_refl read_step_refl [OF c] Suc.prems(4) by fastforce
  next
    case True
    from assms(1-3) c assms(5,6) Suc.prems(3-6) show ?thesis
    proof (rule read_turn [where timeout = timeout])
      fix w1 assume "select_out N c timeout w = Inr (-1, w1)" "read_step got c s [] w w1"
      then show ?thesis using True stop filled_refl Suc.prems(4) by fastforce
    next
      fix r w1 w2 assume "select_out N c timeout w = Inr (r, w1)" "r \<noteq> -1" "recv_at N c buf rl len w1 = Inr (-1, buf, w2)"
        "read_step got c s [] w w2"
      then show ?thesis using True filled_refl Suc.prems(4) by fastforce
    next
      fix r w1 w2 n bs buf1
      assume t: "select_out N c timeout w = Inr (r, w1)" "r \<noteq> -1" "recv_at N c buf rl len w1 = Inr (n, buf1, w2)" "0 < n"
        "rl + n \<le> len" "length buf1 = length buf" "filled rl (rl + n) bs buf buf1" and st: "read_step got c s bs w w2"
      obtain e where c2: "client c (s\<lparr>err_code := e\<rparr>) d w2" by (rule read_step_client [OF c st])
      obtain n' bs' buf' w' where ih: "read_all_loop N k c len timeout (rl + n) buf1 w2 = Inr (n', buf', w')" "n' \<le> len"
        "filled (rl + n) n' bs' buf1 buf'" "read_step got c (s\<lparr>err_code := e\<rparr>) bs' w2 w'"
        using Suc.IH [OF c2, of "rl + n" buf1] Suc.prems t(4-6) by force
      have "filled rl n' (bs @ bs') buf buf'"
        by (rule filled_trans [OF t(7) ih(3)]) (use Suc.prems t in linarith)+
      moreover have "read_step got c s (bs @ bs') w w'" by (rule read_step_trans [OF st ih(4)])
      ultimately show ?thesis using True t(1-4) ih(1,2) by fastforce
    qed
  qed
qed

text \<open>The turns of \<open>read_all_loop\<close>, after the read that begins them.\<close>

lemma read_whole:
  assumes "recv_ok N got" and "counts_ok N" and "stays_open N" and "client c s d w"
    and "0 \<le> socket_id d" and "socket_id d < FD_SETSIZE" and "debug s = 0" and "0 \<in> set buf"
    and "0 \<le> len" and "len \<le> int (length buf)" and "len < 2 ^ 31" and "nat len < k"
  shows "\<exists>n buf' w'. socket_read_all N k c buf len timeout w = Inr (n, buf', w') \<and>
    (n = -1 \<and> buf' = buf \<and> got (cnet w') = got (cnet w) \<or>
     0 < n \<and> n \<le> len \<and> (\<exists>bs. int (length bs) = n \<and> buf' = bs @ drop (length bs) buf \<and> got (cnet w') = got (cnet w) @ bs))"
proof (cases "is_connect s \<and> async s = 0")
  case False
  then show ?thesis using clientD(1,2) [OF assms(4)]
    by (auto simp: socket_read_all_def tcp_backend_def read_tcp_all_def read_first_def)
next
  case True
  note c = assms(4)
  have e: "socket_read_all N k c buf len timeout w = read_tcp_all N k c buf len timeout w"
    using clientD(1) [OF c] by (simp add: socket_read_all_def tcp_backend_def)
  from assms(1-3) c assms(5,6) order_refl assms(9-11) show ?thesis
  proof (rule read_turn [where timeout = timeout])
    fix w1 assume "select_out N c timeout w = Inr (-1, w1)" "read_step got c s [] w w1"
    then show ?thesis using e True clientD(2) [OF c] by (simp add: read_tcp_all_def read_first_def read_step_def)
  next
    fix r w1 w2
    assume t: "select_out N c timeout w = Inr (r, w1)" "r \<noteq> -1" "recv_at N c buf 0 len w1 = Inr (-1, buf, w2)"
      and st: "read_step got c s [] w w2"
    obtain e2 where "client c (s\<lparr>err_code := e2\<rparr>) d w2" by (rule read_step_client [OF c st])
    from clientD(5) [OF this] have "got (cnet w2) = got (cnet w)" and "\<exists>v. keep_err N c w2 = Inr v \<and> cnet v = cnet w2"
      using st by (auto simp: read_step_def cworld_simps)
    then show ?thesis using e True t clientD(2) [OF c] assms(8)
      by (auto simp: read_tcp_all_def read_first_def print_str_def)
  next
    fix r w1 w2 n bs buf1
    assume t: "select_out N c timeout w = Inr (r, w1)" "r \<noteq> -1" "recv_at N c buf 0 len w1 = Inr (n, buf1, w2)" "0 < n"
      "0 + n \<le> len" "length buf1 = length buf" "filled 0 (0 + n) bs buf buf1" and st: "read_step got c s bs w w2"
    obtain e2 where c2: "client c (s\<lparr>err_code := e2\<rparr>) d w2" by (rule read_step_client [OF c st])
    have l: "0 \<le> n" "n \<le> len" "len \<le> int (length buf1)" "nat (len - n) < k" "debug (s\<lparr>err_code := e2\<rparr>) = 0"
      using t(4-6) assms(7,10,12) by auto
    obtain n' bs' buf' w' where ih: "read_all_loop N k c len timeout n buf1 w2 = Inr (n', buf', w')" "n' \<le> len"
      "filled n n' bs' buf1 buf'" "read_step got c (s\<lparr>err_code := e2\<rparr>) bs' w2 w'"
      using read_all_loop_step [OF assms(1-3) c2 assms(5,6) l(5,1,2,3) assms(11) l(4), of timeout] by blast
    have "filled 0 n' (bs @ bs') buf buf'"
      by (rule filled_trans [OF t(7) [unfolded add_0] ih(3)]) (use l t(6) in simp_all)
    then have f: "0 < n'" "int (length (bs @ bs')) = n'" "buf' = (bs @ bs') @ drop (length (bs @ bs')) buf"
      using t(4) ih(3) by (simp_all add: filled_def)
    have "socket_read_all N k c buf len timeout w = Inr (n', buf', w')"
      using e True t(1-4) clientD(2) [OF c] ih(1) by (simp add: read_tcp_all_def read_first_def)
    moreover have "got (cnet w') = got (cnet w) @ (bs @ bs')"
      using read_step_trans [OF st ih(4)] by (simp add: read_step_def)
    ultimately show ?thesis using f ih(2) by blast
  qed
qed


section \<open>Connecting and disconnecting\<close>

text \<open>
  Disconnecting a connected synchronous client closes its descriptor, once: afterwards the client
  is as it was made, and disconnecting again does nothing.
\<close>

theorem cli_disconnect:
  assumes "client c s d w" and "async s = 0" and "socket_id d \<noteq> INVALID_SOCKET"
  shows "\<exists>w'. socket_disconnect N k c w = Inr (0, w') \<and> cnet w' = net_close N (socket_id d) (cnet w) \<and>
    client c (s\<lparr>is_connect := False\<rparr>) (d\<lparr>socket_id := INVALID_SOCKET\<rparr>) w' \<and>
    socket_disconnect N k c w' = Inr (0, w')"
proof -
  note cl = clientD [OF assms(1)]
  define w' where "w' = put_data (backend_data s) (d\<lparr>socket_id := INVALID_SOCKET\<rparr>)
    ((put_cli c (s\<lparr>is_connect := False\<rparr>) w)\<lparr>cnet := net_close N (socket_id d) (cnet w)\<rparr>)"
  have c': "client c (s\<lparr>is_connect := False\<rparr>) (d\<lparr>socket_id := INVALID_SOCKET\<rparr>) w'"
    using cl(1) by (simp add: client_def w'_def cworld_simps)
  have "put_cli c (s\<lparr>is_connect := False\<rparr>) w' = w'"
    "put_data (backend_data s) (d\<lparr>socket_id := INVALID_SOCKET\<rparr>) w' = w'"
    using c' by (simp_all add: client_def put_cli_def put_data_def fun_upd_idem)
  then have "socket_disconnect N k c w' = Inr (0, w')"
    using clientD(1-3) [OF c'] by (simp add: socket_disconnect_def tcp_backend_def disconnect_tcp_def)
  moreover have "socket_disconnect N k c w = Inr (0, w')"
    using cl assms(2,3) by (simp add: socket_disconnect_def tcp_backend_def disconnect_tcp_def w'_def cworld_simps)
  moreover have "cnet w' = net_close N (socket_id d) (cnet w)" by (simp add: w'_def cworld_simps)
  ultimately show ?thesis using c' by blast
qed

text \<open>
  A new client is closed, with the address in network order; connecting it, where the calls
  succeed, makes it a connected client of the new descriptor.
\<close>

lemma htons_twice: "htons (htons x) = x"
proof (rule bit_word_eqI)
  fix n assume "n < LENGTH(16)"
  then have "n \<in> {0..<16}" by simp
  then show "bit (htons (htons x)) n = bit x n" by (auto simp: htons_def bit_simps)
qed

theorem cli_new_connect:
  assumes "net_malloc N (dom (clis w) \<union> dom (datas w)) (cnet w) = (Some c, o1)" and "c \<noteq> NULL_cli"
    and "net_malloc N (insert c (dom (clis w) \<union> dom (datas w))) o1 = (Some p, o2)" and "net_pton N addr = Some ip"
    and "net_socket N o2 = (f, o3)" and "f \<noteq> INVALID_SOCKET"
    and "net_connect N f \<lparr>sin_family = AF_INET, sin_port = htons (word_of_int port), sin_addr = ip\<rparr>
      (net_sndtimeo N f (timeval_of timeout) o3) = (0, o4)"
  shows "\<exists>w1 w2 s d. socket_cli_new N port addr asyn timeout w = Inr (c, w1) \<and>
    client c (s\<lparr>is_connect := False\<rparr>) (d\<lparr>socket_id := INVALID_SOCKET\<rparr>) w1 \<and>
    socket_connect N k c w1 = Inr (0, w2) \<and> client c s d w2 \<and> is_connect s \<and> socket_id d = f \<and>
    htons (sin_port (remote_addr d)) = word_of_int port \<and> async s = asyn \<and> cnet w2 = o4"
proof -
  define s where "s = \<lparr>debug = 0, is_connect = True, err_code = 0, async = asyn, con_timeout = timeout, backend_data = p\<rparr>"
  define d where "d = \<lparr>recv_cb = None, t_id = None, socket_id = f,
      remote_addr = \<lparr>sin_family = AF_INET, sin_port = htons (word_of_int port), sin_addr = ip\<rparr>\<rparr>"
  define w1 where "w1 = put_data p (d\<lparr>socket_id := INVALID_SOCKET\<rparr>) (put_cli c (s\<lparr>is_connect := False\<rparr>) (w\<lparr>cnet := o2\<rparr>))"
  define w2 where "w2 = put_cli c s ((put_data p d (w1\<lparr>cnet := o3\<rparr>))\<lparr>cnet := o4\<rparr>)"
  have new: "socket_cli_new N port addr asyn timeout w = Inr (c, w1)"
    using assms(1,3,4) by (simp add: socket_cli_new_def w1_def s_def d_def)
  have f1: "clis w1 c = Some (s\<lparr>is_connect := False\<rparr>)" "datas w1 p = Some (d\<lparr>socket_id := INVALID_SOCKET\<rparr>)" "cnet w1 = o2"
    by (simp_all add: w1_def cworld_simps)
  have con: "socket_connect N k c w1 = Inr (0, w2)"
    using assms(2,5-7) f1
    by (simp add: socket_connect_def tcp_backend_def connect_tcp_def w2_def cworld_simps) (simp add: s_def d_def cworld_simps)
  show ?thesis
    by (rule exI [of _ w1], rule exI [of _ w2], rule exI [of _ s], rule exI [of _ d])
      (use new con assms(2) f1 in \<open>simp add: client_def w2_def cworld_simps s_def d_def htons_twice\<close>)
qed

section \<open>Where the code goes wrong\<close>

text \<open>
  C36: When the peer has closed the connection, \<open>recv\<close> gives 0 and \<open>select\<close> finds the descriptor readable, again
  and again: reading until the buffer is full does not return, whatever the timeout.
\<close>

theorem cli_read_all_closed:
  assumes "client c s d w" and "is_connect s" and "async s = 0" and "0 \<le> socket_id d" and "socket_id d < FD_SETSIZE"
    and "0 < len" and "\<forall>f n o1. fst (net_recv N f n o1) = 0" and "\<forall>f A tv o1. fst (net_select N f A tv o1) \<noteq> 0"
  shows "socket_read_all N k c buf len timeout w = Inl No_Fuel"
proof -
  have sel: "\<exists>r o1. select_out N c timeout v = Inr (r, v\<lparr>cnet := o1\<rparr>) \<and> r \<noteq> -1" if "client c s d v" for v
  proof (cases "timeout = 0")
    case True
    then show ?thesis using clientD(2) [OF that] by (auto simp: select_out_def intro!: exI [of _ "cnet v"])
  next
    case False
    obtain n o1 where n: "net_select N (socket_id d + 1) {socket_id d} (timeval_of timeout) (cnet v) = (n, o1)" by fastforce
    then have "n \<noteq> 0" using assms(8) by (metis fst_conv)
    then show ?thesis using n False clientD [OF that] assms(4,5) by (auto simp: select_out_def FD_SET_def)
  qed
  have rec: "\<exists>o1. recv_at N c buf rl len v = Inr (0, buf, v\<lparr>cnet := o1\<rparr>)" if "client c s d v" for v rl buf
  proof -
    obtain n bs o1 where n: "net_recv N (socket_id d) (word_of_int (len - rl)) (cnet v) = (n, bs, o1)" using prod_cases3 by blast
    then have "n = 0" using assms(7) by (metis fst_conv)
    then show ?thesis using n clientD(4) [OF that] by (auto simp: recv_at_def to_int_def)
  qed
  have loop: "read_all_loop N k c len timeout 0 buf v = Inl No_Fuel" if "client c s d v" for k v
    using that
  proof (induction k arbitrary: v)
    case (Suc k)
    obtain r o1 where r: "select_out N c timeout v = Inr (r, v\<lparr>cnet := o1\<rparr>)" "r \<noteq> -1" using sel [OF Suc.prems] by blast
    have c1: "client c s d (v\<lparr>cnet := o1\<rparr>)" using Suc.prems by (simp add: client_net)
    obtain o2 where o2: "recv_at N c buf 0 len (v\<lparr>cnet := o1\<rparr>) = Inr (0, buf, v\<lparr>cnet := o1\<rparr>\<lparr>cnet := o2\<rparr>)" using rec [OF c1] by blast
    have "client c s d (v\<lparr>cnet := o1\<rparr>\<lparr>cnet := o2\<rparr>)" using c1 by (simp only: client_net)
    then show ?case using Suc.IH r o2 assms(6) by simp
  qed simp
  obtain r o1 where r: "select_out N c timeout w = Inr (r, w\<lparr>cnet := o1\<rparr>)" "r \<noteq> -1" using sel [OF assms(1)] by blast
  have c1: "client c s d (w\<lparr>cnet := o1\<rparr>)" using assms(1) by (simp add: client_net)
  obtain o2 where o2: "recv_at N c buf 0 len (w\<lparr>cnet := o1\<rparr>) = Inr (0, buf, w\<lparr>cnet := o1\<rparr>\<lparr>cnet := o2\<rparr>)" using rec [OF c1] by blast
  have c2: "client c s d (w\<lparr>cnet := o1\<rparr>\<lparr>cnet := o2\<rparr>)" using c1 by (simp only: client_net)
  show ?thesis using clientD(1,2) [OF assms(1)] assms(2,3) r o2 loop [OF c2]
    by (simp add: socket_read_all_def tcp_backend_def read_tcp_all_def read_first_def)
qed

text \<open>
  A failed \<open>connect\<close> leaves its descriptor open, and trying again forgets it: with \<open>fds\<close> the open
  descriptors, both the first and the second are open, and the client knows the second only.
\<close>

theorem cli_connect_leaks:
  assumes "client c s d w" and "\<not> is_connect s"
    and "\<forall>o1 f o2. net_socket N o1 = (f, o2) \<longrightarrow> f \<noteq> INVALID_SOCKET \<and> f \<notin> fds o1 \<and> fds o2 = insert f (fds o1)"
    and "\<forall>f tv o1. fds (net_sndtimeo N f tv o1) = fds o1"
    and "\<forall>f a o1. fst (net_connect N f a o1) = -1 \<and> fds (snd (net_connect N f a o1)) = fds o1"
  shows "\<exists>w1 w2 f1 f2. socket_connect N k c w = Inr (-1, w1) \<and> socket_connect N k c w1 = Inr (-1, w2) \<and>
    map_option socket_id (datas w2 (backend_data s)) = Some f2 \<and> f1 \<noteq> f2 \<and>
    f1 \<notin> fds (cnet w) \<and> fds (cnet w2) = insert f2 (insert f1 (fds (cnet w)))"
proof -
  have one: "\<exists>f v' e. socket_connect N k c v = Inr (-1, v') \<and> client c (s'\<lparr>err_code := e\<rparr>) (d'\<lparr>socket_id := f\<rparr>) v' \<and>
      f \<notin> fds (cnet v) \<and> fds (cnet v') = insert f (fds (cnet v))" if "client c s' d' v" "\<not> is_connect s'" for v s' d'
  proof -
    note cl = clientD [OF that(1)]
    obtain f o1 where f: "net_socket N (cnet v) = (f, o1)" by fastforce
    have fl: "f \<noteq> INVALID_SOCKET" "f \<notin> fds (cnet v)" "fds o1 = insert f (fds (cnet v))" using assms(3) f by blast+
    define o2 where "o2 = net_sndtimeo N f (timeval_of (con_timeout s')) o1"
    obtain r o3 where r: "net_connect N f (remote_addr d') o2 = (r, o3)" by fastforce
    have rl: "r = -1" "fds o3 = fds o2" using assms(5) r by (metis fst_conv, metis snd_conv)
    define v1 where "v1 = (put_data (backend_data s') (d'\<lparr>socket_id := f\<rparr>) (v\<lparr>cnet := o1\<rparr>))\<lparr>cnet := o3\<rparr>"
    have c1: "client c s' (d'\<lparr>socket_id := f\<rparr>) v1" using cl by (simp add: client_def v1_def cworld_simps)
    have "socket_connect N k c v = Inr (-1, put_cli c (s'\<lparr>err_code := net_errno N (cnet v1)\<rparr>) v1)"
      using cl(1-3) that(2) f fl(1) r rl(1) clientD(5) [OF c1]
      by (simp add: socket_connect_def tcp_backend_def connect_tcp_def cworld_simps o2_def [symmetric] v1_def [symmetric])
    moreover have "fds (cnet v1) = insert f (fds (cnet v))" using rl(2) fl(3) assms(4) by (simp add: v1_def o2_def)
    ultimately show ?thesis using client_err [OF c1] fl(2)
      by (intro exI [of _ f] exI [of _ "put_cli c (s'\<lparr>err_code := net_errno N (cnet v1)\<rparr>) v1"]
          exI [of _ "net_errno N (cnet v1)"]) (simp add: cworld_simps)
  qed
  obtain f1 w1 e where 1: "socket_connect N k c w = Inr (-1, w1)" "client c (s\<lparr>err_code := e\<rparr>) (d\<lparr>socket_id := f1\<rparr>) w1"
    "f1 \<notin> fds (cnet w)" "fds (cnet w1) = insert f1 (fds (cnet w))" using one [OF assms(1,2)] by blast
  have "\<not> is_connect (s\<lparr>err_code := e\<rparr>)" using assms(2) by simp
  then obtain f2 w2 e2 where 2: "socket_connect N k c w1 = Inr (-1, w2)"
    "client c (s\<lparr>err_code := e, err_code := e2\<rparr>) (d\<lparr>socket_id := f1, socket_id := f2\<rparr>) w2"
    "f2 \<notin> fds (cnet w1)" "fds (cnet w2) = insert f2 (fds (cnet w1))" using one [OF 1(2)] by blast
  have "map_option socket_id (datas w2 (backend_data s)) = Some f2" using 2(2) by (simp add: client_def)
  then show ?thesis using 1 2 by (intro exI [of _ w1] exI [of _ w2] exI [of _ f1] exI [of _ f2]) auto
qed

lemma join_unset:
  assumes "client c s d w" and "async s \<noteq> 0" and "socket_id d \<noteq> INVALID_SOCKET" and "t_id d = None"
  shows "socket_disconnect N k c w = Inl Uninitialised \<and> socket_destory N k c w = Inl Uninitialised"
proof -
  note cl = clientD [OF assms(1)]
  have "disconnect_tcp N c w = Inl Uninitialised"
    using cl assms(2-4) by (simp add: disconnect_tcp_def join_thread_def cworld_simps)
  then show ?thesis using cl(1)
    by (simp add: socket_disconnect_def socket_destory_def tcp_backend_def destory_tcp_def)
qed

text \<open>
  An asynchronous client that is disconnected or destroyed before a callback was registered joins a
  thread that was never started, by an identifier never written.
\<close>

theorem cli_join_unset:
  assumes "client c s d w" and "async s \<noteq> 0" and "socket_id d \<noteq> INVALID_SOCKET" and "t_id d = None"
  shows "socket_disconnect N k c w = Inl Uninitialised \<and> socket_destory N k c w = Inl Uninitialised"
  by (rule join_unset [OF assms])

text \<open>
  The result of \<open>pthread_create\<close> is not looked at: registering reports success where no thread could be
  started, and the client then joins an identifier never written when it is disconnected or destroyed.
\<close>

theorem cli_spawn_failed:
  assumes "client c s d w" and "is_connect s" and "async s \<noteq> 0" and "socket_id d \<noteq> INVALID_SOCKET"
    and "net_spawn N (cnet w) = (None, o1)"
  shows "\<exists>w'. socket_register_notify N c cb w = Inr (0, w') \<and>
    socket_disconnect N k c w' = Inl Uninitialised \<and> socket_destory N k c w' = Inl Uninitialised"
proof -
  note cl = clientD [OF assms(1)]
  define d' where "d' = d\<lparr>recv_cb := Some cb, t_id := None\<rparr>"
  define w' where "w' = (put_data (backend_data s) d' w)\<lparr>cnet := o1\<rparr>"
  have "socket_register_notify N c cb w = Inr (0, w')"
    using cl assms(2,3,5) by (simp add: socket_register_notify_def w'_def d'_def)
  moreover have "client c s d' w'" using cl assms(1) by (simp add: client_def w'_def cworld_simps)
  ultimately show ?thesis
    using join_unset [of c s d' w' N k] assms(3,4) by (simp add: d'_def)
qed

text \<open>
  Where \<open>recv\<close> fails, the message about it prints the caller's buffer as a string, past its end where
  it holds no NUL.
\<close>

theorem cli_read_error_prints:
  assumes "client c s d w" and "is_connect s" and "async s = 0" and "0 \<notin> set buf"
    and "net_recv N (socket_id d) (word_of_int len) (cnet w) = (-1, bs, o1)"
  shows "socket_read N k c buf len 0 w = Inl Out_Of_Bounds"
proof -
  note cl = clientD [OF assms(1)]
  have c1: "client c s d (w\<lparr>cnet := o1\<rparr>)" using assms(1) by (simp add: client_net)
  have "recv_at N c buf 0 len w = Inr (-1, buf, w\<lparr>cnet := o1\<rparr>)"
    using cl assms(5) by (simp add: recv_at_def to_int_id)
  then show ?thesis using cl assms(2-4) clientD(5) [OF c1]
    by (simp add: socket_read_def tcp_backend_def read_tcp_def read_first_def select_out_def print_str_def)
qed

section \<open>A concrete peer\<close>

text \<open>
  The state of the demonstration: the bytes on their way to the client, those received, those
  sent, and how many descriptors were made. \<open>send\<close> takes at most two bytes at once.
\<close>

type_synonym peer = "byte list \<times> byte list \<times> byte list \<times> nat"

definition demo_net :: "peer net" where
  "demo_net =
     \<lparr>net_socket = (\<lambda>(i, g, u, n). (int n + 3, (i, g, u, n + 1))), net_sndtimeo = (\<lambda>f tv p. p),
      net_connect = (\<lambda>f a p. (0, p)), net_select = (\<lambda>f A tv p. (1, p)),
      net_recv = (\<lambda>f k (i, g, u, n).
        let b = take (unat k) i in (if b = [] then -1 else int (length b), b, (drop (unat k) i, g @ b, u, n))),
      net_send = (\<lambda>f bs (i, g, u, n). (int (length (take 2 bs)), (i, g, u @ take 2 bs, n))),
      net_close = (\<lambda>f p. p), net_errno = (\<lambda>p. 11), net_spawn = (\<lambda>p. (Some 1, p)), net_join = (\<lambda>th p. None),
      net_pton = (\<lambda>a. Some 0x0100007F), net_malloc = (\<lambda>A p. (Some (if 2 \<in> A then 3 else 2), p)), net_junk = (\<lambda>p. 0)\<rparr>"

definition closed_net :: "peer net" where
  "closed_net = demo_net\<lparr>net_recv := \<lambda>f k p. (0, [], p), net_connect := \<lambda>f a p. (-1, p)\<rparr>"

definition demo_cli :: "bool \<Rightarrow> int \<Rightarrow> socket_cli" where
  "demo_cli con asyn = \<lparr>debug = 0, is_connect = con, err_code = 0, async = asyn, con_timeout = 1000, backend_data = 3\<rparr>"

definition demo_data :: "int \<Rightarrow> socket_data" where
  "demo_data f = \<lparr>recv_cb = None, t_id = None, socket_id = f,
     remote_addr = \<lparr>sin_family = AF_INET, sin_port = htons 80, sin_addr = 0x0100007F\<rparr>\<rparr>"

definition demo_client :: "bool \<Rightarrow> int \<Rightarrow> int \<Rightarrow> peer \<Rightarrow> peer cworld" where
  "demo_client con asyn f p = \<lparr>clis = [2 \<mapsto> demo_cli con asyn], datas = [3 \<mapsto> demo_data f], cnet = p\<rparr>"

lemma demo_is_client: "client 2 (demo_cli con asyn) (demo_data f) (demo_client con asyn f p)"
  by (simp add: client_def demo_client_def demo_cli_def NULL_cli_def)

lemma demo_send_ok: "send_ok demo_net (\<lambda>p. fst (snd (snd p)))"
  by (auto simp: send_ok_def demo_net_def min_def)

lemma demo_recv: "net_recv demo_net f k p = (n, bs, q) \<Longrightarrow>
    n = (if bs = [] then -1 else int (length bs)) \<and> length bs \<le> unat k \<and> fst (snd q) = fst (snd p) @ bs"
  by (cases p) (auto simp: demo_net_def Let_def simp del: of_nat_min)

lemma demo_counts_ok: "counts_ok demo_net"
  unfolding counts_ok_def
proof (intro conjI allI)
  fix f k p
  show "-1 \<le> fst (net_recv demo_net f k p)"
    by (cases "net_recv demo_net f k p") (auto dest: demo_recv)
next
  fix f bs p
  show "-1 \<le> fst (net_send demo_net f bs p)" by (cases p) (simp add: demo_net_def)
qed

lemma demo_recv_ok: "recv_ok demo_net (\<lambda>p. fst (snd p))"
  unfolding recv_ok_def
proof (intro conjI allI impI)
  fix f k o1 n bs o2
  assume a: "net_recv demo_net f k o1 = (n, bs, o2)"
  have "n \<le> int (length bs)" using demo_recv [OF a] by auto
  moreover have "int (length bs) \<le> int (unat k)" using demo_recv [OF a] by (simp only: of_nat_le_iff)
  ultimately show "n \<le> int (unat k)" by linarith
  show "fst (snd o2) = fst (snd o1) @ (if 0 < n then bs else [])" using demo_recv [OF a] by auto
  assume "0 < n"
  then show "int (length bs) = n" using demo_recv [OF a] by (auto split: if_splits)
qed (simp add: demo_net_def)

lemma demo_stays_open: "stays_open demo_net"
  by (auto simp: stays_open_def demo_net_def Let_def)

theorem cli_write_all_witness:
  "\<exists>n w'. socket_write demo_net 9 2 [1, 2, 3, 4, 5] 5 0 (demo_client True 0 3 ([], [], [9], 1)) = Inr (n, w') \<and>
     (n = 5 \<and> fst (snd (snd (cnet w'))) = [9, 1, 2, 3, 4, 5] \<or> n = -1)"
proof -
  have len: "(0 :: int) \<le> 5" "(5 :: int) < 2 ^ 31" "(5 :: int) \<le> int (length [1, 2, 3, 4, 5 :: byte])"
    "is_connect (demo_cli True 0)" "debug (demo_cli True 0) = 0" by (simp_all add: demo_cli_def)
  show ?thesis
    using cli_write_all [OF demo_send_ok demo_counts_ok demo_is_client [of True 0 3 "([], [], [9], 1)"] len(4,5) len(1-3),
        of 9 0]
    by (auto simp: demo_client_def)
qed


theorem cli_disconnect_witness:
  "\<exists>w'. socket_disconnect demo_net 9 2 (demo_client True 0 3 ([], [], [], 1)) = Inr (0, w') \<and>
     client 2 (demo_cli False 0) (demo_data (-1)) w'"
  using cli_disconnect [OF demo_is_client [of True 0 3 "([], [], [], 1)"], where N = demo_net and k = 9]
  by (auto simp: demo_cli_def demo_data_def INVALID_SOCKET_def)

theorem cli_new_connect_witness:
  "\<exists>w1 w2 s d. socket_cli_new demo_net 80 ''127.0.0.1'' 0 1000 \<lparr>clis = Map.empty, datas = Map.empty, cnet = ([], [], [], 0)\<rparr> = Inr (2, w1) \<and>
     socket_connect demo_net 9 2 w1 = Inr (0, w2) \<and> client 2 s d w2 \<and> is_connect s \<and> socket_id d = 3"
  using cli_new_connect [of demo_net "\<lparr>clis = Map.empty, datas = Map.empty, cnet = ([], [], [], 0)\<rparr>" 2 "([], [], [], 0)" 3
    "([], [], [], 0)" "''127.0.0.1''" "0x0100007F" 3 "([], [], [], 1)" 80 1000 "([], [], [], 1)" 0 9]
  by (auto simp: demo_net_def NULL_cli_def INVALID_SOCKET_def)

theorem cli_read_all_closed_witness:
  "socket_read_all closed_net 1000 2 [0, 0, 0] 3 100 (demo_client True 0 3 ([], [], [], 1)) = Inl No_Fuel"
  by (rule cli_read_all_closed [OF demo_is_client])
    (simp_all add: demo_cli_def demo_data_def FD_SETSIZE_def closed_net_def demo_net_def)

theorem cli_connect_leaks_witness:
  "\<exists>w1 w2 f1 f2. socket_connect closed_net 9 2 (demo_client False 0 (-1) ([], [], [], 0)) = Inr (-1, w1) \<and>
     socket_connect closed_net 9 2 w1 = Inr (-1, w2) \<and>
     map_option socket_id (datas w2 3) = Some f2 \<and> f1 \<noteq> f2 \<and> 3 \<le> f1 \<and> f1 < int (snd (snd (snd (cnet w2)))) + 3"
proof -
  have "\<not> is_connect (demo_cli False 0)"
    "\<forall>o1 f o2. net_socket closed_net o1 = (f, o2) \<longrightarrow> f \<noteq> INVALID_SOCKET \<and> f \<notin> (\<lambda>(i, g, u, n). {3..<int n + 3}) o1 \<and>
      (\<lambda>(i, g, u, n). {3..<int n + 3}) o2 = insert f ((\<lambda>(i, g, u, n). {3..<int n + 3}) o1)"
    "\<forall>f tv o1. (\<lambda>(i, g, u, n). {3..<int n + 3}) (net_sndtimeo closed_net f tv o1) = (\<lambda>(i, g, u, n). {3..<int n + 3}) o1"
    "\<forall>f a o1. fst (net_connect closed_net f a o1) = -1 \<and>
      (\<lambda>(i, g, u, n). {3..<int n + 3}) (snd (net_connect closed_net f a o1)) = (\<lambda>(i, g, u, n). {3..<int n + 3}) o1"
    by (auto simp: closed_net_def demo_net_def demo_cli_def INVALID_SOCKET_def)
  from cli_connect_leaks [OF demo_is_client [of False 0 "-1" "([], [], [], 0)"] this, where k = 9]
  obtain w1 w2 f1 f2 where w: "socket_connect closed_net 9 2 (demo_client False 0 (-1) ([], [], [], 0)) = Inr (-1, w1)"
    "socket_connect closed_net 9 2 w1 = Inr (-1, w2)" "map_option socket_id (datas w2 (backend_data (demo_cli False 0))) = Some f2"
    "f1 \<noteq> f2" and s: "(case cnet w2 of (i, g, u, n) \<Rightarrow> {3..<int n + 3}) = insert f2 (insert f1
      (case cnet (demo_client False 0 (-1) ([], [], [], 0)) of (i, g, u, n) \<Rightarrow> {3..<int n + 3}))"
    by (elim exE conjE) (rule that)
  have "f1 \<in> (case cnet w2 of (i, g, u, n) \<Rightarrow> {3..<int n + 3})" unfolding s by simp
  then have "3 \<le> f1 \<and> f1 < int (snd (snd (snd (cnet w2)))) + 3" by (cases "cnet w2") auto
  moreover have "backend_data (demo_cli False 0) = 3" by (simp add: demo_cli_def)
  ultimately show ?thesis using w by auto
qed

theorem cli_join_unset_witness:
  "socket_disconnect demo_net 9 2 (demo_client True 1 3 ([], [], [], 1)) = Inl Uninitialised"
  using cli_join_unset [OF demo_is_client [of True 1 3 "([], [], [], 1)"], where N = demo_net and k = 9]
  by (simp add: demo_cli_def demo_data_def INVALID_SOCKET_def)

theorem cli_spawn_failed_witness:
  "\<exists>w'. socket_register_notify (demo_net\<lparr>net_spawn := \<lambda>p. (None, p)\<rparr>) 2 5 (demo_client True 1 3 ([], [], [], 1)) = Inr (0, w') \<and>
    socket_disconnect (demo_net\<lparr>net_spawn := \<lambda>p. (None, p)\<rparr>) 9 2 w' = Inl Uninitialised"
  using cli_spawn_failed [OF demo_is_client [of True 1 3 "([], [], [], 1)"],
      where N = "demo_net\<lparr>net_spawn := \<lambda>p. (None, p)\<rparr>" and cb = 5 and k = 9]
  by (auto simp: demo_cli_def demo_data_def INVALID_SOCKET_def)

theorem cli_read_error_prints_witness:
  "socket_read demo_net 9 2 [7, 7] 2 0 (demo_client True 0 3 ([], [], [], 1)) = Inl Out_Of_Bounds"
  by (rule cli_read_error_prints [OF demo_is_client]) (simp_all add: demo_cli_def demo_client_def demo_net_def)

end
