(* ===== verification/Socket_Life.thy ===== *)
theory Socket_Life
  imports Socket_Client Paired_Maps
begin

text \<open>
  The clients of \<open>src/socket/socket_cli.c\<close> over their whole life, from \<open>socket_cli_new\<close> to
  \<open>socket_destory\<close>, several at a time and in any order: the typing \<open>clients_typed\<close> of the two maps of
  allocated structures, that every operation keeps it, and that none follows a bad pointer. Then
  \<open>socket_clean\<close>: where it ends and where it does not.
\<close>

section \<open>Operations that change a client's error code only\<close>

definition err_only :: "addr \<Rightarrow> 'o cworld \<Rightarrow> 'o cworld \<Rightarrow> bool" where
  "err_only c w w' \<longleftrightarrow>
     (\<exists>s d e. client c s d w \<and> datas w' = datas w \<and> clis w' = (clis w)(c \<mapsto> s\<lparr>err_code := e\<rparr>))"

lemma err_only_refl: "client c s d w \<Longrightarrow> err_only c w w"
  by (auto simp: err_only_def client_def fun_upd_idem intro!: exI [of _ s] exI [of _ d] exI [of _ "err_code s"])

lemma err_only_client:
  assumes "err_only c w v"
  obtains s d where "client c s d v"
  using assms by (auto simp: err_only_def client_def)

lemma err_only_net [simp]: "err_only c w (v\<lparr>cnet := o1\<rparr>) = err_only c w v"
  by (simp add: err_only_def)

lemma err_only_err: "err_only c w v \<Longrightarrow> clis v c = Some s \<Longrightarrow> err_only c w (put_cli c (s\<lparr>err_code := e\<rparr>) v)"
  by (fastforce simp: err_only_def cworld_simps)

text \<open>
  \<open>runs c w out m\<close>: the code \<open>m\<close>, begun in the world \<open>w\<close>, follows no bad pointer, and where it
  returns it has changed the client's error code only; \<open>out\<close> picks the world from its result.
\<close>

definition runs :: "addr \<Rightarrow> 'o cworld \<Rightarrow> ('a \<Rightarrow> 'o cworld) \<Rightarrow> 'a cres \<Rightarrow> bool" where
  "runs c w out m \<longleftrightarrow> (case m of Inl e \<Rightarrow> e \<noteq> Bad_Pointer | Inr x \<Rightarrow> err_only c w (out x))"

lemma runs_Inl [simp]: "runs c w out (Inl e) \<longleftrightarrow> e \<noteq> Bad_Pointer"
  by (simp add: runs_def)

lemma runs_Inr [simp]: "runs c w out (Inr x) = err_only c w (out x)"
  by (simp add: runs_def)

lemma runs_bnd:
  assumes "runs c w mid m" and "\<And>x. err_only c w (mid x) \<Longrightarrow> runs c w out (k x)"
  shows "runs c w out (bnd m k)"
  using assms by (cases m) simp_all

lemma runs_pure:
  assumes "m \<noteq> Inl Bad_Pointer" and "\<And>x. m = Inr x \<Longrightarrow> runs c w out (k x)"
  shows "runs c w out (bnd m k)"
  using assms by (cases m) simp_all

lemma pure_faults [simp]:
  "FD_SET f A \<noteq> Inl Bad_Pointer" "rd buf i n \<noteq> Inl Bad_Pointer" "print_str buf \<noteq> Inl Bad_Pointer"
  "initialised x \<noteq> Inl Bad_Pointer" "wr buf i bs \<noteq> Inl Bad_Pointer"
  by (simp_all add: FD_SET_def wr_def rd_def print_str_def initialised_def split: option.split)

lemmas runs_pures = pure_faults [THEN runs_pure]

lemma runs_cli:
  assumes "err_only c w v" and "\<And>s d. client c s d v \<Longrightarrow> runs c w out (k s)"
  shows "runs c w out (bnd (deref (clis v) c) k)"
proof -
  obtain s d where "client c s d v" by (rule err_only_client [OF assms(1)])
  from assms(2) [OF this] clientD(2) [OF this] show ?thesis by simp
qed

lemma runs_data:
  assumes "err_only c w v" and "\<And>s d. client c s d v \<Longrightarrow> runs c w out (k (s, d))"
  shows "runs c w out (bnd (the_data c v) k)"
proof -
  obtain s d where "client c s d v" by (rule err_only_client [OF assms(1)])
  from assms(2) [OF this] clientD(4) [OF this] show ?thesis by simp
qed

lemma runs_keep_err: "err_only c w v \<Longrightarrow> runs c w (\<lambda>w. w) (keep_err N c v)"
  unfolding keep_err_def by (rule runs_cli) (auto simp: client_def intro: err_only_err)

lemma runs_debug:
  assumes "err_only c w v" and "runs c w out (k ())"
  shows "runs c w out (bnd (print_debug c buf v) k)"
  unfolding print_debug_def bnd_assoc
  by (rule runs_cli [OF assms(1)]) (use assms(2) in \<open>auto intro: runs_pures\<close>)

lemma runs_recv: "err_only c w v \<Longrightarrow> runs c w (\<lambda>(n, buf, w). w) (recv_at N c buf rl len v)"
  unfolding recv_at_def by (rule runs_data) (auto split: prod.splits intro!: runs_pures)

lemma runs_select: "err_only c w v \<Longrightarrow> runs c w snd (select_out N c timeout v)"
  unfolding select_out_def
  by (rule runs_cli)
    (auto simp: Let_def client_def split: prod.splits intro!: runs_pures runs_bnd [OF runs_keep_err])

lemma runs_read_first: "err_only c w v \<Longrightarrow> runs c w (\<lambda>(n, buf, w). w) (read_first N c buf len timeout v)"
  unfolding read_first_def
  by (auto intro!: runs_cli runs_bnd [OF runs_select] runs_bnd [OF runs_recv] runs_bnd [OF runs_keep_err] runs_pures)

lemma runs_read: "err_only c w v \<Longrightarrow> runs c w (\<lambda>(n, buf, w). w) (read_tcp N c buf len timeout v)"
  unfolding read_tcp_def by (auto intro!: runs_bnd [OF runs_read_first] runs_debug)

lemma runs_read_all_loop:
  "err_only c w v \<Longrightarrow> runs c w (\<lambda>(n, buf, w). w) (read_all_loop N k c len timeout rl buf v)"
proof (induction k arbitrary: rl buf v)
  case (Suc k)
  then show ?case by (auto intro!: runs_bnd [OF runs_select] runs_bnd [OF runs_recv] runs_debug)
qed simp

lemma runs_read_all: "err_only c w v \<Longrightarrow> runs c w (\<lambda>(n, buf, w). w) (read_tcp_all N k c buf len timeout v)"
  unfolding read_tcp_all_def by (auto intro!: runs_bnd [OF runs_read_first] runs_read_all_loop)

lemma runs_write_loop: "err_only c w v \<Longrightarrow> runs c w snd (write_loop N c buf lft wn v)"
proof (induction N c buf lft wn v rule: write_loop.induct)
  case (1 N c buf lft wn v)
  have "runs c w snd (case net_send N (socket_id d) bs (cnet v) of (n, o1) \<Rightarrow>
      if to_int n \<le> 0 then bnd (keep_err N c (v\<lparr>cnet := o1\<rparr>)) (\<lambda>w. Inr (None, w))
      else write_loop N c buf (lft - to_int n) (wn + to_int n) (v\<lparr>cnet := o1\<rparr>))"
    if "0 < lft" "client c s d v" "rd buf (nat wn) (nat lft) = Inr bs" for s d bs
    using 1 that clientD(4) [OF that(2)] by (auto split: prod.splits intro!: runs_bnd [OF runs_keep_err])
  then show ?case
    unfolding write_loop.simps [of N c buf lft wn v]
    using 1(2) by (auto simp: Let_def intro!: runs_data runs_pures)
qed

lemma runs_write: "err_only c w v \<Longrightarrow> runs c w snd (write_tcp N c buf len timeout v)"
  unfolding write_tcp_def
  by (auto intro!: runs_cli runs_bnd [OF runs_write_loop] runs_debug split: option.splits)

lemma runs_clean_loop: "err_only c w v \<Longrightarrow> runs c w (\<lambda>w. w) (clean_loop N k c v)"
proof (induction k arbitrary: v)
  case (Suc k)
  then show ?case by (auto simp: Let_def split: prod.splits intro!: runs_data runs_pures runs_bnd [OF runs_recv])
qed simp

lemma runs_clean: "err_only c w v \<Longrightarrow> runs c w snd (clean_tcp N k c v)"
  unfolding clean_tcp_def by (auto intro!: runs_cli runs_bnd [OF runs_clean_loop])

section \<open>The typing of the clients\<close>

text \<open>
  Each client points to data of its own, each data belong to a client, a connected client has a
  descriptor, and nothing is at NULL.
\<close>

definition clients_typed :: "'o cworld \<Rightarrow> bool" where
  "clients_typed w \<longleftrightarrow>
     paired backend_data (clis w) (datas w) \<and>
     (\<forall>c s d. clis w c = Some s \<longrightarrow> datas w (backend_data s) = Some d \<longrightarrow> is_connect s \<longrightarrow> socket_id d \<noteq> INVALID_SOCKET)"

lemma typed_client:
  assumes "clients_typed w" and "c \<in> dom (clis w)"
  obtains s d where "client c s d w" "is_connect s \<Longrightarrow> socket_id d \<noteq> INVALID_SOCKET"
proof -
  have P: "paired backend_data (clis w) (datas w)" using assms(1) by (simp add: clients_typed_def)
  obtain s where s: "clis w c = Some s" using assms(2) by blast
  obtain d where d: "datas w (backend_data s) = Some d" by (rule paired_part [OF P s])
  have "c \<noteq> NULL_cli" using pairedD(1) [OF P] assms(2) by (auto simp: NULL_cli_def)
  with s d show thesis using that assms(1) by (simp add: client_def clients_typed_def)
qed

text \<open>Storing at a client and its data, taking both away, and adding both.\<close>

lemma typed_store:
  assumes "clients_typed w" and "client c s d w" and "clis w' = (clis w)(c \<mapsto> s')" and "datas w' = (datas w)(backend_data s \<mapsto> d')"
    and "backend_data s' = backend_data s" and "is_connect s' \<Longrightarrow> socket_id d' \<noteq> INVALID_SOCKET"
  shows "clients_typed w'"
proof -
  have P: "paired backend_data (clis w) (datas w)" using assms(1) by (simp add: clients_typed_def)
  have c: "clis w c = Some s" using assms(2) by (simp add: client_def)
  have "backend_data x = backend_data s \<longleftrightarrow> e = c" if "clis w e = Some x" for e x by (rule pairedD(4) [OF P that c])
  then show ?thesis
    using assms paired_store [OF P c assms(5)] by (auto simp: clients_typed_def split: if_splits)
qed

lemma typed_err_only: "clients_typed w \<Longrightarrow> err_only c w w' \<Longrightarrow> clients_typed w'"
  unfolding err_only_def
  by (elim exE conjE, rule typed_store, assumption+)
    (auto simp: client_def fun_upd_idem clients_typed_def)

lemma typed_remove:
  assumes "clients_typed w" and "clis w c = Some s"
    and "clis w' = (clis w)(c := None)" and "datas w' = (datas w)(backend_data s := None)"
  shows "clients_typed w'"
  using assms paired_remove [of backend_data "clis w" "datas w" c s] by (auto simp: clients_typed_def split: if_splits)

lemma typed_add:
  assumes "clients_typed w" and "c \<notin> dom (clis w) \<union> dom (datas w)" and "c \<noteq> NULL_cli"
    and "backend_data s \<notin> insert c (dom (clis w) \<union> dom (datas w))" and "backend_data s \<noteq> NULL_cli" and "\<not> is_connect s"
    and "clis w' = (clis w)(c \<mapsto> s)" and "datas w' = (datas w)(backend_data s \<mapsto> d)"
  shows "clients_typed w'"
proof -
  have P: "paired backend_data (clis w) (datas w)" using assms(1) by (simp add: clients_typed_def)
  have "backend_data x \<noteq> backend_data s" if "clis w e = Some x" for e x using pairedD(3) [OF P that] assms(4) by auto
  then show ?thesis
    using assms paired_add [OF P, of c s d] by (auto simp: clients_typed_def NULL_cli_def split: if_splits)
qed

section \<open>The life of clients\<close>

text \<open>The allocator gives an address that is not in use.\<close>

definition fresh_ok :: "'o net \<Rightarrow> bool" where
  "fresh_ok N \<longleftrightarrow> (\<forall>A o1 p o2. net_malloc N A o1 = (Some p, o2) \<longrightarrow> p \<noteq> NULL_cli \<and> p \<notin> A)"

lemma new_typed:
  assumes "fresh_ok N" and "clients_typed w" and "socket_cli_new N port a asyn timeout w = Inr (c, w')"
  shows "clients_typed w'"
proof -
  let ?A = "dom (clis w) \<union> dom (datas w)"
  obtain o1 p o2 where m: "net_malloc N ?A (cnet w) = (Some c, o1)" "net_malloc N (insert c ?A) o1 = (Some p, o2)"
    using assms(3) by (auto simp: socket_cli_new_def Let_def split: prod.splits option.splits)
  then have "c \<noteq> NULL_cli" "c \<notin> ?A" "p \<noteq> NULL_cli" "p \<notin> insert c ?A" using assms(1) unfolding fresh_ok_def by blast+
  moreover define s where "s = \<lparr>debug = 0, is_connect = False, err_code = 0, async = asyn, con_timeout = timeout, backend_data = p\<rparr>"
  then obtain d where "w' = put_data p d (put_cli c s (w\<lparr>cnet := o2\<rparr>))"
    using assms(3) m by (auto simp: socket_cli_new_def Let_def)
  ultimately show ?thesis using typed_add [OF assms(2), of c s w' d] by (simp add: cworld_simps s_def)
qed

definition keeps :: "('a \<Rightarrow> 'o cworld) \<Rightarrow> 'a cres \<Rightarrow> bool" where
  "keeps out m \<longleftrightarrow> (case m of Inl e \<Rightarrow> e \<noteq> Bad_Pointer | Inr x \<Rightarrow> clients_typed (out x))"

lemma keepsD:
  assumes "keeps out m"
  shows "m \<noteq> Inl Bad_Pointer" and "m = Inr x \<Longrightarrow> clients_typed (out x)"
  using assms by (auto simp: keeps_def)

lemma runs_keeps: "clients_typed w \<Longrightarrow> runs c w out m \<Longrightarrow> keeps out m"
  by (auto simp: keeps_def runs_def typed_err_only split: sum.splits)

lemma typed_net [simp]: "clients_typed (w\<lparr>cnet := o1\<rparr>) = clients_typed w"
  by (simp add: clients_typed_def)

lemma put_data_net: "put_data p d (w\<lparr>cnet := o1\<rparr>) = (put_data p d w)\<lparr>cnet := o1\<rparr>"
  by (simp add: put_data_def)

lemma connect_keeps:
  assumes "clients_typed w" and "client c s d w"
  shows "keeps snd (socket_connect N k c w)"
proof (cases "is_connect s")
  case True
  then show ?thesis using assms clientD(1,2) [OF assms(2)] by (simp add: socket_connect_def tcp_backend_def connect_tcp_def keeps_def)
next
  case False
  note c = clientD [OF assms(2)]
  obtain f o1 where f: "net_socket N (cnet w) = (f, o1)" by fastforce
  obtain r o3 where r: "net_connect N f (remote_addr d) (net_sndtimeo N f (timeval_of (con_timeout s)) o1) = (r, o3)" by fastforce
  define v where "v = put_data (backend_data s) (d\<lparr>socket_id := f\<rparr>) w"
  have cv: "client c s (d\<lparr>socket_id := f\<rparr>) (v\<lparr>cnet := o2\<rparr>)" for o2 using c by (simp add: client_def v_def cworld_simps)
  have "clis v = (clis w)(c \<mapsto> s)" using c(2) by (simp add: v_def cworld_simps fun_upd_idem)
  then have v: "clients_typed v"
    by (rule typed_store [OF assms]) (use False in \<open>simp_all add: v_def cworld_simps\<close>)
  have e: "clients_typed (put_cli c (s\<lparr>err_code := e\<rparr>) (v\<lparr>cnet := o2\<rparr>))" for o2 e
    using typed_err_only [of "v\<lparr>cnet := o2\<rparr>"] err_only_err [OF err_only_refl [OF cv]] clientD(2) [OF cv] v by fastforce
  have "clients_typed (put_cli c (s\<lparr>is_connect := True\<rparr>) (v\<lparr>cnet := o3\<rparr>))" if "f \<noteq> INVALID_SOCKET"
    by (rule typed_store [where s' = "s\<lparr>is_connect := True\<rparr>" and d' = "d\<lparr>socket_id := f\<rparr>", OF _ cv [of o3]])
      (use v that clientD(3) [OF cv] in \<open>simp_all add: cworld_simps fun_upd_idem\<close>)
  moreover have "socket_connect N k c w =
      Inr (if f = INVALID_SOCKET then (-1, put_cli c (s\<lparr>err_code := net_errno N o1\<rparr>) (v\<lparr>cnet := o1\<rparr>))
        else if r = -1 then (-1, put_cli c (s\<lparr>err_code := net_errno N o3\<rparr>) (v\<lparr>cnet := o3\<rparr>))
        else (0, put_cli c (s\<lparr>is_connect := True\<rparr>) (v\<lparr>cnet := o3\<rparr>)))"
    using False c(1-3) f r clientD(2,5) [OF cv]
    by (cases "f = INVALID_SOCKET") (simp_all add: socket_connect_def tcp_backend_def connect_tcp_def put_data_net v_def Let_def)
  ultimately show ?thesis using e by (simp add: keeps_def)
qed

lemma register_keeps:
  assumes "clients_typed w" and "client c s d w"
  shows "keeps snd (socket_register_notify N c cb w)"
proof -
  note c = clientD [OF assms(2)]
  obtain th o1 where th: "net_spawn N (cnet w) = (th, o1)" by fastforce
  let ?d = "d\<lparr>recv_cb := Some cb, t_id := th\<rparr>"
  have "clients_typed (put_data (backend_data s) ?d w)"
    by (rule typed_store [where s' = s and d' = ?d, OF assms])
      (use c(2,3) assms(1) in \<open>auto simp: cworld_simps fun_upd_idem clients_typed_def\<close>)
  then show ?thesis using c(1-3) th assms(1) by (simp add: socket_register_notify_def keeps_def)
qed

lemma disconnect_tcp_keeps:
  assumes "clients_typed w" and "client c s d w"
  shows "case disconnect_tcp N c w of Inl e \<Rightarrow> e \<noteq> Bad_Pointer
    | Inr x \<Rightarrow> clients_typed (snd x) \<and> client c (s\<lparr>is_connect := False\<rparr>) (d\<lparr>socket_id := INVALID_SOCKET\<rparr>) (snd x)"
proof -
  note c = clientD [OF assms(2)]
  let ?s = "s\<lparr>is_connect := False\<rparr>" and ?d = "d\<lparr>socket_id := INVALID_SOCKET\<rparr>"
  have t: "clients_typed (put_data (backend_data s) ?d ((put_cli c ?s w)\<lparr>cnet := o1\<rparr>))" for o1
    by (rule typed_store [where s' = ?s and d' = ?d, OF assms]) (simp_all add: cworld_simps)
  have k: "client c ?s ?d (put_data (backend_data s) ?d ((put_cli c ?s w)\<lparr>cnet := o1\<rparr>))" for o1
    using c(1) by (simp add: client_def cworld_simps)
  have "put_cli c ?s w = (put_cli c ?s w)\<lparr>cnet := cnet w\<rparr>" by (simp add: put_cli_def)
  then have now: "clients_typed (put_data (backend_data s) ?d (put_cli c ?s w))"
    "client c ?s ?d (put_data (backend_data s) ?d (put_cli c ?s w))" using t k by metis+
  show ?thesis
    using c(2,3) t k now
    by (cases "t_id d") (simp_all add: disconnect_tcp_def join_thread_def cworld_simps Let_def split: option.split)
qed

lemma disconnect_keeps:
  assumes "clients_typed w" and "client c s d w"
  shows "keeps snd (socket_disconnect N k c w)" and "keeps (\<lambda>w. w) (socket_destory N k c w)"
proof -
  note dis = disconnect_tcp_keeps [OF assms, of N] and c = clientD(1) [OF assms(2)]
  show "keeps snd (socket_disconnect N k c w)"
    using dis c by (auto simp: socket_disconnect_def tcp_backend_def keeps_def split: sum.splits)
  show "keeps (\<lambda>w. w) (socket_destory N k c w)"
  proof (cases "disconnect_tcp N c w")
    case (Inl e)
    then show ?thesis using dis c by (simp add: socket_destory_def tcp_backend_def destory_tcp_def keeps_def)
  next
    case (Inr x)
    then obtain n v where v: "disconnect_tcp N c w = Inr (n, v)" by (cases x) simp
    have tv: "clients_typed v" "clis v c = Some (s\<lparr>is_connect := False\<rparr>)" using dis v by (simp_all add: client_def)
    let ?v = "v\<lparr>datas := (datas v)(backend_data s := None), clis := (clis v)(c := None)\<rparr>"
    have "clients_typed ?v" by (rule typed_remove [OF tv]) simp_all
    then show ?thesis using v tv(2) c by (simp add: socket_destory_def tcp_backend_def destory_tcp_def keeps_def)
  qed
qed

lemma use_keeps:
  assumes "clients_typed w" and "client c s d w"
  shows "keeps (\<lambda>(n, buf, w). w) (socket_read N k c buf len timeout w)"
    and "keeps (\<lambda>(n, buf, w). w) (socket_read_all N k c buf len timeout w)"
    and "keeps snd (socket_write N k c buf len timeout w)"
    and "keeps snd (socket_clean N k c w)"
  using clientD(1) [OF assms(2)] err_only_refl [OF assms(2)]
  by (auto simp: socket_read_def socket_read_all_def socket_write_def socket_clean_def tcp_backend_def
      intro!: runs_keeps [OF assms(1)] runs_read runs_read_all runs_write runs_clean)

lemma debug_keeps:
  assumes "clients_typed w" and "client c s d w"
  shows "keeps (\<lambda>w. w) (socket_set_debug c b w)"
proof -
  note c = clientD [OF assms(2)]
  let ?s = "s\<lparr>debug := (if b then 1 else 0)\<rparr>"
  have "clients_typed (put_cli c ?s w)"
    by (rule typed_store [where s' = ?s and d' = d, OF assms])
      (use c(2,3) assms(1) in \<open>auto simp: cworld_simps fun_upd_idem clients_typed_def\<close>)
  then show ?thesis using c(1,2) by (simp add: socket_set_debug_def keeps_def)
qed

text \<open>
  What an application may do: make clients, and call any operation with a client that is there.
  Meanwhile the network changes as it likes.
\<close>

inductive cli_step :: "'o net \<Rightarrow> 'o cworld \<Rightarrow> 'o cworld \<Rightarrow> bool" for N where
  New: "socket_cli_new N port a asyn timeout w = Inr (c, w') \<Longrightarrow> cli_step N w w'"
| Connect: "c \<in> dom (clis w) \<Longrightarrow> socket_connect N k c w = Inr (n, w') \<Longrightarrow> cli_step N w w'"
| Register: "c \<in> dom (clis w) \<Longrightarrow> socket_register_notify N c cb w = Inr (n, w') \<Longrightarrow> cli_step N w w'"
| Read: "c \<in> dom (clis w) \<Longrightarrow> socket_read N k c buf len timeout w = Inr (n, buf', w') \<Longrightarrow> cli_step N w w'"
| Read_All: "c \<in> dom (clis w) \<Longrightarrow> socket_read_all N k c buf len timeout w = Inr (n, buf', w') \<Longrightarrow> cli_step N w w'"
| Write: "c \<in> dom (clis w) \<Longrightarrow> socket_write N k c buf len timeout w = Inr (n, w') \<Longrightarrow> cli_step N w w'"
| Clean: "c \<in> dom (clis w) \<Longrightarrow> socket_clean N k c w = Inr (n, w') \<Longrightarrow> cli_step N w w'"
| Disconnect: "c \<in> dom (clis w) \<Longrightarrow> socket_disconnect N k c w = Inr (n, w') \<Longrightarrow> cli_step N w w'"
| Destory: "c \<in> dom (clis w) \<Longrightarrow> socket_destory N k c w = Inr w' \<Longrightarrow> cli_step N w w'"
| Debug: "c \<in> dom (clis w) \<Longrightarrow> socket_set_debug c b w = Inr w' \<Longrightarrow> cli_step N w w'"
| World: "cli_step N w (w\<lparr>cnet := o1\<rparr>)"

lemma live_keeps:
  assumes "clients_typed w" and "c \<in> dom (clis w)"
  shows "keeps snd (socket_connect N k c w)" "keeps snd (socket_register_notify N c cb w)"
    "keeps (\<lambda>(n, buf, w). w) (socket_read N k c buf len timeout w)" "keeps (\<lambda>(n, buf, w). w) (socket_read_all N k c buf len timeout w)"
    "keeps snd (socket_write N k c buf len timeout w)" "keeps snd (socket_clean N k c w)"
    "keeps snd (socket_disconnect N k c w)" "keeps (\<lambda>w. w) (socket_destory N k c w)" "keeps (\<lambda>w. w) (socket_set_debug c b w)"
proof -
  obtain s d where c: "client c s d w" by (rule typed_client [OF assms])
  show "keeps snd (socket_connect N k c w)" "keeps snd (socket_register_notify N c cb w)"
    "keeps (\<lambda>(n, buf, w). w) (socket_read N k c buf len timeout w)" "keeps (\<lambda>(n, buf, w). w) (socket_read_all N k c buf len timeout w)"
    "keeps snd (socket_write N k c buf len timeout w)" "keeps snd (socket_clean N k c w)"
    "keeps snd (socket_disconnect N k c w)" "keeps (\<lambda>w. w) (socket_destory N k c w)" "keeps (\<lambda>w. w) (socket_set_debug c b w)"
    by (rule connect_keeps [OF assms(1) c] register_keeps [OF assms(1) c] use_keeps [OF assms(1) c]
        disconnect_keeps [OF assms(1) c] debug_keeps [OF assms(1) c])+
qed

lemma keeps_typed:
  "keeps snd v \<Longrightarrow> v = Inr (n, w') \<Longrightarrow> clients_typed w'"
  "keeps (\<lambda>w. w) u \<Longrightarrow> u = Inr w' \<Longrightarrow> clients_typed w'"
  "keeps (\<lambda>(n, buf, w). w) t \<Longrightarrow> t = Inr (n, buf', w') \<Longrightarrow> clients_typed w'"
  by (auto simp: keeps_def)

lemmas calls_typed = live_keeps(1,2,5-7) [THEN keeps_typed(1)] live_keeps(8,9) [THEN keeps_typed(2)]
  live_keeps(3,4) [THEN keeps_typed(3)]

inductive_cases cli_stepE: "cli_step N w w'"

lemma cli_step_typed:
  assumes "fresh_ok N" and step: "cli_step N w w'" and typed: "clients_typed w"
  shows "clients_typed w'"
proof (cases rule: cli_stepE [OF step])
  case (11 o1)
  then show ?thesis using typed by simp
qed (rule new_typed [OF assms(1) typed] calls_typed [OF typed]; assumption)+

lemma typed_reached:
  assumes "fresh_ok N" and "(cli_step N)\<^sup>*\<^sup>* \<lparr>clis = Map.empty, datas = Map.empty, cnet = o0\<rparr> w"
  shows "clients_typed w"
proof -
  have "clients_typed \<lparr>clis = Map.empty, datas = Map.empty, cnet = o0\<rparr>" by (simp add: clients_typed_def paired_empty)
  with assms(2) show ?thesis by (induction rule: rtranclp_induct) (auto intro: cli_step_typed [OF assms(1)])
qed

text \<open>
  C9: In every state that an application reaches with any number of clients, each client has data of
  its own, a connected one has a descriptor, nothing is left over when the last is destroyed,
  and no operation with a client that is there follows a bad pointer.
\<close>

theorem cli_reachable:
  assumes "fresh_ok N" and "(cli_step N)\<^sup>*\<^sup>* \<lparr>clis = Map.empty, datas = Map.empty, cnet = o0\<rparr> w"
  shows "clients_typed w \<and> (clis w = Map.empty \<longrightarrow> datas w = Map.empty) \<and>
    (\<forall>c \<in> dom (clis w). \<forall>k cb buf len timeout.
       socket_connect N k c w \<noteq> Inl Bad_Pointer \<and> socket_register_notify N c cb w \<noteq> Inl Bad_Pointer \<and>
       socket_read N k c buf len timeout w \<noteq> Inl Bad_Pointer \<and> socket_read_all N k c buf len timeout w \<noteq> Inl Bad_Pointer \<and>
       socket_write N k c buf len timeout w \<noteq> Inl Bad_Pointer \<and> socket_clean N k c w \<noteq> Inl Bad_Pointer \<and>
       socket_disconnect N k c w \<noteq> Inl Bad_Pointer \<and> socket_destory N k c w \<noteq> Inl Bad_Pointer)"
proof -
  have typed: "clients_typed w" by (rule typed_reached [OF assms])
  then have "clis w = Map.empty \<longrightarrow> datas w = Map.empty" using paired_leak unfolding clients_typed_def by blast
  with typed show ?thesis
    by (intro conjI ballI allI) (assumption | rule live_keeps [OF typed, THEN keepsD(1)])+
qed

section \<open>Clearing the input\<close>

text \<open>
  \<open>left\<close> counts the bytes that have arrived and were not received. While nothing more arrives,
  \<open>select\<close> with no wait says whether there are any, and \<open>recv\<close> of one byte takes one.
\<close>

definition counts_left :: "'o net \<Rightarrow> ('o \<Rightarrow> nat) \<Rightarrow> bool" where
  "counts_left N left \<longleftrightarrow>
     (\<forall>f A o1 n o2. net_select N f A (0, 0) o1 = (n, o2) \<longrightarrow> (n = 0 \<longleftrightarrow> left o1 = 0) \<and> left o2 = left o1) \<and>
     (\<forall>f o1 n bs o2. net_recv N f 1 o1 = (n, bs, o2) \<longrightarrow> length bs \<le> 1 \<and> left o2 = left o1 - 1)"

text \<open>A turn of the loop.\<close>

lemma clean_turn:
  assumes "client c s d w" and "0 \<le> socket_id d" and "socket_id d < FD_SETSIZE"
    and "net_select N (socket_id d + 1) {socket_id d} (0, 0) (cnet w) = (n, o1)" and "net_recv N (socket_id d) 1 o1 = (m, bs, o2)" and "length bs \<le> 1"
  shows "clean_loop N (Suc k) c w = (if n = 0 then Inr (w\<lparr>cnet := o1\<rparr>) else clean_loop N k c (w\<lparr>cnet := o2\<rparr>))"
proof -
  have "client c s d (w\<lparr>cnet := o1\<rparr>)" using assms(1) by (simp add: client_net)
  then have "\<exists>buf. recv_at N c [0, 0] 0 1 (w\<lparr>cnet := o1\<rparr>) = Inr (to_int m, buf, w\<lparr>cnet := o2\<rparr>)"
    using clientD(4) assms(5,6) by (fastforce simp: recv_at_def)
  then show ?thesis using clientD(4) [OF assms(1)] assms(2-4) by (auto simp: FD_SET_def)
qed


text \<open>
  When the peer has closed the connection, the end of the stream is readable for ever and \<open>recv\<close>
  gives 0: clearing the input never returns.
\<close>

theorem cli_clean_closed:
  assumes "client c s d w" and "is_connect s" and "async s \<noteq> 0" and "0 \<le> socket_id d" and "socket_id d < FD_SETSIZE"
    and "\<forall>f A tv o1. fst (net_select N f A tv o1) \<noteq> 0" and "\<forall>f k o1. \<exists>o2. net_recv N f k o1 = (0, [], o2)"
  shows "socket_clean N k c w = Inl No_Fuel"
proof -
  have "clean_loop N k c w = Inl No_Fuel"
    using assms(1)
  proof (induction k arbitrary: w)
    case (Suc k)
    obtain n o1 where n: "net_select N (socket_id d + 1) {socket_id d} (0, 0) (cnet w) = (n, o1)" by fastforce
    then have "n \<noteq> 0" using assms(6) by (metis fst_conv)
    moreover obtain o2 where m: "net_recv N (socket_id d) 1 o1 = (0, [], o2)" using assms(7) by blast
    moreover have "clean_loop N k c (w\<lparr>cnet := o2\<rparr>) = Inl No_Fuel" using Suc by (simp add: client_net)
    ultimately show ?case using clean_turn [OF Suc.prems assms(4,5) n m, of k] by simp
  qed simp
  then show ?thesis using clientD(1,2) [OF assms(1)] assms(2,3) by (simp add: socket_clean_def tcp_backend_def clean_tcp_def)
qed

section \<open>The properties at concrete inputs\<close>

text \<open>The peer of the demonstration with an allocator that has room for two clients.\<close>

definition roomy_net :: "peer net" where
  "roomy_net = demo_net\<lparr>net_malloc := \<lambda>A p. (find (\<lambda>a. a \<notin> A) [2, 3, 4, 5], p)\<rparr>"

lemma roomy_fresh: "fresh_ok roomy_net"
  by (auto simp: fresh_ok_def roomy_net_def NULL_cli_def find_Some_iff in_set_conv_nth nth_Cons' split: if_splits)

definition drained_net :: "peer net" where
  "drained_net = demo_net\<lparr>net_select := \<lambda>f A tv p. (if fst p = [] then 0 else 1, p)\<rparr>"

lemma drained_counts: "counts_left drained_net (\<lambda>p. length (fst p))"
  by (auto simp: counts_left_def drained_net_def demo_net_def Let_def)

theorem cli_reachable_witness:
  "\<exists>w. socket_cli_new roomy_net 80 ''10.0.0.1'' 0 100 \<lparr>clis = Map.empty, datas = Map.empty, cnet = ([], [], [], 0)\<rparr> = Inr (2, w) \<and>
    clients_typed w \<and> socket_destory roomy_net 9 2 w \<noteq> Inl Bad_Pointer"
proof -
  obtain w where w: "socket_cli_new roomy_net 80 ''10.0.0.1'' 0 100 \<lparr>clis = Map.empty, datas = Map.empty, cnet = ([], [], [], 0)\<rparr> = Inr (2, w)"
    "2 \<in> dom (clis w)" by (simp add: socket_cli_new_def roomy_net_def demo_net_def Let_def cworld_simps)
  then have "(cli_step roomy_net)\<^sup>*\<^sup>* \<lparr>clis = Map.empty, datas = Map.empty, cnet = ([], [], [], 0)\<rparr> w"
    by (blast intro: cli_step.New)
  from cli_reachable [OF roomy_fresh this] w show ?thesis by blast
qed


theorem cli_clean_closed_witness:
  "socket_clean closed_net 1000 2 (demo_client True 1 3 ([], [], [], 1)) = Inl No_Fuel"
  by (rule cli_clean_closed [OF demo_is_client])
    (simp_all add: demo_cli_def demo_data_def FD_SETSIZE_def closed_net_def demo_net_def)

end
