(* ===== verification/Socket_Public.thy ===== *)
theory Socket_Public
  imports Socket_Life
begin

text \<open>
  \<open>src/socket/socket_public.h\<close>: what the header promises of each result, as a predicate on the
  result and its arguments, and which calls keep the promise. Reading does not at the end of the
  stream: it returns 0, where the header has a positive count or -1.
\<close>

section \<open>The promises\<close>

definition connected :: "addr \<Rightarrow> 'o cworld \<Rightarrow> bool" where
  "connected c w \<longleftrightarrow> (\<exists>s. clis w c = Some s \<and> is_connect s)"

definition socket_connect_promise :: "addr \<Rightarrow> int \<Rightarrow> 'o cworld \<Rightarrow> bool" where
  "socket_connect_promise c n w \<longleftrightarrow> n = 0 \<and> connected c w \<or> n = -1"

definition socket_register_promise :: "int \<Rightarrow> bool" where
  "socket_register_promise n \<longleftrightarrow> n = 0 \<or> n = -1"

definition socket_read_promise :: "int \<Rightarrow> int \<Rightarrow> bool" where
  "socket_read_promise len n \<longleftrightarrow> 0 < n \<and> n \<le> len \<or> n = -1"

definition socket_read_all_promise :: "int \<Rightarrow> int \<Rightarrow> bool" where
  "socket_read_all_promise len n \<longleftrightarrow> 0 < n \<and> n \<le> len \<or> n = -1"

definition socket_write_promise :: "int \<Rightarrow> int \<Rightarrow> bool" where
  "socket_write_promise len n \<longleftrightarrow> 0 < n \<and> n \<le> len \<or> n = -1"

definition socket_clean_promise :: "int \<Rightarrow> bool" where
  "socket_clean_promise n \<longleftrightarrow> n = 0 \<or> n = -1"

definition socket_disconnect_promise :: "int \<Rightarrow> bool" where
  "socket_disconnect_promise n \<longleftrightarrow> n = 0 \<or> n = -1"

section \<open>One read\<close>

text \<open>
  A read waits once and receives once: -1 where there is no connection, the wait times out or
  \<open>recv\<close> fails; otherwise the number of bytes that came, which are the front of the buffer.
\<close>

lemma read_once:
  assumes "recv_ok N got" and "counts_ok N" and "client c s d w" and "0 \<le> socket_id d" and "socket_id d < FD_SETSIZE"
    and "debug s = 0" and "0 \<in> set buf" and "0 \<le> len" and "len \<le> int (length buf)" and "len < 2 ^ 31"
  shows "\<exists>n buf' w'. socket_read N k c buf len timeout w = Inr (n, buf', w') \<and>
    (n = -1 \<and> buf' = buf \<and> got (cnet w') = got (cnet w) \<or>
     0 \<le> n \<and> n \<le> len \<and> (\<exists>bs. int (length bs) = n \<and> buf' = bs @ drop (length bs) buf \<and> got (cnet w') = got (cnet w) @ bs)) \<and>
    (n = 0 \<longrightarrow> (\<exists>f m o1. fst (net_recv N f m o1) = 0))"
proof -
  note c = assms(3)
  have e: "socket_read N k c buf len timeout w = read_tcp N c buf len timeout w"
    using clientD(1) [OF c] by (simp add: socket_read_def tcp_backend_def)
  show ?thesis
  proof (cases "is_connect s \<and> async s = 0")
    case False
    then show ?thesis using e clientD(2) [OF c] by (auto simp: read_tcp_def read_first_def)
  next
    case True
    obtain r w1 where w1: "select_out N c timeout w = Inr (r, w1)" "read_step got c s [] w w1"
      using select_out_step [OF assms(1) c assms(4,5)] by blast
    obtain e1 where c1: "client c (s\<lparr>err_code := e1\<rparr>) d w1" by (rule read_step_client [OF c w1(2)])
    obtain n bs o1 where n: "net_recv N (socket_id d) (word_of_int (len - 0)) (cnet w1) = (n, bs, o1)" using prod_cases3 by blast
    note rc = recv_at_step [OF assms(1,2) c1 order_refl assms(8-10) n]
    have st: "read_step got c s (if 0 < n then bs else []) w (w1\<lparr>cnet := o1\<rparr>)" using read_step_trans [OF w1(2) rc(5)] by simp
    have c2: "client c (s\<lparr>err_code := e1\<rparr>) d (w1\<lparr>cnet := o1\<rparr>)" using c1 by (simp add: client_net)
    have g: "got (cnet w1) = got (cnet w)" "got o1 = got (cnet w) @ (if 0 < n then bs else [])"
      using w1(2) st by (simp_all add: read_step_def)
    consider "r = -1" | "r \<noteq> -1" "n = -1" | "r \<noteq> -1" "0 \<le> n" using rc(2) by linarith
    then show ?thesis
    proof cases
      case 1
      then show ?thesis using e True clientD(2) [OF c] w1(1) g(1) by (auto simp: read_tcp_def read_first_def)
    next
      case 2
      then show ?thesis
        using e True clientD(2) [OF c] w1(1) rc(1) g(2) clientD(5) [OF c2] assms(7)
        by (auto simp: read_tcp_def read_first_def print_str_def cworld_simps)
    next
      case 3
      let ?buf = "if 0 < n then bs @ drop (length bs) buf else buf"
      have "socket_read N k c buf len timeout w = Inr (n, ?buf, w1\<lparr>cnet := o1\<rparr>)"
        using e True 3 clientD(2) [OF c] w1(1) rc(1) clientD(6) [OF c2] assms(6) by (simp add: read_tcp_def read_first_def)
      moreover have "\<exists>f m o1. fst (net_recv N f m o1) = 0" if "n = 0" using n that by (metis fst_conv)
      moreover have "\<exists>as. int (length as) = n \<and> ?buf = as @ drop (length as) buf \<and> got o1 = got (cnet w) @ as"
        using 3 rc(4) g(2) by (intro exI [of _ "if 0 < n then bs else []"]) auto
      ultimately show ?thesis using 3 rc(3) by simp
    qed
  qed
qed

lemma connect_result:
  assumes "client c s d w"
  shows "\<exists>n w'. socket_connect N k c w = Inr (n, w') \<and> socket_connect_promise c n w'"
proof (cases "is_connect s")
  case True
  then show ?thesis using clientD(1,2) [OF assms]
    by (simp add: socket_connect_def tcp_backend_def connect_tcp_def socket_connect_promise_def)
next
  case False
  have c: "client c s (d\<lparr>socket_id := f\<rparr>) (put_data (backend_data s) (d\<lparr>socket_id := f\<rparr>) (w\<lparr>cnet := o1\<rparr>))" for f o1
    using assms by (simp add: client_def cworld_simps)
  have c': "client c s (d\<lparr>socket_id := f\<rparr>) ((put_data (backend_data s) (d\<lparr>socket_id := f\<rparr>) (w\<lparr>cnet := o1\<rparr>))\<lparr>cnet := o2\<rparr>)" for f o1 o2
    using c by (simp add: client_net)
  show ?thesis using False clientD(1-3) [OF assms] clientD(2,5) [OF c] clientD(2,5) [OF c']
    by (auto simp: socket_connect_def tcp_backend_def connect_tcp_def socket_connect_promise_def connected_def cworld_simps Let_def
        split: prod.splits)
qed

lemma sync_results:
  assumes "client c s d w"
  shows "\<exists>n w'. socket_register_notify N c cb w = Inr (n, w') \<and> socket_register_promise n"
    and "async s = 0 \<Longrightarrow> \<exists>n w'. socket_clean N k c w = Inr (n, w') \<and> socket_clean_promise n"
    and "async s = 0 \<Longrightarrow> \<exists>n w'. socket_disconnect N k c w = Inr (n, w') \<and> socket_disconnect_promise n"
  using clientD(1-3) [OF assms]
  by (auto simp: socket_register_notify_def socket_clean_def socket_disconnect_def tcp_backend_def clean_tcp_def disconnect_tcp_def
      socket_register_promise_def socket_clean_promise_def socket_disconnect_promise_def cworld_simps Let_def split: prod.splits)

lemma write_not_connected:
  "client c s d w \<Longrightarrow> \<not> is_connect s \<Longrightarrow> socket_write N k c buf len timeout w = Inr (-1, w)"
  using clientD(1,2) [of c s d w] by (simp add: socket_write_def tcp_backend_def write_tcp_def)


text \<open>At the end of the stream the promise of \<open>socket_read\<close> is broken: it returns 0.\<close>

theorem socket_read_end:
  assumes "client c s d w" and "is_connect s" and "async s = 0" and "debug s = 0"
    and "net_recv N (socket_id d) (word_of_int len) (cnet w) = (0, bs, o1)"
  shows "socket_read N k c buf len 0 w = Inr (0, buf, w\<lparr>cnet := o1\<rparr>) \<and> \<not> socket_read_promise len 0"
proof -
  have c: "client c s d (w\<lparr>cnet := o1\<rparr>)" using assms(1) by (simp add: client_net)
  show ?thesis
    using clientD(1,2,4) [OF assms(1)] clientD(6) [OF c] assms(2-5)
    by (simp add: socket_read_def tcp_backend_def read_tcp_def read_first_def select_out_def recv_at_def to_int_id
        socket_read_promise_def)
qed


theorem socket_read_end_witness:
  "\<exists>w. socket_read (demo_net\<lparr>net_recv := \<lambda>f n o1. (0, [], o1)\<rparr>) 9 2 [7] 1 0 w = Inr (0, [7], w) \<and>
     \<not> socket_read_promise 1 0"
proof -
  let ?N = "demo_net\<lparr>net_recv := \<lambda>f n o1. (0, [], o1)\<rparr>" and ?w = "demo_client True 0 3 ([5, 6], [], [], 1)"
  have w: "?w\<lparr>cnet := cnet ?w\<rparr> = ?w" by simp
  have "is_connect (demo_cli True 0)" "async (demo_cli True 0) = 0" "debug (demo_cli True 0) = 0"
    "net_recv ?N (socket_id (demo_data 3)) (word_of_int 1) (cnet ?w) = (0, [], cnet ?w)"
    by (simp_all add: demo_cli_def)
  from socket_read_end [OF demo_is_client this, of 9 "[7]", unfolded w] show ?thesis by blast
qed

end
