(* ===== verification/Socket_Threads.thy ===== *)
theory Socket_Threads
  imports Socket_Client
begin

text \<open>
  An asynchronous client of \<open>src/socket/socket_cli.c\<close> with its two threads: the reading thread
  \<open>task_read\<close> that \<open>socket_register_notify\<close> started, and the thread that calls \<open>socket_disconnect\<close>.
  Each test, each call and each store that the other thread can see is a step of its own. A call
  that blocks leaves the thread where it is: \<open>recv\<close> while nothing has arrived (\<open>ready\<close> says when it
  returns), \<open>pthread_join\<close> while the other thread runs. A schedule is a list of turns, among them
  turns of the network.
\<close>

section \<open>Steps\<close>

datatype rpc = Test_Flag | In_Recv | Received "byte list" int | Ended

datatype cpc = Set_Flag | In_Join | Close_Fd | Clear_Id | Back int

definition reader_step ::
  "'o net \<Rightarrow> (int \<Rightarrow> 'o \<Rightarrow> bool) \<Rightarrow> (nat \<Rightarrow> byte list \<Rightarrow> int \<Rightarrow> 'o cworld \<Rightarrow> 'o cworld cres) \<Rightarrow> addr \<Rightarrow>
     rpc \<Rightarrow> 'o cworld \<Rightarrow> (rpc \<times> 'o cworld) cres" where
  "reader_step N ready on_recv c pc w =
     (case pc of
        Test_Flag \<Rightarrow> bnd (deref (clis w) c) (\<lambda>s. Inr (if is_connect s then In_Recv else Ended, w))
      | In_Recv \<Rightarrow>
          bnd (the_data c w) (\<lambda>(s, d).
          if ready (socket_id d) (cnet w) then
            bnd (recv_at N c (replicate 4096 0) 0 4096 w) (\<lambda>(ret, cbuf, w).
            Inr (if ret > 0 then Received cbuf ret else Test_Flag, w))
          else Inr (In_Recv, w))
      | Received cbuf ret \<Rightarrow>
          bnd (the_data c w) (\<lambda>(s, d).
          bnd (initialised (recv_cb d)) (\<lambda>cb.
          bnd (on_recv cb cbuf ret w) (\<lambda>w.
          bnd (print_debug c cbuf w) (\<lambda>_.
          Inr (Test_Flag, w)))))
      | Ended \<Rightarrow> Inr (Ended, w))"

text \<open>\<open>socket_disconnect\<close>; \<open>ended\<close> says whether the reading thread has.\<close>

definition closer_step :: "'o net \<Rightarrow> addr \<Rightarrow> bool \<Rightarrow> cpc \<Rightarrow> 'o cworld \<Rightarrow> (cpc \<times> 'o cworld) cres" where
  "closer_step N c ended pc w =
     (case pc of
        Set_Flag \<Rightarrow>
          bnd (deref (clis w) c) (\<lambda>s.
          bnd (deref (datas w) (backend_data s)) (\<lambda>d.
          Inr (if socket_id d \<noteq> INVALID_SOCKET then (if async s \<noteq> 0 then In_Join else Close_Fd) else Clear_Id,
            put_cli c (s\<lparr>is_connect := False\<rparr>) w)))
      | In_Join \<Rightarrow>
          bnd (the_data c w) (\<lambda>(s, d).
          bnd (initialised (t_id d)) (\<lambda>_. Inr (if ended then Close_Fd else In_Join, w)))
      | Close_Fd \<Rightarrow>
          bnd (the_data c w) (\<lambda>(s, d). Inr (Clear_Id, w\<lparr>cnet := net_close N (socket_id d) (cnet w)\<rparr>))
      | Clear_Id \<Rightarrow>
          bnd (the_data c w) (\<lambda>(s, d). Inr (Back 0, put_data (backend_data s) (d\<lparr>socket_id := INVALID_SOCKET\<rparr>) w))
      | Back n \<Rightarrow> Inr (Back n, w))"

datatype 'o turn = Reader | Closer | Network "'o \<Rightarrow> 'o"

fun run_turns ::
  "'o net \<Rightarrow> (int \<Rightarrow> 'o \<Rightarrow> bool) \<Rightarrow> (nat \<Rightarrow> byte list \<Rightarrow> int \<Rightarrow> 'o cworld \<Rightarrow> 'o cworld cres) \<Rightarrow> addr \<Rightarrow>
     'o turn list \<Rightarrow> rpc \<Rightarrow> cpc \<Rightarrow> 'o cworld \<Rightarrow> (rpc \<times> cpc \<times> 'o cworld) cres" where
  "run_turns N ready on_recv c [] r k w = Inr (r, k, w)"
| "run_turns N ready on_recv c (Reader # ts) r k w =
     bnd (reader_step N ready on_recv c r w) (\<lambda>(r, w). run_turns N ready on_recv c ts r k w)"
| "run_turns N ready on_recv c (Closer # ts) r k w =
     bnd (closer_step N c (r = Ended) k w) (\<lambda>(k, w). run_turns N ready on_recv c ts r k w)"
| "run_turns N ready on_recv c (Network f # ts) r k w =
     run_turns N ready on_recv c ts r k (w\<lparr>cnet := f (cnet w)\<rparr>)"

lemma run_turns_append:
  "run_turns N ready on_recv c (ts @ us) r k w =
     bnd (run_turns N ready on_recv c ts r k w) (\<lambda>(r, k, w). run_turns N ready on_recv c us r k w)"
proof (induction ts arbitrary: r k w)
  case (Cons t ts)
  then show ?case by (cases t) (auto simp: bnd_assoc split_def)
qed simp

section \<open>The steps are those of the functions\<close>

text \<open>
  Left alone after the reading thread has ended, the closing thread does what \<open>socket_disconnect\<close>
  does where \<open>pthread_join\<close> returns, with the same result, world or fault.
\<close>

theorem closer_alone:
  assumes "c \<noteq> NULL_cli" and "\<forall>th o1. net_join N th o1 = Some o1"
  shows "run_turns N ready on_recv c (replicate 4 Closer) Ended Set_Flag w =
    bnd (socket_disconnect N k c w) (\<lambda>(n, w). Inr (Ended, Back n, w))"
proof (cases "clis w c")
  case None
  then show ?thesis using assms(1)
    by (simp add: numeral_eq_Suc closer_step_def socket_disconnect_def tcp_backend_def disconnect_tcp_def)
next
  case (Some s)
  show ?thesis
  proof (cases "datas w (backend_data s)")
    case None
    then show ?thesis using assms(1) Some
      by (simp add: numeral_eq_Suc closer_step_def socket_disconnect_def tcp_backend_def disconnect_tcp_def cworld_simps)
  next
    case d: (Some d)
    then show ?thesis using assms Some
      by (cases "t_id d") (simp_all add: numeral_eq_Suc closer_step_def socket_disconnect_def tcp_backend_def disconnect_tcp_def
          cworld_simps the_data_def join_thread_def)
  qed
qed


section \<open>What the threads do together\<close>

text \<open>
  The outside world logs what is received, handed to the callback and closed. \<open>recv\<close> stores at
  most the number of bytes asked for; the callback returns and leaves the client alone.
\<close>

datatype event = Ev_Recv int "byte list" | Ev_Call "byte list" | Ev_Close int

definition logs ::
  "'o net \<Rightarrow> (nat \<Rightarrow> byte list \<Rightarrow> int \<Rightarrow> 'o cworld \<Rightarrow> 'o cworld cres) \<Rightarrow> ('o \<Rightarrow> event list) \<Rightarrow> bool" where
  "logs N on_recv trace \<longleftrightarrow>
     (\<forall>f k o1 n bs o2. net_recv N f k o1 = (n, bs, o2) \<longrightarrow>
        - 1 \<le> n \<and> n \<le> int (unat k) \<and> (0 < n \<longrightarrow> int (length bs) = n) \<and>
        trace o2 = trace o1 @ [Ev_Recv f (if 0 < n then bs else [])]) \<and>
     (\<forall>f o1. trace (net_close N f o1) = trace o1 @ [Ev_Close f]) \<and>
     (\<forall>cb buf n w. \<exists>w'. on_recv cb buf n w = Inr w' \<and> clis w' = clis w \<and> datas w' = datas w \<and>
        trace (cnet w') = trace (cnet w) @ [Ev_Call (take (nat n) buf)])"

lemma logsD:
  assumes "logs N on_recv trace"
  shows "net_recv N f k o1 = (n, bs, o2) \<Longrightarrow> - 1 \<le> n \<and> n \<le> int (unat k) \<and> (0 < n \<longrightarrow> int (length bs) = n) \<and>
      trace o2 = trace o1 @ [Ev_Recv f (if 0 < n then bs else [])]"
    and "trace (net_close N f o1) = trace o1 @ [Ev_Close f]"
    and "\<exists>w'. on_recv cb buf n w = Inr w' \<and> clis w' = clis w \<and> datas w' = datas w \<and>
      trace (cnet w') = trace (cnet w) @ [Ev_Call (take (nat n) buf)]"
  using assms unfolding logs_def by blast+

text \<open>Turns of the network do not write the log.\<close>

definition quiet :: "('o \<Rightarrow> event list) \<Rightarrow> 'o turn \<Rightarrow> bool" where
  "quiet trace u \<longleftrightarrow> (\<forall>f. u = Network f \<longrightarrow> (\<forall>o1. trace (f o1) = trace o1))"

definition received :: "event list \<Rightarrow> byte list" where
  "received es = concat (map (\<lambda>e. case e of Ev_Recv f bs \<Rightarrow> bs | _ \<Rightarrow> []) es)"

definition called :: "event list \<Rightarrow> byte list" where
  "called es = concat (map (\<lambda>e. case e of Ev_Call bs \<Rightarrow> bs | _ \<Rightarrow> []) es)"

definition open_on :: "int \<Rightarrow> event list \<Rightarrow> bool" where
  "open_on f es \<longleftrightarrow> list_all (\<lambda>e. case e of Ev_Recv g bs \<Rightarrow> g = f | Ev_Call bs \<Rightarrow> True | Ev_Close g \<Rightarrow> False) es"

named_theorems event_simps \<open>reading the log\<close>

lemma event_snoc [event_simps]:
  "received [] = []" "called [] = []" "open_on f []"
  "received (es @ [Ev_Recv g bs]) = received es @ bs" "received (es @ [Ev_Call bs]) = received es" "received (es @ [Ev_Close g]) = received es"
  "called (es @ [Ev_Recv g bs]) = called es" "called (es @ [Ev_Call bs]) = called es @ bs" "called (es @ [Ev_Close g]) = called es"
  "open_on f (es @ [Ev_Recv g bs]) \<longleftrightarrow> open_on f es \<and> g = f" "open_on f (es @ [Ev_Call bs]) = open_on f es" "\<not> open_on f (es @ [Ev_Close g])"
  by (auto simp: received_def called_def open_on_def)

definition pending :: "rpc \<Rightarrow> byte list" where
  "pending r = (case r of Received cbuf n \<Rightarrow> take (nat n) cbuf | _ \<Rightarrow> [])"

text \<open>
  Between two steps: the flag is set until the closing thread has cleared it; before the descriptor
  is closed all receiving was on it, and the callback got what was received but for the block
  that the reading thread holds; it is closed only when that thread has ended.
\<close>

definition both :: "('o \<Rightarrow> event list) \<Rightarrow> event list \<Rightarrow> addr \<Rightarrow> socket_cli \<Rightarrow> socket_data \<Rightarrow> rpc \<Rightarrow> cpc \<Rightarrow> 'o cworld \<Rightarrow> bool" where
  "both trace tr c s d r k w \<longleftrightarrow>
     client c (s\<lparr>is_connect := (k = Set_Flag)\<rparr>) (d\<lparr>socket_id := (if k = Back 0 then INVALID_SOCKET else socket_id d)\<rparr>) w \<and>
     (\<exists>es. open_on (socket_id d) es \<and> received es = called es @ pending r \<and>
        (k \<in> {Set_Flag, In_Join} \<and> trace (cnet w) = tr @ es \<or>
         k = Close_Fd \<and> r = Ended \<and> trace (cnet w) = tr @ es \<or>
         k \<in> {Clear_Id, Back 0} \<and> r = Ended \<and> trace (cnet w) = tr @ es @ [Ev_Close (socket_id d)]))"

lemma recv_buf:
  assumes "logs N on_recv trace" and "client c s d w" and "net_recv N (socket_id d) 4096 (cnet w) = (n, bs, o1)"
  shows "recv_at N c (replicate 4096 0) 0 4096 w =
      Inr (n, if 0 < n then bs @ replicate (4096 - length bs) 0 else replicate 4096 0, w\<lparr>cnet := o1\<rparr>)"
proof -
  have n: "- 1 \<le> n" "n \<le> int (unat (4096 :: size_t))" "0 < n \<longrightarrow> int (length bs) = n" using logsD(1) [OF assms(1,3)] by blast+
  then have "to_int n = n" by (intro to_int_id) simp_all
  moreover have "wr (replicate 4096 0) 0 bs = Inr (bs @ replicate (4096 - length bs) 0)" if "0 < n"
    using n that by simp
  ultimately show ?thesis using clientD(4) [OF assms(2)] assms(3) by (simp add: recv_at_def)
qed

lemma reader_both:
  assumes L: "logs N on_recv trace" and d: "debug s = 0" "recv_cb d \<noteq> None" and b: "both trace tr c s d r k w"
  shows "\<exists>r' w'. reader_step N ready on_recv c r w = Inr (r', w') \<and> both trace tr c s d r' k w'"
proof -
  define s' where "s' = s\<lparr>is_connect := (k = Set_Flag)\<rparr>"
  define d' where "d' = d\<lparr>socket_id := (if k = Back 0 then INVALID_SOCKET else socket_id d)\<rparr>"
  have c: "client c s' d' w" using b by (simp add: both_def s'_def d'_def)
  have f: "debug s' = 0" "recv_cb d' \<noteq> None" "is_connect s' = (k = Set_Flag)" using d by (simp_all add: s'_def d'_def)
  show ?thesis
  proof (cases "r = Ended")
    case True
    then show ?thesis using b by (simp add: reader_step_def)
  next
    case live: False
    then have k: "k \<in> {Set_Flag, In_Join}" "d' = d" using b by (auto simp: both_def d'_def)
    obtain es where es: "open_on (socket_id d) es" "received es = called es @ pending r" "trace (cnet w) = tr @ es"
      using b live by (auto simp: both_def)
    have keep: "both trace tr c s d r' k w'"
      if "client c s' d w'" "trace (cnet w') = tr @ es'" "open_on (socket_id d) es'" "received es' = called es' @ pending r'" for r' w' es'
      using that k unfolding both_def s'_def by (auto simp: d'_def)
    show ?thesis
    proof (cases r)
      case Test_Flag
      have "both trace tr c s d (if is_connect s' then In_Recv else Ended) k w"
        by (rule keep [OF c [unfolded k(2)] es(3,1)]) (use es(2) Test_Flag in \<open>simp add: pending_def\<close>)
      then show ?thesis using Test_Flag clientD(2) [OF c] by (simp add: reader_step_def)
    next
      case In_Recv
      obtain n bs o1 where n: "net_recv N (socket_id d) 4096 (cnet w) = (n, bs, o1)" using prod_cases3 by blast
      note rc = recv_buf [OF L c [unfolded k(2)] n] logsD(1) [OF L n]
      let ?r = "if 0 < n then Received (bs @ replicate (4096 - length bs) 0) n else Test_Flag"
      have "both trace tr c s d ?r k (w\<lparr>cnet := o1\<rparr>)"
        by (rule keep [where es' = "es @ [Ev_Recv (socket_id d) (if 0 < n then bs else [])]"])
          (use c k(2) es rc(2) In_Recv in \<open>auto simp: client_net pending_def event_simps\<close>)
      then show ?thesis using In_Recv clientD(4) [OF c] k(2) rc(1) b by (auto simp: reader_step_def)
    next
      case (Received cbuf n)
      obtain cb where cb: "recv_cb d = Some cb" using d(2) by blast
      obtain w1 where w1: "on_recv cb cbuf n w = Inr w1" "clis w1 = clis w" "datas w1 = datas w"
        "trace (cnet w1) = trace (cnet w) @ [Ev_Call (take (nat n) cbuf)]" using logsD(3) [OF L] by blast
      have c1: "client c s' d w1" using c k(2) w1(2,3) by (simp add: client_def)
      have "both trace tr c s d Test_Flag k w1"
        by (rule keep [OF c1, where es' = "es @ [Ev_Call (take (nat n) cbuf)]"])
          (use es w1(4) Received in \<open>auto simp: pending_def event_simps\<close>)
      then show ?thesis using Received clientD(4) [OF c] k(2) cb w1(1) clientD(6) [OF c1] f(1) by (simp add: reader_step_def)
    qed (use live in simp)
  qed
qed

lemma closer_both:
  assumes L: "logs N on_recv trace" and d: "async s \<noteq> 0" "t_id d \<noteq> None" "socket_id d \<noteq> INVALID_SOCKET" and b: "both trace tr c s d r k w"
  shows "\<exists>k' w'. closer_step N c (r = Ended) k w = Inr (k', w') \<and> both trace tr c s d r k' w'"
proof -
  let ?s = "s\<lparr>is_connect := False\<rparr>"
  obtain th where th: "t_id d = Some th" using d(2) by blast
  have k: "k \<in> {Set_Flag, In_Join, Close_Fd, Clear_Id, Back 0}" using b by (auto simp: both_def)
  then consider (set) "k = Set_Flag" | (join) "k = In_Join" | (shut) "k = Close_Fd" | (clear) "k = Clear_Id" | (ret) "k = Back 0" by blast
  then show ?thesis
  proof cases
    case set
    then have c: "client c (s\<lparr>is_connect := True\<rparr>) d w" using b by (simp add: both_def)
    then have "client c ?s d (put_cli c ?s w)" by (simp add: client_def cworld_simps)
    then have "both trace tr c s d r In_Join (put_cli c ?s w)" using b set by (simp add: both_def cworld_simps)
    then show ?thesis using set clientD(2,3) [OF c] d(1,3) by (simp add: closer_step_def)
  next
    case join
    then have c: "client c ?s d w" using b by (simp add: both_def)
    have "both trace tr c s d r (if r = Ended then Close_Fd else In_Join) w" using b join by (cases "r = Ended") (simp_all add: both_def)
    then show ?thesis using join clientD(4) [OF c] th by (simp add: closer_step_def)
  next
    case shut
    then have c: "client c ?s d w" using b by (simp add: both_def)
    have "both trace tr c s d r Clear_Id (w\<lparr>cnet := net_close N (socket_id d) (cnet w)\<rparr>)"
      using b shut logsD(2) [OF L] by (auto simp: both_def client_net)
    then show ?thesis using shut clientD(4) [OF c] by (simp add: closer_step_def)
  next
    case clear
    then have c: "client c ?s d w" using b by (simp add: both_def)
    let ?w = "put_data (backend_data s) (d\<lparr>socket_id := INVALID_SOCKET\<rparr>) w"
    have "client c ?s (d\<lparr>socket_id := INVALID_SOCKET\<rparr>) ?w" using c by (simp add: client_def cworld_simps)
    then have "both trace tr c s d r (Back 0) ?w" using b clear by (simp add: both_def cworld_simps)
    then show ?thesis using clear clientD(4) [OF c] by (simp add: closer_step_def)
  next
    case ret
    then show ?thesis using b by (simp add: closer_step_def)
  qed
qed

lemma run_both:
  assumes "logs N on_recv trace" and "debug s = 0" and "recv_cb d \<noteq> None" and "async s \<noteq> 0" and "t_id d \<noteq> None"
    and "socket_id d \<noteq> INVALID_SOCKET" and "list_all (quiet trace) ts" and "both trace tr c s d r k w"
  shows "\<exists>r' k' w'. run_turns N ready on_recv c ts r k w = Inr (r', k', w') \<and> both trace tr c s d r' k' w'"
  using assms(7,8)
proof (induction ts arbitrary: r k w)
  case (Cons t ts)
  show ?case
  proof (cases t)
    case Reader
    then show ?thesis using reader_both [OF assms(1-3) Cons.prems(2), of ready] Cons.IH Cons.prems(1) by fastforce
  next
    case Closer
    then show ?thesis using closer_both [OF assms(1,4-6) Cons.prems(2)] Cons.IH Cons.prems(1) by fastforce
  next
    case (Network f)
    then have "both trace tr c s d r k (w\<lparr>cnet := f (cnet w)\<rparr>)"
      using Cons.prems by (simp add: both_def client_net quiet_def)
    then show ?thesis using Network Cons.IH Cons.prems(1) by simp
  qed
qed simp

text \<open>A connected asynchronous client whose reading thread runs.\<close>

definition notified :: "addr \<Rightarrow> socket_cli \<Rightarrow> socket_data \<Rightarrow> 'o cworld \<Rightarrow> bool" where
  "notified c s d w \<longleftrightarrow> client c s d w \<and> is_connect s \<and> async s \<noteq> 0 \<and> debug s = 0 \<and> socket_id d \<noteq> INVALID_SOCKET \<and>
     recv_cb d \<noteq> None \<and> t_id d \<noteq> None"

lemma flag_set: "is_connect s \<Longrightarrow> s\<lparr>is_connect := True\<rparr> = s"
  by (cases s) simp

lemma notified_both:
  assumes "notified c s d w" and "r \<in> {Test_Flag, In_Recv}"
  shows "both trace (trace (cnet w)) c s d r Set_Flag w"
proof -
  have "open_on (socket_id d) [] \<and> received [] = called [] @ pending r" using assms(2) by (auto simp: event_simps pending_def)
  then show ?thesis using assms(1) unfolding both_def notified_def by (intro conjI exI [of _ "[]"]) (simp_all add: flag_set)
qed

text \<open>
  C8: However the turns of the reading thread, of a thread that disconnects and of the network are
  interleaved, nothing faults. All that is received is handed to the callback, in order and
  without a byte twice, but for the block that the reading thread holds. The descriptor is closed once, and
  only after the reading thread has ended: nothing is received on it and no callback runs
  afterwards. Where \<open>socket_disconnect\<close> has returned, the client is closed.
\<close>

theorem disconnect_waits:
  assumes "logs N on_recv trace" and "notified c s d w" and "list_all (quiet trace) ts"
  shows "\<exists>r k w' es. run_turns N ready on_recv c ts Test_Flag Set_Flag w = Inr (r, k, w') \<and>
    open_on (socket_id d) es \<and> received es = called es @ pending r \<and>
    trace (cnet w') = trace (cnet w) @ es @ (if k \<in> {Clear_Id, Back 0} then [Ev_Close (socket_id d)] else []) \<and>
    (k \<in> {Close_Fd, Clear_Id, Back 0} \<longrightarrow> r = Ended) \<and>
    (k = Back n \<longrightarrow> n = 0 \<and> client c (s\<lparr>is_connect := False\<rparr>) (d\<lparr>socket_id := INVALID_SOCKET\<rparr>) w')"
proof -
  have "both trace (trace (cnet w)) c s d Test_Flag Set_Flag w" by (rule notified_both [OF assms(2)]) simp
  with run_both [OF assms(1) _ _ _ _ _ assms(3)] assms(2) obtain r k w' where
    run: "run_turns N ready on_recv c ts Test_Flag Set_Flag w = Inr (r, k, w')" and b: "both trace (trace (cnet w)) c s d r k w'"
    unfolding notified_def by blast
  obtain es where "open_on (socket_id d) es" "received es = called es @ pending r"
    "trace (cnet w') = trace (cnet w) @ es @ (if k \<in> {Clear_Id, Back 0} then [Ev_Close (socket_id d)] else [])"
    using b unfolding both_def by (elim conjE exE) (auto intro: that)
  moreover have "k \<in> {Close_Fd, Clear_Id, Back 0} \<longrightarrow> r = Ended" using b by (auto simp: both_def)
  moreover have "k = Back n \<longrightarrow> n = 0 \<and> client c (s\<lparr>is_connect := False\<rparr>) (d\<lparr>socket_id := INVALID_SOCKET\<rparr>) w'" using b by (auto simp: both_def)
  ultimately show ?thesis using run by blast
qed

text \<open>
  C37: A silent peer: while the reading thread waits in \<open>recv\<close> and nothing arrives, \<open>socket_disconnect\<close>
  clears the flag and then waits for that thread for ever, with the descriptor open.
\<close>

theorem disconnect_hangs:
  assumes "notified c s d w" and "\<not> ready (socket_id d) (cnet w)" and "set ts \<subseteq> {Reader, Closer}"
  shows "\<exists>k w'. run_turns N ready on_recv c ts In_Recv Set_Flag w = Inr (In_Recv, k, w') \<and>
    k \<in> {Set_Flag, In_Join} \<and> cnet w' = cnet w"
proof -
  obtain th where th: "t_id d = Some th" using assms(1) by (auto simp: notified_def)
  have run: "\<exists>k' w'. run_turns N ready on_recv c ts In_Recv k v = Inr (In_Recv, k', w') \<and> k' \<in> {Set_Flag, In_Join} \<and> cnet w' = cnet w"
    if "client c (s\<lparr>is_connect := b\<rparr>) d v" "cnet v = cnet w" "k \<in> {Set_Flag, In_Join}" for b k v
    using that assms(3)
  proof (induction ts arbitrary: b k v)
    case (Cons t ts)
    note c = clientD [OF Cons.prems(1)]
    show ?case
    proof (cases t)
      case Reader
      then have "run_turns N ready on_recv c (t # ts) In_Recv k v = run_turns N ready on_recv c ts In_Recv k v"
        using c(4) assms(2) Cons.prems(2) by (simp add: reader_step_def)
      then show ?thesis using Cons by simp
    next
      case Closer
      let ?v = "if k = Set_Flag then put_cli c (s\<lparr>is_connect := False\<rparr>) v else v"
      have "run_turns N ready on_recv c (t # ts) In_Recv k v = run_turns N ready on_recv c ts In_Recv In_Join ?v"
        using Closer c th assms(1) Cons.prems(3) by (auto simp: closer_step_def notified_def)
      moreover have "client c (s\<lparr>is_connect := b \<and> k \<noteq> Set_Flag\<rparr>) d ?v"
        using Cons.prems(1) by (auto simp: client_def cworld_simps)
      then have "\<exists>k' w'. run_turns N ready on_recv c ts In_Recv In_Join ?v = Inr (In_Recv, k', w') \<and>
          k' \<in> {Set_Flag, In_Join} \<and> cnet w' = cnet w"
        by (rule Cons.IH) (use Cons.prems in \<open>auto simp: cworld_simps\<close>)
      ultimately show ?thesis by simp
    qed (use Cons.prems(4) in simp)
  qed simp
  have "client c (s\<lparr>is_connect := True\<rparr>) d w" using assms(1) by (simp add: notified_def flag_set)
  then show ?thesis by (rule run) simp_all
qed

text \<open>
  How many turns each thread has left: the reading thread after the flag is cleared, where \<open>recv\<close>
  does not block; the closing thread after the other has ended.
\<close>

fun reader_left :: "rpc \<Rightarrow> nat" where
  "reader_left In_Recv = 3"
| "reader_left (Received cbuf n) = 2"
| "reader_left Test_Flag = 1"
| "reader_left Ended = 0"

fun closer_left :: "cpc \<Rightarrow> nat" where
  "closer_left Set_Flag = 4"
| "closer_left In_Join = 3"
| "closer_left Close_Fd = 2"
| "closer_left Clear_Id = 1"
| "closer_left (Back n) = 0"

lemma reader_left_0 [simp]: "reader_left r = 0 \<longleftrightarrow> r = Ended"
  by (cases r) simp_all

lemma reader_progress:
  assumes "both trace tr c s d r k w" and "k \<noteq> Set_Flag" and "\<forall>f o1. ready f o1" and "reader_step N ready on_recv c r w = Inr (r', w')"
  shows "reader_left r' \<le> reader_left r - 1"
proof -
  have "client c (s\<lparr>is_connect := False\<rparr>) (d\<lparr>socket_id := (if k = Back 0 then INVALID_SOCKET else socket_id d)\<rparr>) w"
    using assms(1,2) by (simp add: both_def)
  note c = clientD(2,4) [OF this]
  show ?thesis using assms(3,4) c by (cases r) (auto simp: reader_step_def)
qed

lemma closer_progress:
  assumes "both trace tr c s d r k w" and "closer_step N c (r = Ended) k w = Inr (k', w')"
  shows "k' \<noteq> Set_Flag" and "r = Ended \<Longrightarrow> closer_left k' \<le> closer_left k - 1"
proof -
  let ?d = "d\<lparr>socket_id := (if k = Back 0 then INVALID_SOCKET else socket_id d)\<rparr>"
  have "client c (s\<lparr>is_connect := (k = Set_Flag)\<rparr>) ?d w" using assms(1) by (simp add: both_def)
  note c = clientD(2-4) [OF this]
  show "k' \<noteq> Set_Flag" and "r = Ended \<Longrightarrow> closer_left k' \<le> closer_left k - 1"
    using assms(2) c by (cases k; auto simp: closer_step_def split: if_splits)+
qed

lemma run_progress:
  assumes "logs N on_recv trace" and "notified c s d v" and "list_all (quiet trace) ts" and "both trace tr c s d r k w"
    and "\<forall>f o1. ready f o1" and "run_turns N ready on_recv c ts r k w = Inr (r', k', w')"
  shows "(Closer \<in> set ts \<or> k \<noteq> Set_Flag \<longrightarrow> k' \<noteq> Set_Flag) \<and>
    (k \<noteq> Set_Flag \<longrightarrow> reader_left r' \<le> reader_left r - count_list ts Reader) \<and>
    (r = Ended \<longrightarrow> closer_left k' \<le> closer_left k - count_list ts Closer)"
  using assms(3,4,6)
proof (induction ts arbitrary: r k w)
  case (Cons t ts)
  have f: "debug s = 0" "recv_cb d \<noteq> None" "async s \<noteq> 0" "t_id d \<noteq> None" "socket_id d \<noteq> INVALID_SOCKET"
    using assms(2) by (simp_all add: notified_def)
  show ?case
  proof (cases t)
    case Reader
    obtain r1 w1 where 1: "reader_step N ready on_recv c r w = Inr (r1, w1)" "both trace tr c s d r1 k w1"
      using reader_both [OF assms(1) f(1,2) Cons.prems(2)] by blast
    have "k \<noteq> Set_Flag \<longrightarrow> reader_left r1 \<le> reader_left r - 1" using reader_progress [OF Cons.prems(2) _ assms(5) 1(1)] by blast
    moreover have "r = Ended \<longrightarrow> r1 = Ended" using 1(1) by (auto simp: reader_step_def)
    ultimately show ?thesis using Cons.IH [OF _ 1(2)] Cons.prems Reader 1(1) by fastforce
  next
    case Closer
    obtain k1 w1 where 1: "closer_step N c (r = Ended) k w = Inr (k1, w1)" "both trace tr c s d r k1 w1"
      using closer_both [OF assms(1) f(3-5) Cons.prems(2)] by blast
    then show ?thesis using Cons.IH [OF _ 1(2)] Cons.prems Closer closer_progress [OF Cons.prems(2) 1(1)] by fastforce
  next
    case (Network f)
    then have "both trace tr c s d r k (w\<lparr>cnet := f (cnet w)\<rparr>)" using Cons.prems by (simp add: both_def client_net quiet_def)
    then show ?thesis using Network Cons.IH [of r k "w\<lparr>cnet := f (cnet w)\<rparr>"] Cons.prems by auto
  qed
qed simp

text \<open>
  C16: Where \<open>recv\<close> does not block, because the peer keeps sending or has closed, \<open>socket_disconnect\<close>
  returns: one turn to clear the flag, then three of the reading thread, then three more,
  however many other turns lie between these.
\<close>

theorem disconnect_returns:
  assumes "logs N on_recv trace" and "notified c s d w" and "list_all (quiet trace) (ts1 @ ts2 @ ts3)" and "\<forall>f o1. ready f o1"
    and "Closer \<in> set ts1" and "3 \<le> count_list ts2 Reader" and "3 \<le> count_list ts3 Closer"
  shows "\<exists>w'. run_turns N ready on_recv c (ts1 @ ts2 @ ts3) Test_Flag Set_Flag w = Inr (Ended, Back 0, w') \<and>
    client c (s\<lparr>is_connect := False\<rparr>) (d\<lparr>socket_id := INVALID_SOCKET\<rparr>) w'"
proof -
  have f: "debug s = 0" "recv_cb d \<noteq> None" "async s \<noteq> 0" "t_id d \<noteq> None" "socket_id d \<noteq> INVALID_SOCKET"
    using assms(2) by (simp_all add: notified_def)
  have q: "list_all (quiet trace) ts1" "list_all (quiet trace) ts2" "list_all (quiet trace) ts3" using assms(3) by simp_all
  note go = run_both [OF assms(1) f] and prog = run_progress [OF assms(1,2)]
  have b0: "both trace (trace (cnet w)) c s d Test_Flag Set_Flag w" by (rule notified_both [OF assms(2)]) simp
  obtain r1 k1 w1 where 1: "run_turns N ready on_recv c ts1 Test_Flag Set_Flag w = Inr (r1, k1, w1)"
    "both trace (trace (cnet w)) c s d r1 k1 w1" using go [OF q(1) b0] by blast
  obtain r2 k2 w2 where 2: "run_turns N ready on_recv c ts2 r1 k1 w1 = Inr (r2, k2, w2)"
    "both trace (trace (cnet w)) c s d r2 k2 w2" using go [OF q(2) 1(2)] by blast
  obtain r3 k3 w3 where 3: "run_turns N ready on_recv c ts3 r2 k2 w2 = Inr (r3, k3, w3)"
    "both trace (trace (cnet w)) c s d r3 k3 w3" using go [OF q(3) 2(2)] by blast
  have k1: "k1 \<noteq> Set_Flag" using prog [OF q(1) b0 assms(4) 1(1)] assms(5) by blast
  have "reader_left r1 \<le> 3" by (cases r1) simp_all
  then have r2: "r2 = Ended" "k2 \<noteq> Set_Flag" using prog [OF q(2) 1(2) assms(4) 2(1)] k1 assms(6) by (simp_all flip: reader_left_0)
  then have "closer_left k2 \<le> 3" by (cases k2) simp_all
  then have "closer_left k3 = 0" "r3 = Ended" using prog [OF q(3) 2(2) assms(4) 3(1)] r2 assms(7) by (simp_all flip: reader_left_0)
  then have "k3 = Back 0" using 3(2) by (cases k3) (auto simp: both_def)
  with \<open>r3 = Ended\<close> 3(2) 1(1) 2(1) 3(1) show ?thesis by (simp add: run_turns_append both_def)
qed

section \<open>The properties at concrete inputs\<close>

text \<open>A world that keeps the bytes on their way and the log; \<open>recv\<close> gives at most two bytes at once.\<close>

type_synonym wire = "byte list \<times> event list"

definition wire_net :: "wire net" where
  "wire_net =
     \<lparr>net_socket = (\<lambda>o1. (3, o1)), net_sndtimeo = (\<lambda>f tv o1. o1), net_connect = (\<lambda>f a o1. (0, o1)), net_select = (\<lambda>f A tv o1. (1, o1)),
      net_recv = (\<lambda>f k (i, l).
        let b = take (min 2 (unat k)) i in (int (length b), b, (drop (min 2 (unat k)) i, l @ [Ev_Recv f b]))),
      net_send = (\<lambda>f bs o1. (int (length bs), o1)), net_close = (\<lambda>f (i, l). (i, l @ [Ev_Close f])), net_errno = (\<lambda>o1. 11),
      net_spawn = (\<lambda>o1. (Some 1, o1)), net_join = (\<lambda>th o1. Some o1), net_pton = (\<lambda>a. None), net_malloc = (\<lambda>A o1. (None, o1)), net_junk = (\<lambda>o1. 0)\<rparr>"

definition wire_call :: "nat \<Rightarrow> byte list \<Rightarrow> int \<Rightarrow> wire cworld \<Rightarrow> wire cworld cres" where
  "wire_call cb buf n w = Inr (w\<lparr>cnet := (fst (cnet w), snd (cnet w) @ [Ev_Call (take (nat n) buf)])\<rparr>)"

definition wire_client :: "byte list \<Rightarrow> wire cworld" where
  "wire_client i =
     \<lparr>clis = [2 \<mapsto> demo_cli True 1], datas = [3 \<mapsto> (demo_data 5)\<lparr>recv_cb := Some 0, t_id := Some 1\<rparr>], cnet = (i, [])\<rparr>"

definition arrives :: "byte list \<Rightarrow> wire turn" where
  "arrives bs = Network (\<lambda>(i, l). (i @ bs, l))"

lemma wire_logs: "logs wire_net wire_call snd"
  unfolding logs_def
proof (intro conjI allI impI)
  fix f k o1 n bs o2 assume r: "net_recv wire_net f k o1 = (n, bs, o2)"
  obtain i l where o1: "o1 = (i, l)" by fastforce
  have e: "bs = take (min 2 (unat k)) i" "n = int (length bs)" "o2 = (drop (min 2 (unat k)) i, l @ [Ev_Recv f bs])"
    using r by (auto simp: o1 wire_net_def Let_def)
  then have "length bs \<le> unat k" by simp
  then have "int (length bs) \<le> int (unat k)" by (simp only: of_nat_le_iff)
  then show "- 1 \<le> n" "n \<le> int (unat k)" "int (length bs) = n" using e(2) by (simp_all only:)
  show "snd o2 = snd o1 @ [Ev_Recv f (if 0 < n then bs else [])]" using e o1 by auto
qed (auto simp: wire_net_def wire_call_def)

lemma wire_notified: "notified 2 (demo_cli True 1) ((demo_data 5)\<lparr>recv_cb := Some 0, t_id := Some 1\<rparr>) (wire_client i)"
  by (simp add: notified_def client_def wire_client_def demo_cli_def demo_data_def NULL_cli_def INVALID_SOCKET_def)

lemma quiet_simps: "quiet trace Reader" "quiet trace Closer" "quiet snd (arrives bs)"
  by (auto simp: quiet_def arrives_def)

theorem closer_alone_witness:
  "run_turns wire_net (\<lambda>f o1. True) wire_call 2 (replicate 4 Closer) Ended Set_Flag (wire_client []) =
    bnd (socket_disconnect wire_net 0 2 (wire_client [])) (\<lambda>(n, w). Inr (Ended, Back n, w))"
  by (rule closer_alone) (simp_all add: NULL_cli_def wire_net_def)

text \<open>A callback that has seen enough and clears the flag.\<close>

definition stop_call :: "nat \<Rightarrow> byte list \<Rightarrow> int \<Rightarrow> wire cworld \<Rightarrow> wire cworld cres" where
  "stop_call cb buf n w = Inr (w\<lparr>clis := [2 \<mapsto> demo_cli False 1]\<rparr>)"


theorem disconnect_waits_witness:
  "\<exists>r k w' es. run_turns wire_net (\<lambda>f o1. fst o1 \<noteq> []) wire_call 2
      [arrives [1, 2, 3], Reader, Closer, Reader, Closer, Reader, Reader, Closer, Closer, Closer] Test_Flag Set_Flag (wire_client []) =
        Inr (r, k, w') \<and> open_on 5 es \<and> received es = called es @ pending r \<and>
      snd (cnet w') = es @ (if k \<in> {Clear_Id, Back 0} then [Ev_Close 5] else [])"
proof -
  let ?d = "(demo_data 5)\<lparr>recv_cb := Some 0, t_id := Some 1\<rparr>"
  have "list_all (quiet snd) [arrives [1, 2, 3], Reader, Closer, Reader, Closer, Reader, Reader, Closer, Closer, Closer]"
    by (simp add: quiet_simps)
  from disconnect_waits [OF wire_logs wire_notified [of "[]"] this, of "\<lambda>f o1. fst o1 \<noteq> []" 0]
  obtain r k w' es where "run_turns wire_net (\<lambda>f o1. fst o1 \<noteq> []) wire_call 2
      [arrives [1, 2, 3], Reader, Closer, Reader, Closer, Reader, Reader, Closer, Closer, Closer] Test_Flag Set_Flag (wire_client []) =
        Inr (r, k, w')" "open_on (socket_id ?d) es" "received es = called es @ pending r"
    "snd (cnet w') = snd (cnet (wire_client [])) @ es @ (if k \<in> {Clear_Id, Back 0} then [Ev_Close (socket_id ?d)] else [])"
    by (elim exE conjE) (rule that)
  moreover have "socket_id ?d = 5" "snd (cnet (wire_client [])) = []" by (simp_all add: demo_data_def wire_client_def)
  ultimately show ?thesis by (intro exI [of _ r] exI [of _ k] exI [of _ w'] exI [of _ es]) simp
qed

theorem disconnect_hangs_witness:
  "\<exists>k w'. run_turns wire_net (\<lambda>f o1. fst o1 \<noteq> []) wire_call 2 (Closer # replicate 1000 Reader @ [Closer]) In_Recv Set_Flag (wire_client []) =
      Inr (In_Recv, k, w') \<and> k \<in> {Set_Flag, In_Join}"
  using disconnect_hangs [OF wire_notified [of "[]"], of "\<lambda>f o1. fst o1 \<noteq> []" "Closer # replicate 1000 Reader @ [Closer]" wire_net wire_call]
  by (auto simp: wire_client_def)

theorem disconnect_returns_witness:
  "\<exists>w'. run_turns wire_net (\<lambda>f o1. True) wire_call 2
      ([Reader, Closer, arrives [1]] @ [Reader, Closer, Reader, Reader] @ [Closer, Closer, Closer]) Test_Flag Set_Flag (wire_client [7]) =
        Inr (Ended, Back 0, w') \<and>
      map_option socket_id (datas w' 3) = Some (-1)"
proof -
  obtain w' where "run_turns wire_net (\<lambda>f o1. True) wire_call 2
      ([Reader, Closer, arrives [1]] @ [Reader, Closer, Reader, Reader] @ [Closer, Closer, Closer]) Test_Flag Set_Flag (wire_client [7]) =
        Inr (Ended, Back 0, w')"
    "client 2 ((demo_cli True 1)\<lparr>is_connect := False\<rparr>) ((demo_data 5)\<lparr>recv_cb := Some 0, t_id := Some 1, socket_id := INVALID_SOCKET\<rparr>) w'"
    using disconnect_returns [OF wire_logs wire_notified [of "[7]"], of "[Reader, Closer, arrives [1]]" "[Reader, Closer, Reader, Reader]"
        "[Closer, Closer, Closer]" "\<lambda>f o1. True"] by (auto simp: quiet_simps)
  then show ?thesis by (auto simp: client_def demo_cli_def INVALID_SOCKET_def)
qed

end
