(* ===== verification/Socket_Win.thy ===== *)
theory Socket_Win
  imports Socket_Life
begin

text \<open>
  The TCP client of \<open>src/socket/socket_cli.c\<close> in the build with \<open>_WIN32\<close>. Three things differ: a new
  client starts the socket library first, its address is read by \<open>inet_addr\<close>, and a socket is
  closed by \<open>closesocket\<close> (the \<open>net_close\<close> of \<open>winsock\<close>, as \<open>WSAGetLastError\<close> is its \<open>net_errno\<close>). All else
  is the code of \<open>Socket_Cli\<close> on other calls, so its properties hold here too.
\<close>

section \<open>The calls and the first client\<close>

text \<open>
  The calls of \<open>net\<close> and two more: \<open>WSAStartup\<close> for a version, which gives 0 or an error, and
  \<open>inet_addr\<close>, which always gives a number (\<open>INADDR_NONE\<close> for a text that is no address).
\<close>

record 'o winsock = "'o net" +
  ws_startup :: "16 word \<Rightarrow> 'o \<Rightarrow> int \<times> 'o"
  ws_inet_addr :: "string \<Rightarrow> 32 word"

definition MAKEWORD :: "8 word \<Rightarrow> 8 word \<Rightarrow> 16 word" where
  "MAKEWORD lo hi = ucast lo OR push_bit 8 (ucast hi)"

definition INADDR_NONE :: "32 word" where "INADDR_NONE = 0xFFFFFFFF"

definition winsock_init :: "'o winsock \<Rightarrow> 'o \<Rightarrow> int \<times> 'o" where
  "winsock_init W o1 = (let (r, o2) = ws_startup W (MAKEWORD 2 2) o1 in (if r \<noteq> 0 then -1 else 0, o2))"

definition winsock_net :: "'o winsock \<Rightarrow> 'o net" where
  "winsock_net W = (net.truncate W)\<lparr>net_pton := \<lambda>a. Some (ws_inet_addr W a)\<rparr>"

definition win32_socket_cli_new ::
  "'o winsock \<Rightarrow> int \<Rightarrow> string \<Rightarrow> int \<Rightarrow> int \<Rightarrow> 'o cworld \<Rightarrow> (addr \<times> 'o cworld) cres" where
  "win32_socket_cli_new W port addr asyn timeout w =
     (let (r, o1) = winsock_init W (cnet w); w = w\<lparr>cnet := o1\<rparr> in
      if r = -1 then Inr (NULL_cli, w)
      else socket_cli_new (winsock_net W) port addr asyn timeout w)"

lemma winsock_net_sel [simp]:
  "net_malloc (winsock_net W) = net_malloc W" "net_pton (winsock_net W) a = Some (ws_inet_addr W a)"
  "net_connect (winsock_net W) = net_connect W" "net_close (winsock_net W) = net_close W"
  by (simp_all add: winsock_net_def net.defs)

section \<open>Creating a client\<close>

text \<open>
  Where the library does not start, the result is NULL and nothing was allocated; where it starts
  and there is memory, the client is new and not connected, and its address is what \<open>inet_addr\<close> gives.
\<close>

theorem win_new_client:
  "(\<forall>r o1. ws_startup W 0x0202 (cnet w) = (r, o1) \<and> r \<noteq> 0 \<longrightarrow>
      win32_socket_cli_new W port addr asyn timeout w = Inr (NULL_cli, w\<lparr>cnet := o1\<rparr>)) \<and>
   (\<forall>o1 c o2 p o3. ws_startup W 0x0202 (cnet w) = (0, o1) \<and>
      net_malloc W (dom (clis w) \<union> dom (datas w)) o1 = (Some c, o2) \<and>
      net_malloc W (insert c (dom (clis w) \<union> dom (datas w))) o2 = (Some p, o3) \<and> c \<noteq> NULL_cli \<longrightarrow>
      (\<exists>s d w'. win32_socket_cli_new W port addr asyn timeout w = Inr (c, w') \<and> client c s d w' \<and>
         \<not> is_connect s \<and> async s = asyn \<and> con_timeout s = timeout \<and> socket_id d = INVALID_SOCKET \<and>
         sin_addr (remote_addr d) = ws_inet_addr W addr))"
proof -
  have v: "MAKEWORD 2 2 = 0x0202" by (simp add: MAKEWORD_def)
  show ?thesis
    by (auto simp: win32_socket_cli_new_def winsock_init_def v socket_cli_new_def client_def put_cli_def put_data_def Let_def)
qed

section \<open>The life of clients\<close>

text \<open>An application of the Windows build makes its clients with \<open>win32_socket_cli_new\<close>.\<close>

inductive win_cli_step :: "'o winsock \<Rightarrow> 'o cworld \<Rightarrow> 'o cworld \<Rightarrow> bool" for W where
  Win_New: "win32_socket_cli_new W port addr asyn timeout w = Inr (c, w') \<Longrightarrow> win_cli_step W w w'"
| Win_Use: "cli_step (winsock_net W) w w' \<Longrightarrow> win_cli_step W w w'"

text \<open>Creating is at most two steps of the other build on these calls: the world changes, then a client is new.\<close>

lemma win_new_steps:
  assumes "win32_socket_cli_new W port addr asyn timeout w = Inr (c, w')"
  shows "(cli_step (winsock_net W))\<^sup>*\<^sup>* w w'"
proof -
  obtain r o1 where i: "winsock_init W (cnet w) = (r, o1)" by fastforce
  have "cli_step (winsock_net W) w (w\<lparr>cnet := o1\<rparr>)" by (rule cli_step.World)
  moreover have "w' = w\<lparr>cnet := o1\<rparr> \<or> cli_step (winsock_net W) (w\<lparr>cnet := o1\<rparr>) w'"
    using assms i cli_step.New [of "winsock_net W" port addr asyn timeout "w\<lparr>cnet := o1\<rparr>" c w']
    by (auto simp: win32_socket_cli_new_def Let_def split: if_splits)
  ultimately show ?thesis by auto
qed

lemma win_steps_simulated: "(win_cli_step W)\<^sup>*\<^sup>* w w' \<Longrightarrow> (cli_step (winsock_net W))\<^sup>*\<^sup>* w w'"
proof (induction rule: rtranclp_induct)
  case (step v w')
  from step.hyps(2) have "(cli_step (winsock_net W))\<^sup>*\<^sup>* v w'" by cases (auto intro: win_new_steps)
  with step.IH show ?case by (rule rtranclp_trans)
qed simp

text \<open>
  Every state that the Windows build reaches is one that the other build reaches on the same
  calls, so each client has data of its own, a connected one has a descriptor, and nothing is left over when the
  last is destroyed.
\<close>

theorem win_cli_reachable:
  assumes "fresh_ok (winsock_net W)" and "(win_cli_step W)\<^sup>*\<^sup>* \<lparr>clis = Map.empty, datas = Map.empty, cnet = o0\<rparr> w"
  shows "(cli_step (winsock_net W))\<^sup>*\<^sup>* \<lparr>clis = Map.empty, datas = Map.empty, cnet = o0\<rparr> w \<and>
    clients_typed w \<and> (clis w = Map.empty \<longrightarrow> datas w = Map.empty)"
proof -
  have r: "(cli_step (winsock_net W))\<^sup>*\<^sup>* \<lparr>clis = Map.empty, datas = Map.empty, cnet = o0\<rparr> w"
    using assms(2) by (rule win_steps_simulated)
  moreover have "clients_typed w"
    using r typed_reached [OF assms(1)] by blast
  ultimately show ?thesis using paired_leak unfolding clients_typed_def by blast
qed

text \<open>The peer of the demonstration, with the calls of Windows.\<close>

definition roomy_winsock :: "peer winsock" where
  "roomy_winsock = net.extend roomy_net \<lparr>ws_startup = (\<lambda>v p. (0, p)),
     ws_inet_addr = (\<lambda>a. if a = ''127.0.0.1'' then 0x0100007F else INADDR_NONE)\<rparr>"

lemma roomy_winsock_fresh: "fresh_ok (winsock_net roomy_winsock)"
proof -
  have "net_malloc roomy_winsock = net_malloc roomy_net"
    by (cases roomy_net) (simp add: roomy_winsock_def net.extend_def)
  with roomy_fresh show ?thesis by (simp add: fresh_ok_def)
qed

theorem win_cli_reachable_witness:
  "\<exists>w. win32_socket_cli_new roomy_winsock 80 ''127.0.0.1'' 0 100
        \<lparr>clis = Map.empty, datas = Map.empty, cnet = ([], [], [], 0)\<rparr> = Inr (2, w) \<and> clients_typed w"
proof -
  obtain w where w: "win32_socket_cli_new roomy_winsock 80 ''127.0.0.1'' 0 100
      \<lparr>clis = Map.empty, datas = Map.empty, cnet = ([], [], [], 0)\<rparr> = Inr (2, w)"
    by (simp add: win32_socket_cli_new_def winsock_init_def socket_cli_new_def roomy_winsock_def net.defs
        roomy_net_def demo_net_def Let_def)
  then have "(win_cli_step roomy_winsock)\<^sup>*\<^sup>* \<lparr>clis = Map.empty, datas = Map.empty, cnet = ([], [], [], 0)\<rparr> w"
    by (blast intro: Win_New)
  from win_cli_reachable [OF roomy_winsock_fresh this] w show ?thesis by blast
qed

end
