(* ===== verification/Serial_Win.thy ===== *)
theory Serial_Win
  imports Serial_State
begin

text \<open>
  The backend of \<open>src/serial/serial_win.c\<close>, for the build with \<open>_WIN32\<close>: opening a device and
  configuring it through a \<open>DCB\<close>, reading and writing with the timeouts of the system,
  purging, closing. The calls of the system are the parameter \<open>win_sys\<close>.
\<close>

section \<open>Settings\<close>

text \<open>
  A \<open>DCB\<close>: the fields that the code sets, and \<open>dcb_rest\<close> for those it leaves as it read them.
\<close>

type_synonym dword = "32 word"

record dcb =
  BaudRate :: dword
  ByteSize :: "8 word"
  StopBits :: "8 word"
  Parity :: "8 word"
  fParity :: bool
  fTXContinueOnXoff :: bool
  fOutX :: bool
  fInX :: bool
  fBinary :: bool
  fAbortOnError :: bool
  dcb_rest :: "byte list"

record commtimeouts =
  ReadIntervalTimeout :: dword
  ReadTotalTimeoutMultiplier :: dword
  ReadTotalTimeoutConstant :: dword
  WriteTotalTimeoutMultiplier :: dword
  WriteTotalTimeoutConstant :: dword

definition ONESTOPBIT :: "8 word" where "ONESTOPBIT = 0"
definition TWOSTOPBITS :: "8 word" where "TWOSTOPBITS = 2"
definition NOPARITY :: "8 word" where "NOPARITY = 0"
definition ODDPARITY :: "8 word" where "ODDPARITY = 1"
definition EVENPARITY :: "8 word" where "EVENPARITY = 2"
definition PURGE_TXCLEAR :: dword where "PURGE_TXCLEAR = 4"
definition PURGE_RXCLEAR :: dword where "PURGE_RXCLEAR = 8"

lemmas dcb_values = ONESTOPBIT_def TWOSTOPBITS_def NOPARITY_def ODDPARITY_def EVENPARITY_def

text \<open>\<open>CBR_110\<close> to \<open>CBR_115200\<close> are the rates themselves.\<close>

definition cbr_of :: "int \<Rightarrow> dword" where
  "cbr_of b =
     (if b = 110 then 110 else if b = 300 then 300 else if b = 600 then 600
      else if b = 1200 then 1200 else if b = 2400 then 2400 else if b = 4800 then 4800
      else if b = 9600 then 9600 else if b = 19200 then 19200 else if b = 38400 then 38400
      else if b = 57600 then 57600 else if b = 115200 then 115200 else 9600)"

section \<open>The platform\<close>

text \<open>A handle is a pointer that the system gives; \<open>INVALID_HANDLE_VALUE\<close> is \<open>(HANDLE) -1\<close>.\<close>

type_synonym handle = int

definition INVALID_HANDLE_VALUE :: handle where "INVALID_HANDLE_VALUE = -1"

text \<open>\<open>hfd\<close> (\<open>fd\<close> in C) and \<open>old_dcb\<close> are \<open>None\<close> before they are written.\<close>

record win_rtu = serial_rtu +
  hfd :: "handle option"
  old_dcb :: "dcb option"

text \<open>
  \<open>GetCommState\<close> gives the settings it stored, or \<open>None\<close> where it failed; \<open>ReadFile\<close> whether it
  worked and the bytes stored, as many as the count that it returns, \<open>WriteFile\<close> whether it
  worked and the count. \<open>GetLastError\<close> reads the error of the last call. The rest is the allocator.
\<close>

record 'o win_sys =
  CreateFileA :: "string \<Rightarrow> 'o \<Rightarrow> handle \<times> 'o"
  GetCommState :: "handle \<Rightarrow> 'o \<Rightarrow> dcb option \<times> 'o"
  SetCommState :: "handle \<Rightarrow> dcb \<Rightarrow> 'o \<Rightarrow> bool \<times> 'o"
  SetCommTimeouts :: "handle \<Rightarrow> commtimeouts \<Rightarrow> 'o \<Rightarrow> bool \<times> 'o"
  ReadFile :: "handle \<Rightarrow> dword \<Rightarrow> 'o \<Rightarrow> bool \<times> byte list \<times> 'o"
  WriteFile :: "handle \<Rightarrow> byte list \<Rightarrow> 'o \<Rightarrow> bool \<times> dword \<times> 'o"
  PurgeComm :: "handle \<Rightarrow> dword \<Rightarrow> 'o \<Rightarrow> bool \<times> 'o"
  CloseHandle :: "handle \<Rightarrow> 'o \<Rightarrow> bool \<times> 'o"
  GetLastError :: "'o \<Rightarrow> dword"
  win_malloc :: "addr set \<Rightarrow> 'o \<Rightarrow> addr option \<times> 'o"
  win_junk_serial :: "'o \<Rightarrow> serial"
  win_junk_rtu :: "'o \<Rightarrow> serial_rtu"

type_synonym 'o wworld = "(\<lparr>hfd :: handle option, old_dcb :: dcb option\<rparr>, 'o) sworld"

text \<open>\<open>ctx->err_code = GetLastError()\<close>, the common end of a call that failed.\<close>

definition fail_with :: "'o win_sys \<Rightarrow> addr \<Rightarrow> 'o wworld \<Rightarrow> (int \<times> 'o wworld) cres" where
  "fail_with S c w = bnd (set_err c (sint (GetLastError S (tty w))) w) (\<lambda>w. Inr (-1, w))"

section \<open>Closing\<close>

definition win32_serial_close :: "'o win_sys \<Rightarrow> addr \<Rightarrow> 'o wworld \<Rightarrow> (int \<times> 'o wworld) cres" where
  "win32_serial_close S c w =
     bnd (the_rtu c w) (\<lambda>(p, r).
     bnd (deref (sers w) c) (\<lambda>x.
     bnd (if is_open x then Inr True else bnd (initialised (hfd r)) (\<lambda>h. Inr (h \<noteq> INVALID_HANDLE_VALUE))) (\<lambda>yes.
     if \<not> yes then Inr (0, w)
     else
       bnd (initialised (hfd r)) (\<lambda>h.
       bnd (initialised (old_dcb r)) (\<lambda>old.
       let (b, o1) = SetCommState S h old (tty w);
           w = w\<lparr>tty := o1\<rparr> in
       if \<not> b then fail_with S c w
       else
         let (b, o2) = CloseHandle S h (tty w);
             w = w\<lparr>tty := o2\<rparr> in
         if \<not> b then fail_with S c w
         else
           Inr (0, put_ser c (x\<lparr>is_open := False\<rparr>) (put_rtu p (r\<lparr>hfd := Some INVALID_HANDLE_VALUE\<rparr>) w)))))))"

definition win32_serial_destory :: "'o win_sys \<Rightarrow> addr \<Rightarrow> 'o wworld \<Rightarrow> 'o wworld cres" where
  "win32_serial_destory S c w = bnd (win32_serial_close S c w) (\<lambda>(_, w). free_serial c w)"

section \<open>Opening\<close>

definition dcb_size :: "8 word \<Rightarrow> 8 word" where
  "dcb_size d = (if d = 5 then 5 else if d = 6 then 6 else if d = 7 then 7 else 8)"

definition dcb_stop :: "8 word \<Rightarrow> 8 word" where
  "dcb_stop st = (if st = 1 then ONESTOPBIT else TWOSTOPBITS)"

definition dcb_parity :: "char \<Rightarrow> dcb \<Rightarrow> dcb" where
  "dcb_parity p d =
     (if p = CHR ''N'' then d\<lparr>Parity := NOPARITY, fParity := False\<rparr>
      else if p = CHR ''E'' then d\<lparr>Parity := EVENPARITY, fParity := True\<rparr>
      else d\<lparr>Parity := ODDPARITY, fParity := True\<rparr>)"

definition dcb_configure :: "win_rtu \<Rightarrow> dcb \<Rightarrow> dcb" where
  "dcb_configure r d =
     (let d = d\<lparr>BaudRate := cbr_of (baud r)\<rparr>;
          d = d\<lparr>ByteSize := dcb_size (data_bit r)\<rparr>;
          d = d\<lparr>StopBits := dcb_stop (stop_bit r)\<rparr>;
          d = dcb_parity (parity r) d
      in d\<lparr>fTXContinueOnXoff := True, fOutX := False, fInX := False, fBinary := True, fAbortOnError := False\<rparr>)"

text \<open>
  The length written to \<open>old_dcb\<close> before \<open>GetCommState\<close> is part of what that call is given. Where
  it fails, the error is read after \<open>CloseHandle\<close>.
\<close>

text \<open>The end of \<open>win32_serial_open\<close>: where the settings are refused, the port is closed again.\<close>

definition win32_apply :: "'o win_sys \<Rightarrow> addr \<Rightarrow> handle \<Rightarrow> dcb \<Rightarrow> 'o wworld \<Rightarrow> (int \<times> 'o wworld) cres" where
  "win32_apply S c h dcb w =
     (let (b, o3) = SetCommState S h dcb (tty w);
          w = w\<lparr>tty := o3\<rparr> in
      if \<not> b then
        bnd (fail_with S c w) (\<lambda>(_, w).
        bnd (win32_serial_close S c w) (\<lambda>(_, w). Inr (-1, w)))
      else bnd (deref (sers w) c) (\<lambda>x. Inr (0, put_ser c (x\<lparr>is_open := True\<rparr>) w)))"

definition win32_serial_open :: "'o win_sys \<Rightarrow> addr \<Rightarrow> 'o wworld \<Rightarrow> (int \<times> 'o wworld) cres" where
  "win32_serial_open S c w =
     bnd (deref (sers w) c) (\<lambda>x.
     if is_open x then Inr (0, w)
     else
       bnd (the_rtu c w) (\<lambda>(p, r).
       let (h, o1) = CreateFileA S (device r) (tty w);
           r = r\<lparr>hfd := Some h\<rparr>;
           w = put_rtu p r (w\<lparr>tty := o1\<rparr>) in
       if h = INVALID_HANDLE_VALUE then fail_with S c w
       else
         case GetCommState S h (tty w) of
           (None, o2) \<Rightarrow>
             let (_, o3) = CloseHandle S h o2 in
             fail_with S c (put_rtu p (r\<lparr>hfd := Some INVALID_HANDLE_VALUE\<rparr>) (w\<lparr>tty := o3\<rparr>))
         | (Some old, o2) \<Rightarrow>
             let r = r\<lparr>old_dcb := Some old\<rparr>;
                 w = put_rtu p r (w\<lparr>tty := o2\<rparr>)
             in win32_apply S c h (dcb_configure r old) w))"

section \<open>Reading, writing, purging\<close>

definition win32_serial_set_timeout :: "'o win_sys \<Rightarrow> addr \<Rightarrow> int \<Rightarrow> 'o wworld \<Rightarrow> (int \<times> 'o wworld) cres" where
  "win32_serial_set_timeout S c mtimeout w =
     bnd (the_rtu c w) (\<lambda>(p, r).
     bnd (initialised (hfd r)) (\<lambda>h.
     let ctimeout = \<lparr>ReadIntervalTimeout = word_of_int mtimeout, ReadTotalTimeoutMultiplier = 1,
           ReadTotalTimeoutConstant = word_of_int mtimeout, WriteTotalTimeoutMultiplier = 1,
           WriteTotalTimeoutConstant = word_of_int mtimeout\<rparr>;
         (b, o1) = SetCommTimeouts S h ctimeout (tty w);
         w = w\<lparr>tty := o1\<rparr> in
     if \<not> b then fail_with S c w else Inr (0, w)))"

definition win32_serial_read ::
  "'o win_sys \<Rightarrow> addr \<Rightarrow> byte list \<Rightarrow> int \<Rightarrow> int \<Rightarrow> 'o wworld \<Rightarrow> (int \<times> byte list \<times> 'o wworld) cres" where
  "win32_serial_read S c buf len mtimeout w =
     bnd (deref (sers w) c) (\<lambda>x.
     if \<not> is_open x then Inr (-1, buf, w)
     else
       bnd (if mtimeout \<ge> 0 then win32_serial_set_timeout S c mtimeout w else Inr (0, w)) (\<lambda>(_, w).
       bnd (the_rtu c w) (\<lambda>(p, r).
       bnd (initialised (hfd r)) (\<lambda>h.
       let (b, bs, o1) = ReadFile S h (word_of_int len) (tty w);
           w = w\<lparr>tty := o1\<rparr> in
       bnd (wr buf 0 bs) (\<lambda>buf.
       if \<not> b then bnd (fail_with S c w) (\<lambda>(n, w). Inr (n, buf, w))
       else Inr (to_int (int (length bs)), buf, w))))))"

text \<open>The timeout of a write is not used. The debug output reads what is written anyway.\<close>

definition win32_serial_write ::
  "'o win_sys \<Rightarrow> addr \<Rightarrow> byte list \<Rightarrow> int \<Rightarrow> int \<Rightarrow> 'o wworld \<Rightarrow> (int \<times> 'o wworld) cres" where
  "win32_serial_write S c buf len mtimeout w =
     bnd (deref (sers w) c) (\<lambda>x.
     if \<not> is_open x then Inr (-1, w)
     else
       bnd (the_rtu c w) (\<lambda>(p, r).
       bnd (initialised (hfd r)) (\<lambda>h.
       bnd (rd buf 0 (unat (word_of_int len :: dword))) (\<lambda>bs.
       let (b, retlen, o1) = WriteFile S h bs (tty w);
           w = w\<lparr>tty := o1\<rparr> in
       if b then Inr (sint retlen, w) else fail_with S c w))))"

definition win32_serial_clean_buffer :: "'o win_sys \<Rightarrow> addr \<Rightarrow> 'o wworld \<Rightarrow> (int \<times> 'o wworld) cres" where
  "win32_serial_clean_buffer S c w =
     bnd (the_rtu c w) (\<lambda>(p, r).
     bnd (initialised (hfd r)) (\<lambda>h.
     let (b, o1) = PurgeComm S h (PURGE_TXCLEAR OR PURGE_RXCLEAR) (tty w);
         w = w\<lparr>tty := o1\<rparr> in
     if \<not> b then fail_with S c w else Inr (0, w)))"

definition win_serial_backend :: "'o win_sys \<Rightarrow> (\<lparr>hfd :: handle option, old_dcb :: dcb option\<rparr>, 'o) serial_backend" where
  "win_serial_backend S =
     \<lparr>bopen = win32_serial_open S, bread = win32_serial_read S, bwrite = win32_serial_write S,
      bclean = win32_serial_clean_buffer S, bclose = win32_serial_close S, bdestory = win32_serial_destory S\<rparr>"

end
