(* ===== verification/Serial_Windows.thy ===== *)
theory Serial_Windows
  imports Serial_New Serial_Win
begin

text \<open>
  The Windows platform: the functions of \<open>serial_win.c\<close> keep the same contract \<open>serial_platform\<close> as
  those of Linux, given what is documented of the system calls (\<open>win_ok\<close>).
\<close>

section \<open>The platform\<close>

definition win_platform :: "'o win_sys \<Rightarrow> (\<lparr>hfd :: handle option, old_dcb :: dcb option\<rparr>, 'o) platform" where
  "win_platform S =
     \<lparr>backend = win_serial_backend S, dev_prefix = ''COM'', pmalloc = win_malloc S,
      junk_ser = win_junk_serial S,
      raw_rtu = (\<lambda>o1. serial_rtu.extend (win_junk_rtu S o1) \<lparr>hfd = None, old_dcb = None\<rparr>),
      reset_rtu = (\<lambda>r. r\<lparr>hfd := Some INVALID_HANDLE_VALUE\<rparr>)\<rparr>"

text \<open>
  Documented behaviour: \<open>ReadFile\<close> stores no more than it was asked for; a new block lies outside
  those in use.
\<close>

definition win_ok :: "'o win_sys \<Rightarrow> bool" where
  "win_ok S \<longleftrightarrow>
     (\<forall>h n o1. length (fst (snd (ReadFile S h n o1))) \<le> unat n) \<and>
     (\<forall>A o1 a o2. win_malloc S A o1 = (Some a, o2) \<longrightarrow> a \<notin> A \<and> a \<noteq> NULL)"

lemma win_okD:
  assumes "win_ok S"
  shows "ReadFile S h n o1 = (b, bs, o2) \<Longrightarrow> length bs \<le> unat n"
    and "win_malloc S A o1 = (Some a, o2) \<Longrightarrow> a \<notin> A \<and> a \<noteq> NULL"
  using assms unfolding win_ok_def by (metis fst_conv snd_conv, metis)

text \<open>
  The parameters of a port. One that is not open may still have a handle: where configuring
  it failed and closing it after that, too.
\<close>

definition handle_ok :: "bool \<Rightarrow> win_rtu \<Rightarrow> bool" where
  "handle_ok opn r \<longleftrightarrow>
     (\<exists>h. hfd r = Some h \<and> (h \<noteq> INVALID_HANDLE_VALUE \<longrightarrow> old_dcb r \<noteq> None) \<and> (opn \<longrightarrow> h \<noteq> INVALID_HANDLE_VALUE))"

lemma truncate_win [simp]:
  "serial_rtu.truncate (r\<lparr>hfd := a\<rparr>) = serial_rtu.truncate r"
  "serial_rtu.truncate (r\<lparr>old_dcb := b\<rparr>) = serial_rtu.truncate r"
  by (simp_all add: serial_rtu.defs)

lemma fail_with_eq:
  "sers w c = Some x \<Longrightarrow> fail_with S c w = Inr (-1, put_ser c (x\<lparr>err_code := sint (GetLastError S (tty w))\<rparr>) w)"
  by (simp add: fail_with_def set_err_eq)

section \<open>The laws\<close>

text \<open>Closing fails where the settings cannot be restored or the handle not closed; nothing changes then.\<close>

lemma win_close_law:
  assumes x: "sers w c = Some x" and r: "rtus w (backend_data x) = Some r" and ok: "handle_ok (is_open x) r"
  shows "\<exists>n w'. win32_serial_close S c w = Inr (n, w') \<and> port_step handle_ok c w w' \<and>
    (n = 0 \<and> \<not> opened c w' \<or> n = -1 \<and> (opened c w' \<longleftrightarrow> opened c w))"
proof -
  obtain h where h: "hfd r = Some h" "h \<noteq> INVALID_HANDLE_VALUE \<longrightarrow> old_dcb r \<noteq> None"
    "is_open x \<longrightarrow> h \<noteq> INVALID_HANDLE_VALUE" using ok by (auto simp: handle_ok_def)
  note st = tty_step [where ok = handle_ok, OF x r ok]
  show ?thesis
  proof (cases "h = INVALID_HANDLE_VALUE")
    case True
    then show ?thesis using x r h port_step_refl [where ok = handle_ok, OF x r ok]
      by (simp add: win32_serial_close_def the_rtu_eq opened_def)
  next
    case False
    then obtain old where old: "old_dcb r = Some old" using h(2) by blast
    obtain b1 o1 where 1: "SetCommState S h old (tty w) = (b1, o1)" by fastforce
    obtain b2 o2 where 2: "CloseHandle S h o1 = (b2, o2)" by fastforce
    define x' r' where "x' = x\<lparr>is_open := False\<rparr>" and "r' = r\<lparr>hfd := Some INVALID_HANDLE_VALUE\<rparr>"
    define w' where "w' = put_ser c x' (put_rtu (backend_data x) r' (w\<lparr>tty := o2\<rparr>))"
    have run: "win32_serial_close S c w =
        (if \<not> b1 then Inr (-1, put_ser c (x\<lparr>err_code := sint (GetLastError S o1)\<rparr>) (w\<lparr>tty := o1\<rparr>))
         else if \<not> b2 then Inr (-1, put_ser c (x\<lparr>err_code := sint (GetLastError S o2)\<rparr>) (w\<lparr>tty := o2\<rparr>))
         else Inr (0, w'))"
      using x r h False old 1 2 by (simp add: win32_serial_close_def the_rtu_eq fail_with_eq w'_def x'_def r'_def)
    have "port_step handle_ok c w w'"
      by (rule port_stepI [where x = x and r = r and x' = x' and r' = r'])
        (use x r in \<open>simp_all add: w'_def x'_def r'_def sworld_simps handle_ok_def\<close>)
    moreover have "\<not> opened c w'" by (simp add: opened_def w'_def x'_def sworld_simps)
    ultimately show ?thesis using run st by simp
  qed
qed

lemma win_destory_law:
  assumes x: "sers w c = Some x" and r: "rtus w (backend_data x) = Some r" and ok: "handle_ok (is_open x) r"
  shows "\<exists>w'. win32_serial_destory S c w = Inr w' \<and> removed c x w w'"
proof -
  obtain n w1 where w1: "win32_serial_close S c w = Inr (n, w1)" "port_step handle_ok c w w1"
    using win_close_law [OF x r ok, of S] by blast
  then show ?thesis using step_then_free [OF x r w1(2)] by (simp add: win32_serial_destory_def)
qed

text \<open>Every way through \<open>win32_serial_open\<close> on a closed port.\<close>

lemma win_open_eq:
  assumes "sers w c = Some x" and "rtus w (backend_data x) = Some r" and "\<not> is_open x"
    and "CreateFileA S (device r) (tty w) = (h, o1)" and "GetCommState S h o1 = (g, o2)"
  shows "win32_serial_open S c w =
    (if h = INVALID_HANDLE_VALUE
     then Inr (-1, put_ser c (x\<lparr>err_code := sint (GetLastError S o1)\<rparr>)
       (put_rtu (backend_data x) (r\<lparr>hfd := Some h\<rparr>) (w\<lparr>tty := o1\<rparr>)))
     else case g of
       None \<Rightarrow> Inr (-1, put_ser c (x\<lparr>err_code := sint (GetLastError S (snd (CloseHandle S h o2)))\<rparr>)
         (put_rtu (backend_data x) (r\<lparr>hfd := Some INVALID_HANDLE_VALUE\<rparr>) (w\<lparr>tty := snd (CloseHandle S h o2)\<rparr>)))
     | Some old \<Rightarrow>
         let r2 = r\<lparr>hfd := Some h, old_dcb := Some old\<rparr>;
             (b, o3) = SetCommState S h (dcb_configure r2 old) o2;
             w2 = put_rtu (backend_data x) r2 (w\<lparr>tty := o3\<rparr>) in
         if b then Inr (0, put_ser c (x\<lparr>is_open := True\<rparr>) w2)
         else bnd (win32_serial_close S c (put_ser c (x\<lparr>err_code := sint (GetLastError S o3)\<rparr>) w2)) (\<lambda>(_, w). Inr (-1, w)))"
  using assms
  by (auto simp: win32_serial_open_def win32_apply_def the_rtu_eq fail_with_eq sworld_simps put_rtu_twice Let_def split: option.split prod.split)

text \<open>A port that was opened but could not be configured is closed again, as far as that works.\<close>

lemma win_undo_law:
  assumes x: "sers w c = Some x" and r: "rtus w (backend_data x) = Some r" and closed: "\<not> is_open x"
    and r2: "handle_ok False r2" "serial_rtu.truncate r2 = serial_rtu.truncate r"
  shows "\<exists>n w'. win32_serial_close S c (put_ser c (x\<lparr>err_code := e\<rparr>) (put_rtu (backend_data x) r2 (w\<lparr>tty := o1\<rparr>))) = Inr (n, w') \<and>
    port_step handle_ok c w w' \<and> \<not> opened c w'"
proof -
  define x1 w1 where "x1 = x\<lparr>err_code := e\<rparr>" and "w1 = put_ser c x1 (put_rtu (backend_data x) r2 (w\<lparr>tty := o1\<rparr>))"
  have w1: "port_step handle_ok c w w1" "\<not> opened c w1"
    using not_open_step [where ok = handle_ok, OF x r closed r2] by (simp_all add: w1_def x1_def)
  have "sers w1 c = Some x1" "rtus w1 (backend_data x1) = Some r2" "handle_ok (is_open x1) r2"
    using r2 closed by (simp_all add: w1_def x1_def sworld_simps)
  from win_close_law [OF this, of S] obtain n w2 where "win32_serial_close S c w1 = Inr (n, w2)" "port_step handle_ok c w1 w2"
    "\<not> opened c w2" using w1(2) by blast
  then show ?thesis using port_step_trans [OF w1(1)] by (auto simp: w1_def x1_def)
qed

lemma win_open_law:
  assumes x: "sers w c = Some x" and r: "rtus w (backend_data x) = Some r" and ok: "handle_ok (is_open x) r"
  shows "\<exists>n w'. win32_serial_open S c w = Inr (n, w') \<and> port_step handle_ok c w w' \<and>
    (n = 0 \<or> n = -1) \<and> (n = 0 \<longleftrightarrow> opened c w')"
proof (cases "is_open x")
  case True
  then show ?thesis using x port_step_refl [where ok = handle_ok, OF x r ok] by (simp add: win32_serial_open_def opened_def)
next
  case closed: False
  obtain h o1 where h: "CreateFileA S (device r) (tty w) = (h, o1)" by fastforce
  obtain g o2 where g: "GetCommState S h o1 = (g, o2)" by fastforce
  note run = win_open_eq [OF x r closed h g] and stay = not_open_step [where ok = handle_ok, OF x r closed]
  show ?thesis
  proof (cases "h = INVALID_HANDLE_VALUE \<or> g = None")
    case True
    have "handle_ok False (r\<lparr>hfd := Some INVALID_HANDLE_VALUE\<rparr>)" by (simp add: handle_ok_def)
    then show ?thesis using run stay True by (cases "h = INVALID_HANDLE_VALUE") simp_all
  next
    case False
    then obtain old where valid: "h \<noteq> INVALID_HANDLE_VALUE" "g = Some old" by blast
    define r2 where "r2 = r\<lparr>hfd := Some h, old_dcb := Some old\<rparr>"
    obtain b o3 where b: "SetCommState S h (dcb_configure r2 old) o2 = (b, o3)" by fastforce
    define w2 where "w2 = put_rtu (backend_data x) r2 (w\<lparr>tty := o3\<rparr>)"
    have r2: "handle_ok opn r2" "serial_rtu.truncate r2 = serial_rtu.truncate r" for opn
      using valid by (simp_all add: handle_ok_def r2_def)
    show ?thesis
    proof (cases b)
      case True
      let ?w = "put_ser c (x\<lparr>is_open := True\<rparr>) w2"
      have "port_step handle_ok c w ?w"
        by (rule port_stepI [where x = x and r = r and x' = "x\<lparr>is_open := True\<rparr>" and r' = r2])
          (use x r r2 in \<open>simp_all add: w2_def sworld_simps\<close>)
      moreover have "opened c ?w" by (simp add: opened_def sworld_simps)
      ultimately show ?thesis using run True valid b by (simp add: r2_def [symmetric] w2_def)
    next
      case False
      obtain n w4 where w4: "win32_serial_close S c (put_ser c (x\<lparr>err_code := sint (GetLastError S o3)\<rparr>) w2) = Inr (n, w4)"
        "port_step handle_ok c w w4" "\<not> opened c w4"
        using win_undo_law [OF x r closed r2(1,2), of S _ o3] unfolding w2_def by blast
      then show ?thesis using run False valid b by (simp add: r2_def [symmetric] w2_def)
    qed
  qed
qed

lemma win_timeout_law:
  assumes x: "sers w c = Some x" and r: "rtus w (backend_data x) = Some r" and ok: "handle_ok (is_open x) r"
  shows "\<exists>n e o1. win32_serial_set_timeout S c mtimeout w = Inr (n, put_ser c (x\<lparr>err_code := e\<rparr>) (w\<lparr>tty := o1\<rparr>))"
proof -
  obtain h where h: "hfd r = Some h" using ok by (auto simp: handle_ok_def)
  obtain b o1 where b: "SetCommTimeouts S h \<lparr>ReadIntervalTimeout = word_of_int mtimeout, ReadTotalTimeoutMultiplier = 1,
           ReadTotalTimeoutConstant = word_of_int mtimeout, WriteTotalTimeoutMultiplier = 1,
           WriteTotalTimeoutConstant = word_of_int mtimeout\<rparr> (tty w) = (b, o1)" by fastforce
  have "w\<lparr>tty := o1\<rparr> = put_ser c (x\<lparr>err_code := err_code x\<rparr>) (w\<lparr>tty := o1\<rparr>)"
    using x by (cases w) (simp add: put_ser_def fun_upd_idem)
  then have same: "\<exists>e o2. w\<lparr>tty := o1\<rparr> = put_ser c (x\<lparr>err_code := e\<rparr>) (w\<lparr>tty := o2\<rparr>)" by blast
  have "win32_serial_set_timeout S c mtimeout w =
      (if b then Inr (0, w\<lparr>tty := o1\<rparr>) else Inr (-1, put_ser c (x\<lparr>err_code := sint (GetLastError S o1)\<rparr>) (w\<lparr>tty := o1\<rparr>)))"
    using x r h b by (simp add: win32_serial_set_timeout_def the_rtu_eq fail_with_eq)
  then show ?thesis using same by (cases b) auto
qed

lemma win_read_law:
  assumes S: "win_ok S" and x: "sers w c = Some x" and r: "rtus w (backend_data x) = Some r" and ok: "handle_ok (is_open x) r"
    and len: "0 \<le> len" "len \<le> int (length buf)" "len < 2 ^ 31"
  shows "\<exists>n buf' w'. win32_serial_read S c buf len mtimeout w = Inr (n, buf', w') \<and> port_step handle_ok c w w' \<and>
    (opened c w' \<longleftrightarrow> opened c w) \<and> length buf' = length buf \<and> (n = -1 \<or> 0 \<le> n \<and> n \<le> len)"
proof (cases "is_open x")
  case False
  then show ?thesis using x port_step_refl [where ok = handle_ok, OF x r ok] by (simp add: win32_serial_read_def)
next
  case o: True
  obtain h where h: "hfd r = Some h" using ok by (auto simp: handle_ok_def)
  obtain n0 e o1 where t: "(if mtimeout \<ge> 0 then win32_serial_set_timeout S c mtimeout w else Inr (0, w)) =
      Inr (n0, put_ser c (x\<lparr>err_code := e\<rparr>) (w\<lparr>tty := o1\<rparr>))"
  proof (cases "mtimeout \<ge> 0")
    case True
    then show ?thesis using win_timeout_law [OF x r ok, of S mtimeout] that by auto
  next
    case False
    have "w = put_ser c (x\<lparr>err_code := err_code x\<rparr>) (w\<lparr>tty := tty w\<rparr>)"
      using x by (cases w) (simp add: put_ser_def fun_upd_idem)
    then show ?thesis using False that by metis
  qed
  define x1 w1 where "x1 = x\<lparr>err_code := e\<rparr>" and "w1 = put_ser c x1 (w\<lparr>tty := o1\<rparr>)"
  have x1: "sers w1 c = Some x1" "rtus w1 (backend_data x1) = Some r" "handle_ok (is_open x1) r" "tty w1 = o1"
    using x r ok by (simp_all add: x1_def w1_def sworld_simps)
  have w1: "port_step handle_ok c w w1" "opened c w1 \<longleftrightarrow> opened c w"
    using tty_step [where ok = handle_ok, OF x r ok] by (simp_all add: w1_def x1_def)
  obtain b bs o2 where b: "ReadFile S h (word_of_int len) o1 = (b, bs, o2)" using prod_cases3 by blast
  have "unat (word_of_int len :: dword) = nat len" using len(1,3) by (simp add: unsigned_of_int take_bit_int_eq_self)
  then have bs: "length bs \<le> nat len" using win_okD(1) [OF S b] by simp
  then have wr: "wr buf 0 bs = Inr (bs @ drop (length bs) buf)" using len(2) by simp
  have ti: "to_int (int (length bs)) = int (length bs)" by (rule to_int_id) (use bs len in auto)
  have "win32_serial_read S c buf len mtimeout w =
      (if \<not> b then Inr (-1, bs @ drop (length bs) buf, put_ser c (x1\<lparr>err_code := sint (GetLastError S o2)\<rparr>) (w1\<lparr>tty := o2\<rparr>))
       else Inr (int (length bs), bs @ drop (length bs) buf, w1\<lparr>tty := o2\<rparr>))"
    using x o t h b wr ti x1(1,2,4)
    by (simp add: win32_serial_read_def x1_def [symmetric] w1_def [symmetric] the_rtu_eq fail_with_eq)
  moreover have "length (bs @ drop (length bs) buf) = length buf" using bs len(2) by simp
  moreover note st = tty_step [where ok = handle_ok and ?o1.0 = o2, OF x1(1-3)]
  moreover note port_step_trans [OF w1(1) st(1)] port_step_trans [OF w1(1) st(2)]
  ultimately show ?thesis using bs len(1) w1(2) by (cases b) auto
qed

lemma win_write_law:
  assumes x: "sers w c = Some x" and r: "rtus w (backend_data x) = Some r" and ok: "handle_ok (is_open x) r"
    and len: "0 \<le> len" "len \<le> int (length buf)" "len < 2 ^ 31"
  shows "\<exists>n w'. win32_serial_write S c buf len mtimeout w = Inr (n, w') \<and> port_step handle_ok c w w' \<and>
    (opened c w' \<longleftrightarrow> opened c w)"
proof (cases "is_open x")
  case False
  then show ?thesis using x port_step_refl [where ok = handle_ok, OF x r ok] by (simp add: win32_serial_write_def)
next
  case o: True
  obtain h where h: "hfd r = Some h" using ok by (auto simp: handle_ok_def)
  have "unat (word_of_int len :: dword) = nat len" using len(1,3) by (simp add: unsigned_of_int take_bit_int_eq_self)
  then have rd: "rd buf 0 (unat (word_of_int len :: dword)) = Inr (take (nat len) buf)" using len(2) by simp
  obtain b n o1 where b: "WriteFile S h (take (nat len) buf) (tty w) = (b, n, o1)" using prod_cases3 by blast
  have "win32_serial_write S c buf len mtimeout w =
      (if b then Inr (sint n, w\<lparr>tty := o1\<rparr>)
       else Inr (-1, put_ser c (x\<lparr>err_code := sint (GetLastError S o1)\<rparr>) (w\<lparr>tty := o1\<rparr>)))"
    using x r o h rd b by (simp add: win32_serial_write_def the_rtu_eq fail_with_eq)
  then show ?thesis using tty_step [where ok = handle_ok, OF x r ok] by simp
qed

lemma win_clean_law:
  assumes x: "sers w c = Some x" and r: "rtus w (backend_data x) = Some r" and ok: "handle_ok (is_open x) r"
  shows "\<exists>n w'. win32_serial_clean_buffer S c w = Inr (n, w') \<and> port_step handle_ok c w w' \<and> (opened c w' \<longleftrightarrow> opened c w)"
proof -
  obtain h where h: "hfd r = Some h" using ok by (auto simp: handle_ok_def)
  obtain b o1 where b: "PurgeComm S h (PURGE_TXCLEAR OR PURGE_RXCLEAR) (tty w) = (b, o1)" by fastforce
  have "win32_serial_clean_buffer S c w =
      (if b then Inr (0, w\<lparr>tty := o1\<rparr>) else Inr (-1, put_ser c (x\<lparr>err_code := sint (GetLastError S o1)\<rparr>) (w\<lparr>tty := o1\<rparr>)))"
    using x r h b by (simp add: win32_serial_clean_buffer_def the_rtu_eq fail_with_eq)
  then show ?thesis using tty_step [where ok = handle_ok, OF x r ok] by simp
qed

text \<open>The platform keeps the contract.\<close>

interpretation windows: serial_platform win_platform win_ok handle_ok
proof unfold_locales
  show "length (dev_prefix (win_platform e)) \<le> 12" for e :: "'o win_sys" by (simp add: win_platform_def)
  show "handle_ok False (reset_rtu (win_platform e) r)" for e :: "'o win_sys" and r
    by (simp add: win_platform_def handle_ok_def)
  show "serial_rtu.truncate (reset_rtu (win_platform e) r) = serial_rtu.truncate r" for e :: "'o win_sys" and r
    by (simp add: win_platform_def)
  show "a \<notin> A \<and> a \<noteq> NULL" if "win_ok e" "pmalloc (win_platform e) A o1 = (Some a, o2)" for e :: "'o win_sys" and A a o1 o2
    using win_okD(2) [OF that(1)] that(2) by (simp add: win_platform_def)
qed (simp_all add: win_platform_def win_serial_backend_def
  win_open_law win_close_law win_destory_law win_read_law win_write_law win_clean_law)

end
