(* ===== verification/Windows_Client.thy ===== *)
theory Windows_Client
  imports Serial_Windows
begin

text \<open>
  What a client of the serial ports on Windows may rely on beyond the contract: a port that was opened
  and closed has its settings back. And where the code goes wrong: a device that cannot be
  configured keeps its handle.
\<close>

lemma win_platform_simps [simp]:
  "dev_prefix (win_platform S) = ''COM''" "bopen (backend (win_platform S)) = win32_serial_open S"
  "bclose (backend (win_platform S)) = win32_serial_close S"
  by (simp_all add: win_platform_def win_serial_backend_def)

lemmas win_open_spec = windows.open_spec [unfolded win_platform_simps]
lemmas win_close_spec = windows.close_spec [unfolded win_platform_simps]

section \<open>Settings are restored\<close>

text \<open>
  \<open>conf\<close> reads the settings of the device from the world outside: \<open>GetCommState\<close> gives them,
  \<open>SetCommState\<close> sets them where it succeeds, opening and closing leave them.
\<close>

definition conf_ok :: "('o \<Rightarrow> dcb) \<Rightarrow> 'o win_sys \<Rightarrow> bool" where
  "conf_ok conf S \<longleftrightarrow>
     (\<forall>dev o1. conf (snd (CreateFileA S dev o1)) = conf o1) \<and>
     (\<forall>h o1. conf (snd (CloseHandle S h o1)) = conf o1) \<and>
     (\<forall>h o1. conf (snd (GetCommState S h o1)) = conf o1 \<and> fst (GetCommState S h o1) \<in> {None, Some (conf o1)}) \<and>
     (\<forall>h d o1. conf (snd (SetCommState S h d o1)) = (if fst (SetCommState S h d o1) then d else conf o1))"

lemma conf_okD:
  assumes "conf_ok conf S"
  shows "CreateFileA S dev o1 = (h, o2) \<Longrightarrow> conf o2 = conf o1" "CloseHandle S h o1 = (b, o2) \<Longrightarrow> conf o2 = conf o1"
    "conf (snd (CloseHandle S h o1)) = conf o1"
    "GetCommState S h o1 = (g, o2) \<Longrightarrow> conf o2 = conf o1 \<and> (g = None \<or> g = Some (conf o1))"
    "SetCommState S h d o1 = (b, o2) \<Longrightarrow> conf o2 = (if b then d else conf o1)"
  using assms unfolding conf_ok_def by (metis snd_conv, metis snd_conv, metis, metis fst_conv snd_conv insertE singletonD, metis fst_conv snd_conv)

text \<open>Either the port has no handle and the device the settings \<open>d\<close>, or \<open>d\<close> are kept in the port.\<close>

definition keeps :: "('o \<Rightarrow> dcb) \<Rightarrow> dcb \<Rightarrow> addr \<Rightarrow> 'o wworld \<Rightarrow> bool" where
  "keeps conf d c w \<longleftrightarrow>
     (\<exists>x r h. sers w c = Some x \<and> rtus w (backend_data x) = Some r \<and> hfd r = Some h \<and>
        (if h = INVALID_HANDLE_VALUE then \<not> is_open x \<and> conf (tty w) = d else old_dcb r = Some d))"

lemma keepsI:
  assumes "sers w c = Some x" and "rtus w (backend_data x) = Some r" and "hfd r = Some h"
    and "if h = INVALID_HANDLE_VALUE then \<not> is_open x \<and> conf (tty w) = d else old_dcb r = Some d"
  shows "keeps conf d c w"
  using assms unfolding keeps_def by blast

lemma keeps_close:
  assumes S: "conf_ok conf S" and k: "keeps conf d c w"
  shows "\<exists>n w'. win32_serial_close S c w = Inr (n, w') \<and> keeps conf d c w' \<and> (n = 0 \<longrightarrow> conf (tty w') = d)"
proof -
  obtain x r h where x: "sers w c = Some x" "rtus w (backend_data x) = Some r" "hfd r = Some h"
    "if h = INVALID_HANDLE_VALUE then \<not> is_open x \<and> conf (tty w) = d else old_dcb r = Some d"
    using k unfolding keeps_def by blast
  show ?thesis
  proof (cases "h = INVALID_HANDLE_VALUE")
    case True
    then show ?thesis using x k by (simp add: win32_serial_close_def the_rtu_eq)
  next
    case False
    obtain b1 o1 where 1: "SetCommState S h d (tty w) = (b1, o1)" by fastforce
    obtain b2 o2 where 2: "CloseHandle S h o1 = (b2, o2)" by fastforce
    have run: "win32_serial_close S c w =
        (if \<not> b1 then Inr (-1, put_ser c (x\<lparr>err_code := sint (GetLastError S o1)\<rparr>) (w\<lparr>tty := o1\<rparr>))
         else if \<not> b2 then Inr (-1, put_ser c (x\<lparr>err_code := sint (GetLastError S o2)\<rparr>) (w\<lparr>tty := o2\<rparr>))
         else Inr (0, put_ser c (x\<lparr>is_open := False\<rparr>)
           (put_rtu (backend_data x) (r\<lparr>hfd := Some INVALID_HANDLE_VALUE\<rparr>) (w\<lparr>tty := o2\<rparr>))))"
      using x False 1 2 by (simp add: win32_serial_close_def the_rtu_eq fail_with_eq)
    have "conf o2 = d" if b1 using that conf_okD(5) [OF S 1] conf_okD(2) [OF S 2] by simp
    then show ?thesis using run x False by (cases b1; cases b2) (auto simp: keeps_def sworld_simps)
  qed
qed

lemma keeps_open:
  assumes S: "conf_ok conf S" and x: "sers w c = Some x" "rtus w (backend_data x) = Some r" "\<not> is_open x"
  shows "\<exists>n w'. win32_serial_open S c w = Inr (n, w') \<and> keeps conf (conf (tty w)) c w'"
proof -
  obtain h o1 where h: "CreateFileA S (device r) (tty w) = (h, o1)" by fastforce
  obtain g o2 where g: "GetCommState S h o1 = (g, o2)" by fastforce
  note run = win_open_eq [OF x h g]
  have c1: "conf o1 = conf (tty w)" "conf o2 = conf (tty w)" and g1: "g = None \<or> g = Some (conf (tty w))"
    using conf_okD(1) [OF S h] conf_okD(4) [OF S g] by simp_all
  show ?thesis
  proof (cases "h = INVALID_HANDLE_VALUE \<or> g = None")
    case True
    then show ?thesis using run x c1 conf_okD(3) [OF S, of h o2]
      by (cases "h = INVALID_HANDLE_VALUE") (simp_all add: keeps_def sworld_simps)
  next
    case False
    then have valid: "h \<noteq> INVALID_HANDLE_VALUE" "g = Some (conf (tty w))" using g1 by blast+
    define r2 where "r2 = r\<lparr>hfd := Some h, old_dcb := Some (conf (tty w))\<rparr>"
    obtain b o3 where b: "SetCommState S h (dcb_configure r2 (conf (tty w))) o2 = (b, o3)" by fastforce
    define w2 where "w2 = put_rtu (backend_data x) r2 (w\<lparr>tty := o3\<rparr>)"
    have k: "keeps conf (conf (tty w)) c (put_ser c y w2)" if "backend_data y = backend_data x" for y
      by (rule keepsI [where x = y and r = r2 and h = h]) (use that valid in \<open>simp_all add: w2_def r2_def sworld_simps\<close>)
    show ?thesis
    proof (cases b)
      case True
      then have "win32_serial_open S c w = Inr (0, put_ser c (x\<lparr>is_open := True\<rparr>) w2)"
        using run valid b by (simp add: r2_def [symmetric] w2_def)
      then show ?thesis using k by simp
    next
      case False
      define w3 where "w3 = put_ser c (x\<lparr>err_code := sint (GetLastError S o3)\<rparr>) w2"
      have "keeps conf (conf (tty w)) c w3" unfolding w3_def by (rule k) simp
      then obtain n w4 where "win32_serial_close S c w3 = Inr (n, w4)" "keeps conf (conf (tty w)) c w4"
        using keeps_close [OF S] by blast
      moreover have "win32_serial_open S c w = bnd (win32_serial_close S c w3) (\<lambda>(_, w). Inr (-1, w))"
        using run False valid b by (simp add: r2_def [symmetric] w2_def w3_def)
      ultimately show ?thesis by simp
    qed
  qed
qed

text \<open>
  C33: Opening a port that nobody has open, and closing it again: where the close succeeds the device
  has the settings it had before, whether the open succeeded or at which step it failed.
\<close>

theorem win_restores:
  assumes "win_ok S" and "conf_ok conf S" and "sinv handle_ok ''COM'' ms w" and "m \<in> set ms"
    and "port_of w m = Some (sm, x, r)" and "\<not> mt sm" and "opencount sm = 0" and "\<not> is_open x"
  shows "\<exists>n w1 k w2. serial_open (win_platform S) (sm_t sm) w = Inr (n, w1) \<and>
    serial_close (win_platform S) (sm_t sm) w1 = Inr (k, w2) \<and> sinv handle_ok ''COM'' ms w2 \<and>
    (k = 0 \<longrightarrow> conf (tty w2) = conf (tty w) \<and> \<not> opened (sm_t sm) w2)"
proof -
  note p = sinv_port [OF assms(3-5)]
  let ?c = "sm_t sm"
  obtain n v where v: "win32_serial_open S ?c w = Inr (n, v)" "keeps conf (conf (tty w)) ?c v"
    using keeps_open [OF assms(2) p(2,3) assms(8)] by blast
  obtain y where y: "sers v ?c = Some y" using v(2) by (auto simp: keeps_def)
  have fr: "mgrs v = mgrs w" "n = 0 \<longleftrightarrow> opened ?c v"
    using win_open_law [OF p(2-4), of S] v(1) by (auto elim: port_stepE)
  define w1 where "w1 = (if n = 0 then put_mgr m (sm\<lparr>opencount := 1\<rparr>) (put_ser ?c (y\<lparr>is_open := True\<rparr>) v) else v)"
  have run1: "serial_open (win_platform S) ?c w = Inr (if n = 0 then 0 else -1, w1)"
    using windows.open_first [OF p(9,1) assms(7,6) _ fr(1) y, of S n] v(1) assms(7) by (simp add: w1_def)
  have same: "y\<lparr>is_open := True\<rparr> = y" if "n = 0" using that fr(2) y by (cases y) (simp add: opened_def)
  obtain n1 where spec: "n1 = (if n = 0 then 0 else -1 :: int)" "sinv handle_ok ''COM'' ms w1"
    "now_port m (if n1 = 0 then sm\<lparr>opencount := opencount sm + 1\<rparr> else sm) x r w1"
    using win_open_spec [OF assms(1,3-6)] run1 by auto
  then obtain sm1 x1 r1 where q1: "port_of w1 m = Some (sm1, x1, r1)" "sm_t sm1 = ?c" "\<not> mt sm1" "opencount sm1 \<le> 1"
    using assms(6,7) by (auto simp: now_port_def split: if_splits)
  note p1 = sinv_port [OF spec(2) assms(4) q1(1)]
  let ?w1 = "put_mgr m (sm1\<lparr>opencount := max 0 (opencount sm1 - 1)\<rparr>) w1"
  have "sers ?w1 ?c = sers v ?c" "rtus ?w1 = rtus v" "tty ?w1 = tty v"
    using y same by (simp_all add: w1_def sworld_simps)
  then have "keeps conf (conf (tty w)) ?c ?w1" using v(2) unfolding keeps_def by (simp only:)
  then obtain k w2 where w2: "win32_serial_close S ?c ?w1 = Inr (k, w2)" "k = 0 \<longrightarrow> conf (tty w2) = conf (tty w)"
    using keeps_close [OF assms(2)] by blast
  have run2: "serial_close (win_platform S) ?c w1 = Inr (k, w2)"
    using windows.close_run [OF p1(9,1,7) q1(3), of S] q1(2,4) w2(1) by simp
  have "sinv handle_ok ''COM'' ms w2" "k = 0 \<longrightarrow> \<not> opened ?c w2"
    using win_close_spec [OF assms(1) spec(2) assms(4) q1(1,3)] run2 q1(2,4) by auto
  then show ?thesis using run1 run2 w2(2) by blast
qed

section \<open>Where the code goes wrong\<close>

lemma win_open_stuck:
  assumes S: "win_ok S" and inv: "sinv handle_ok ''COM'' ms v" and m: "m \<in> set ms" and q: "port_of v m = Some (sm, y, r0)"
    and mt: "\<not> mt sm" and zero: "opencount sm = 0" and cl: "\<not> is_open y"
    and create: "\<forall>dev o1 h o2. CreateFileA S dev o1 = (h, o2) \<longrightarrow> h \<noteq> INVALID_HANDLE_VALUE \<and> h \<notin> hs o1 \<and> hs o2 = insert h (hs o1)"
    and get: "\<forall>h o1. fst (GetCommState S h o1) \<noteq> None \<and> hs (snd (GetCommState S h o1)) = hs o1"
    and set: "\<forall>h d o1. \<not> fst (SetCommState S h d o1) \<and> hs (snd (SetCommState S h d o1)) = hs o1"
  shows "\<exists>h v' x' r'. serial_open (win_platform S) (sm_t sm) v = Inr (-1, v') \<and> sinv handle_ok ''COM'' ms v' \<and>
    port_of v' m = Some (sm, x', r') \<and> \<not> is_open x' \<and> backend_data x' = backend_data y \<and> hfd r' = Some h \<and>
    h \<notin> hs (tty v) \<and> hs (tty v') = insert h (hs (tty v))"
proof -
  note p = sinv_port [OF inv m q]
  obtain h o1 where h: "CreateFileA S (device r0) (tty v) = (h, o1)" by fastforce
  obtain g o2 where g: "GetCommState S h o1 = (g, o2)" by fastforce
  have hl: "h \<noteq> INVALID_HANDLE_VALUE" "h \<notin> hs (tty v)" "hs o1 = insert h (hs (tty v))" using create h by blast+
  have gl: "g \<noteq> None" "hs o2 = hs o1" using get g by (metis fst_conv, metis snd_conv)
  obtain old where old: "g = Some old" using gl(1) by blast
  define r2 where "r2 = r0\<lparr>hfd := Some h, old_dcb := Some old\<rparr>"
  obtain b o3 where b: "SetCommState S h (dcb_configure r2 old) o2 = (b, o3)" by fastforce
  have bl: "\<not> b" "hs o3 = hs o2" using set b by (metis fst_conv, metis snd_conv)
  define v3 where "v3 = put_ser (sm_t sm) (y\<lparr>err_code := sint (GetLastError S o3)\<rparr>) (put_rtu (backend_data y) r2 (v\<lparr>tty := o3\<rparr>))"
  obtain b4 o4 where b4: "SetCommState S h old o3 = (b4, o4)" by fastforce
  have b4l: "\<not> b4" "hs o4 = hs o3" using set b4 by (metis fst_conv, metis snd_conv)
  define y4 where "y4 = y\<lparr>err_code := sint (GetLastError S o3), err_code := sint (GetLastError S o4)\<rparr>"
  define v4 where "v4 = put_ser (sm_t sm) y4 (v3\<lparr>tty := o4\<rparr>)"
  have "win32_serial_close S (sm_t sm) v3 = Inr (-1, v4)"
    using hl(1) b4 b4l(1) by (simp add: win32_serial_close_def the_rtu_def v3_def v4_def y4_def r2_def sworld_simps fail_with_eq)
  then have bo: "win32_serial_open S (sm_t sm) v = Inr (-1, v4)"
    using win_open_eq [OF p(2,3) cl h g] hl(1) old b bl(1) by (simp add: r2_def [symmetric] v3_def)
  have f: "sers v4 (sm_t sm) = Some y4" "rtus v4 (backend_data y4) = Some r2" "mgrs v4 = mgrs v" "tty v4 = o4"
    by (simp_all add: v4_def v3_def y4_def sworld_simps)
  have run: "serial_open (win_platform S) (sm_t sm) v = Inr (-1, v4)"
    using windows.open_first [OF p(9,1) zero mt _ f(3,1), of S "-1"] bo by simp
  have "sinv handle_ok ''COM'' ms v4" using win_open_spec [OF S inv m q mt] run by auto
  moreover have "port_of v4 m = Some (sm, y4, r2)" using f p(1) by (simp add: port_of_Some)
  ultimately show ?thesis using run f hl gl bl b4l cl by (auto simp: y4_def r2_def)
qed

text \<open>
  A device that can be opened but neither configured nor reset keeps its handle: the next try
  opens another one over it. \<open>hs\<close> are the open handles.
\<close>

theorem win_open_leaks:
  assumes "win_ok S" and "sinv handle_ok ''COM'' ms w" and "m \<in> set ms"
    and "port_of w m = Some (sm, x, r)" and "\<not> mt sm" and "opencount sm = 0" and "\<not> is_open x"
    and "\<forall>dev o1 h o2. CreateFileA S dev o1 = (h, o2) \<longrightarrow> h \<noteq> INVALID_HANDLE_VALUE \<and> h \<notin> hs o1 \<and> hs o2 = insert h (hs o1)"
    and "\<forall>h o1. fst (GetCommState S h o1) \<noteq> None \<and> hs (snd (GetCommState S h o1)) = hs o1"
    and "\<forall>h d o1. \<not> fst (SetCommState S h d o1) \<and> hs (snd (SetCommState S h d o1)) = hs o1"
  shows "\<exists>w1 w2 h1 h2. serial_open (win_platform S) (sm_t sm) w = Inr (-1, w1) \<and>
    serial_open (win_platform S) (sm_t sm) w1 = Inr (-1, w2) \<and> map_option hfd (rtus w2 (backend_data x)) = Some (Some h2) \<and>
    h1 \<noteq> h2 \<and> h1 \<notin> hs (tty w) \<and> hs (tty w2) = insert h2 (insert h1 (hs (tty w)))"
proof -
  obtain h1 w1 x1 r1 where 1: "serial_open (win_platform S) (sm_t sm) w = Inr (-1, w1)" "sinv handle_ok ''COM'' ms w1"
    "port_of w1 m = Some (sm, x1, r1)" "\<not> is_open x1" "backend_data x1 = backend_data x"
    "h1 \<notin> hs (tty w)" "hs (tty w1) = insert h1 (hs (tty w))"
    using win_open_stuck [OF assms(1,2,3,4,5,6,7,8,9,10)] by blast
  obtain h2 w2 x2 r2 where 2: "serial_open (win_platform S) (sm_t sm) w1 = Inr (-1, w2)" "port_of w2 m = Some (sm, x2, r2)"
    "backend_data x2 = backend_data x1" "hfd r2 = Some h2" "h2 \<notin> hs (tty w1)" "hs (tty w2) = insert h2 (hs (tty w1))"
    using win_open_stuck [OF assms(1) 1(2) assms(3) 1(3) assms(5,6) 1(4) assms(8,9,10)] by blast
  have "map_option hfd (rtus w2 (backend_data x)) = Some (Some h2)" using 2(2-4) 1(5) by (simp add: port_of_Some)
  then show ?thesis using 1 2 by (intro exI [of _ w1] exI [of _ w2] exI [of _ h1] exI [of _ h2]) auto
qed

section \<open>A concrete device\<close>

text \<open>
  The state of the demonstration: the settings of the device and how many handles were opened.
  \<open>stuck_win\<close> refuses every new setting.
\<close>

definition demo_dcb :: dcb where
  "demo_dcb = \<lparr>BaudRate = 1200, ByteSize = 7, StopBits = ONESTOPBIT, Parity = NOPARITY, fParity = False,
     fTXContinueOnXoff = False, fOutX = True, fInX = True, fBinary = True, fAbortOnError = True, dcb_rest = []\<rparr>"

definition demo_win :: "(dcb \<times> nat) win_sys" where
  "demo_win =
     \<lparr>CreateFileA = (\<lambda>dev (d, k). (int k, (d, k + 1))), GetCommState = (\<lambda>h (d, k). (Some d, (d, k))),
      SetCommState = (\<lambda>h d' (d, k). (True, (d', k))), SetCommTimeouts = (\<lambda>h t o1. (True, o1)),
      ReadFile = (\<lambda>h n o1. (True, [], o1)), WriteFile = (\<lambda>h bs o1. (True, word_of_nat (length bs), o1)),
      PurgeComm = (\<lambda>h fl o1. (True, o1)), CloseHandle = (\<lambda>h o1. (True, o1)), GetLastError = (\<lambda>o1. 5),
      win_malloc = (\<lambda>A o1. (None, o1)),
      win_junk_serial = (\<lambda>o1. \<lparr>debug = 7, is_open = True, err_code = 7, share_mode = 7, backend_data = 7\<rparr>),
      win_junk_rtu = (\<lambda>o1. \<lparr>device = [], baud = 7, data_bit = 7, stop_bit = 7, parity = CHR ''x''\<rparr>)\<rparr>"

definition stuck_win :: "(dcb \<times> nat) win_sys" where
  "stuck_win = demo_win\<lparr>SetCommState := \<lambda>h d' o1. (False, o1)\<rparr>"

definition com_mgr :: serial_manger where
  "com_mgr = \<lparr>sm_t = 2, refcount = 1, opencount = 0, mt = False\<rparr>"

definition com_ser :: serial where
  "com_ser = \<lparr>debug = 0, is_open = False, err_code = 0, share_mode = 1, backend_data = 3\<rparr>"

definition com_rtu :: win_rtu where
  "com_rtu = \<lparr>device = ''COM1'', baud = 9600, data_bit = 8, stop_bit = 1, parity = CHR ''N'',
     hfd = Some INVALID_HANDLE_VALUE, old_dcb = None\<rparr>"

definition com_port :: "(dcb \<times> nat) wworld" where
  "com_port =
     \<lparr>sers = [2 \<mapsto> com_ser], rtus = [3 \<mapsto> com_rtu], mgrs = [4 \<mapsto> com_mgr],
      nodes = [serial_mangers \<mapsto> \<lparr>prv = 4, nxt = 4\<rparr>, 4 \<mapsto> \<lparr>prv = serial_mangers, nxt = serial_mangers\<rparr>],
      g_mangers = False, tty = (demo_dcb, 0)\<rparr>"

lemma com_port_of: "port_of com_port 4 = Some (com_mgr, com_ser, com_rtu)"
  by (simp add: port_of_Some com_port_def com_mgr_def com_ser_def)

lemma com_sinv: "sinv handle_ok ''COM'' [4] com_port"
proof -
  have "devname ''COM'' 1 = ''COM1''" by code_simp
  then have "''COM1'' \<in> range (devname ''COM'')" by (metis rangeI)
  then have "fine handle_ok ''COM'' (com_mgr, com_ser, com_rtu)"
    by (simp add: fine_def com_mgr_def com_ser_def com_rtu_def handle_ok_def NULL_def)
  moreover have "ring (nodes com_port) serial_mangers [4]"
    by (simp add: ring_def com_port_def nxt_of_def prv_of_def serial_mangers_def)
  ultimately show ?thesis by (simp add: sinv_def pinv_def com_port_of) (simp add: com_port_def used_def)
qed

lemma demo_win_ok: "win_ok demo_win" "win_ok stuck_win"
  by (simp_all add: win_ok_def stuck_win_def demo_win_def)

lemma demo_conf_ok: "conf_ok fst demo_win"
  by (auto simp: conf_ok_def demo_win_def)

lemma com_facts: "4 \<in> set [4 :: addr]" "\<not> mt com_mgr" "opencount com_mgr = 0" "\<not> is_open com_ser" "sm_t com_mgr = 2"
  "backend_data com_ser = 3" "tty com_port = (demo_dcb, 0)"
  by (simp_all add: com_mgr_def com_ser_def com_port_def)

theorem win_restores_witness:
  "\<exists>n w1 k w2. serial_open (win_platform demo_win) 2 com_port = Inr (n, w1) \<and>
     serial_close (win_platform demo_win) 2 w1 = Inr (k, w2) \<and> (k = 0 \<longrightarrow> fst (tty w2) = demo_dcb)"
  using win_restores [OF demo_win_ok(1) demo_conf_ok com_sinv com_facts(1) com_port_of com_facts(2-4)]
  unfolding com_facts(5,7) fst_conv by blast

theorem win_open_leaks_witness:
  "\<exists>w1 w2 h1 h2. serial_open (win_platform stuck_win) 2 com_port = Inr (-1, w1) \<and>
     serial_open (win_platform stuck_win) 2 w1 = Inr (-1, w2) \<and> map_option hfd (rtus w2 3) = Some (Some h2) \<and>
     h1 \<noteq> h2 \<and> {0..<int (snd (tty w2))} = {h1, h2}"
proof -
  have "\<forall>dev o1 h o2. CreateFileA stuck_win dev o1 = (h, o2) \<longrightarrow>
      h \<noteq> INVALID_HANDLE_VALUE \<and> h \<notin> {0..<int (snd o1)} \<and> {0..<int (snd o2)} = insert h {0..<int (snd o1)}"
    "\<forall>h o1. fst (GetCommState stuck_win h o1) \<noteq> None \<and> {0..<int (snd (snd (GetCommState stuck_win h o1)))} = {0..<int (snd o1)}"
    "\<forall>h d o1. \<not> fst (SetCommState stuck_win h d o1) \<and> {0..<int (snd (snd (SetCommState stuck_win h d o1)))} = {0..<int (snd o1)}"
    by (auto simp: stuck_win_def demo_win_def INVALID_HANDLE_VALUE_def)
  from win_open_leaks [OF demo_win_ok(2) com_sinv com_facts(1) com_port_of com_facts(2-4) this]
  obtain w1 w2 h1 h2 where "serial_open (win_platform stuck_win) 2 com_port = Inr (-1, w1)"
    "serial_open (win_platform stuck_win) 2 w1 = Inr (-1, w2)" "map_option hfd (rtus w2 3) = Some (Some h2)"
    "h1 \<noteq> h2" "{0..<int (snd (tty w2))} = insert h2 (insert h1 {})"
    unfolding com_facts(5-7) by auto
  moreover have "insert h2 (insert h1 {}) = {h1, h2}" by blast
  ultimately show ?thesis by metis
qed

end
