(* ===== verification/Zsocket_State.thy ===== *)
theory Zsocket_State
  imports List_Head Qbuf Posix
begin

text \<open>
  The state of \<open>src/zsocket.h\<close> and \<open>src/zsocket.c\<close> (the build without \<open>__WIN32\<close>): \<open>struct zsocket\<close>,
  the static variables of the library as one record \<open>world\<close>, and the two
  parameters of the model: \<open>sys\<close>, the system calls the library makes, and \<open>handlers\<close>, the
  callbacks of the application. Neither has a definition here. \<open>sys_ok\<close>, in
  \<open>Zsocket_Inv\<close>, states the documented behaviour of the calls that proofs rely on.
\<close>

section \<open>Sockets\<close>

datatype zsocket_type = ZS_T_NONE | ZS_T_CLIENT | ZS_T_SERVER | ZS_T_CONNECTION

definition ZS_S_EOF :: flags where "ZS_S_EOF = 0x1"
definition ZS_S_TIMEOUT :: flags where "ZS_S_TIMEOUT = push_bit 1 1"
definition ZS_S_READ_ENABLE :: flags where "ZS_S_READ_ENABLE = push_bit 2 1"
definition ZS_S_WRITE_ENABLE :: flags where "ZS_S_WRITE_ENABLE = push_bit 3 1"
definition ZS_S_READ_FAILED :: flags where "ZS_S_READ_FAILED = push_bit 4 1"
definition ZS_S_WRITE_FAILED :: flags where "ZS_S_WRITE_FAILED = push_bit 5 1"
definition ZS_S_RBUF_RUNOUT :: flags where "ZS_S_RBUF_RUNOUT = push_bit 6 1"
definition ZS_S_WBUF_RUNOUT :: flags where "ZS_S_WBUF_RUNOUT = push_bit 7 1"

definition READ_BUF_SIZE :: size_t where "READ_BUF_SIZE = 8192"
definition WRITE_BUF_SIZE :: size_t where "WRITE_BUF_SIZE = 8192"
definition SIZEOF_ZSOCKET :: size_t where "SIZEOF_ZSOCKET = 144" \<comment> \<open>LP64\<close>
definition STALL_INTERVAL :: int where "STALL_INTERVAL = 60 * 5"

text \<open>
  A callback is named by a number; \<open>None\<close> is a NULL function pointer. The list node of a
  socket lives in the heap of links, at the address of the socket. The buffers are owned by
  the socket alone, so the pointers to them are optional values.
\<close>

type_synonym cb = nat

record zsocket =
  fd :: int
  laddr :: sockaddr_in
  raddr :: sockaddr_in
  stype :: zsocket_type
  state :: flags
  tick :: int
  stall :: int
  rbuf :: "qbuf option"
  wbuf :: "qbuf option"
  sdata :: "addr option"
  user_data :: "addr option"
  close_cb :: "cb option"
  read_cb :: "cb option"
  connected_cb :: "cb option"
  connection_cb :: "cb option"

text \<open>What \<open>calloc\<close> leaves in a \<open>struct zsocket\<close>, and what \<open>zsocket_init\<close> makes of it.\<close>

definition zero_zsocket :: zsocket where
  "zero_zsocket = \<lparr>fd = 0, laddr = zero_addr, raddr = zero_addr, stype = ZS_T_NONE, state = 0,
     tick = 0, stall = 0, rbuf = None, wbuf = None, sdata = None, user_data = None,
     close_cb = None, read_cb = None, connected_cb = None, connection_cb = None\<rparr>"

definition init_zsocket :: zsocket where
  "init_zsocket = \<lparr>fd = -1, laddr = zero_addr, raddr = zero_addr, stype = ZS_T_NONE, state = 0,
     tick = 0, stall = STALL_INTERVAL, rbuf = None, wbuf = None, sdata = None, user_data = None,
     close_cb = None, read_cb = None, connected_cb = None, connection_cb = None\<rparr>"

record zsocket_status =
  nr_current :: int
  nr_total :: int
  nr_closed :: int
  nr_current_client :: int
  nr_current_server :: int
  nr_current_connection :: int

section \<open>The library's variables\<close>

text \<open>
  \<open>socks\<close> is the address of the static list head. \<open>zs\<close> holds the allocated \<open>struct zsocket\<close>s,
  \<open>links\<close> their list nodes and the list head, \<open>os\<close> the state of the world outside.
\<close>

definition socks :: addr where "socks = 1"

record 'os world =
  lib_init :: bool
  in_looping :: bool
  nfds_read :: int
  fds_read :: "int set"
  nfds_write :: int
  fds_write :: "int set"
  status :: zsocket_status
  links :: lheap
  zs :: "addr \<rightharpoonup> zsocket"
  os :: 'os

section \<open>Parameters: system calls and callbacks\<close>

text \<open>
  Each call takes the state of the outside world and gives its results and the next state.
  \<open>sys_alloc\<close> is the answer of the allocator to a request of that size, \<open>sys_realloc\<close> its answer
  should \<open>realloc\<close> be called next, \<open>sys_malloc\<close> the address of a new block, given those in use.
  \<open>sys_select\<close> gives the count, whether \<open>errno\<close> is \<open>EINTR\<close>, and the sets it leaves.
  \<open>sys_fds\<close> is the set of open descriptors of the process.
\<close>

record 'os sys =
  sys_socket :: "'os \<Rightarrow> int \<times> 'os"
  sys_connect :: "int \<Rightarrow> sockaddr_in \<Rightarrow> 'os \<Rightarrow> int \<times> 'os"
  sys_bind :: "int \<Rightarrow> sockaddr_in \<Rightarrow> 'os \<Rightarrow> int \<times> 'os"
  sys_listen :: "int \<Rightarrow> int \<Rightarrow> 'os \<Rightarrow> 'os"
  sys_accept :: "int \<Rightarrow> 'os \<Rightarrow> int \<times> sockaddr_in \<times> 'os"
  sys_setsockopt :: "int \<Rightarrow> 'os \<Rightarrow> 'os"
  sys_getsockname :: "int \<Rightarrow> 'os \<Rightarrow> sockaddr_in \<times> 'os"
  sys_shutdown :: "int \<Rightarrow> 'os \<Rightarrow> 'os"
  sys_close :: "int \<Rightarrow> 'os \<Rightarrow> 'os"
  sys_recv :: "int \<Rightarrow> size_t \<Rightarrow> 'os \<Rightarrow> int \<times> byte list \<times> 'os"
  sys_send :: "int \<Rightarrow> byte list \<Rightarrow> 'os \<Rightarrow> int \<times> 'os"
  sys_select :: "int \<Rightarrow> int set \<Rightarrow> int set \<Rightarrow> int \<times> int \<Rightarrow> 'os \<Rightarrow> int \<times> bool \<times> int set \<times> int set \<times> 'os"
  sys_time :: "'os \<Rightarrow> int \<times> 'os"
  sys_alloc :: "size_t \<Rightarrow> 'os \<Rightarrow> bool \<times> 'os"
  sys_realloc :: "'os \<Rightarrow> (nat \<Rightarrow> byte) option \<times> 'os"
  sys_malloc :: "addr set \<Rightarrow> size_t \<Rightarrow> 'os \<Rightarrow> addr option \<times> 'os"
  sys_fds :: "'os \<Rightarrow> int set"

record 'os handlers =
  on_close :: "cb \<Rightarrow> addr \<Rightarrow> 'os world \<Rightarrow> 'os world cres"
  on_read :: "cb \<Rightarrow> addr \<Rightarrow> byte list \<Rightarrow> int \<Rightarrow> 'os world \<Rightarrow> (int \<times> 'os world) cres"
  on_connected :: "cb \<Rightarrow> addr \<Rightarrow> 'os world \<Rightarrow> 'os world cres"
  on_connection :: "cb \<Rightarrow> addr \<Rightarrow> 'os world \<Rightarrow> 'os world cres"

section \<open>Access to the state\<close>

definition put_zs :: "addr \<Rightarrow> zsocket \<Rightarrow> 'os world \<Rightarrow> 'os world" where
  "put_zs s z w = w\<lparr>zs := (zs w)(s \<mapsto> z)\<rparr>"

definition is_set :: "flags \<Rightarrow> zsocket \<Rightarrow> bool" where
  "is_set f z \<longleftrightarrow> state z AND f \<noteq> 0"

text \<open>\<open>qbuf_new\<close> with the allocator of \<open>S\<close>: first the structure, then the buffer.\<close>

definition new_qbuf :: "'os sys \<Rightarrow> size_t \<Rightarrow> 'os \<Rightarrow> qbuf option \<times> 'os" where
  "new_qbuf S sz o1 =
     (let (a1, o2) = sys_alloc S 32 o1;
          (a2, o3) = (if a1 then sys_alloc S sz o2 else (False, o2))
      in (qbuf_new a1 a2 sz, o3))"

end
