(* ===== verification/Zsocket.thy ===== *)
theory Zsocket
  imports Zsocket_State
begin

text \<open>
  The operations of \<open>src/zsocket.c\<close> that the application calls: creating, closing, connecting,
  listening, accepting, starting and stopping to read, writing. Each is a function of the world
  with the guards, stores and calls of the source in their order. \<open>zsocket_close\<close> and
  \<open>__zsocket_close\<close> call each other, so they have fuel; a fuel above the number of listed
  sockets is enough (\<open>Zsocket_Inv\<close>).
\<close>

section \<open>Creating and closing\<close>

definition zsocket_init :: "addr \<Rightarrow> 'os world \<Rightarrow> 'os world cres" where
  "zsocket_init s w =
     (let w = (if \<not> lib_init w
               then w\<lparr>nfds_read := 0, fds_read := {}, nfds_write := 0, fds_write := {}, lib_init := True\<rparr>
               else w) in
      bnd (deref (zs w) s) (\<lambda>z.
      let w = put_zs s init_zsocket w in
      bnd (INIT_LIST_HEAD s (links w)) (\<lambda>l.
      Inr (w\<lparr>links := l\<rparr>))))"

text \<open>
  The same with \<open>__WIN32\<close>: the first call starts the socket library, \<open>startup\<close>, and ends the process
  where that fails (\<open>None\<close>).
\<close>

definition zsocket_init_win :: "('os \<Rightarrow> int \<times> 'os) \<Rightarrow> addr \<Rightarrow> 'os world \<Rightarrow> 'os world cres option" where
  "zsocket_init_win startup s w =
     (let started = (if \<not> lib_init w
        then (let (r, o1) = startup (os w); w = w\<lparr>os := o1\<rparr> in
              if r \<noteq> 0 then None
              else Some (w\<lparr>nfds_read := 0, fds_read := {}, nfds_write := 0, fds_write := {}, lib_init := True\<rparr>))
        else Some w) in
      case started of
        None \<Rightarrow> None
      | Some w \<Rightarrow> Some (
          bnd (deref (zs w) s) (\<lambda>z.
          let w = put_zs s init_zsocket w in
          bnd (INIT_LIST_HEAD s (links w)) (\<lambda>l.
          Inr (w\<lparr>links := l\<rparr>)))))"

text \<open>The last part of \<open>__zsocket_close\<close>: the descriptor, the buffers and the callbacks.\<close>

definition release_zsocket :: "'os sys \<Rightarrow> addr \<Rightarrow> 'os world \<Rightarrow> 'os world cres" where
  "release_zsocket S s w =
     bnd (deref (zs w) s) (\<lambda>z.
     let o1 = sys_shutdown S (fd z) (os w);
         o2 = sys_close S (fd z) o1
     in Inr ((put_zs s (z\<lparr>fd := -1, rbuf := None, wbuf := None, sdata := None, user_data := None,
                 close_cb := None, read_cb := None, connected_cb := None, connection_cb := None\<rparr>) w)
               \<lparr>os := o2\<rparr>))"

text \<open>The first part of \<open>zsocket_close\<close>: out of the descriptor sets, marked, counted.\<close>

definition count_closed :: "zsocket_type \<Rightarrow> zsocket_status \<Rightarrow> zsocket_status" where
  "count_closed t st =
     (let st = st\<lparr>nr_closed := nr_closed st + 1, nr_current := nr_current st - 1\<rparr> in
      case t of
        ZS_T_CLIENT \<Rightarrow> st\<lparr>nr_current_client := nr_current_client st - 1\<rparr>
      | ZS_T_SERVER \<Rightarrow> st\<lparr>nr_current_server := nr_current_server st - 1\<rparr>
      | ZS_T_CONNECTION \<Rightarrow> st\<lparr>nr_current_connection := nr_current_connection st - 1\<rparr>
      | ZS_T_NONE \<Rightarrow> st)"

definition mark_closed :: "addr \<Rightarrow> cb option \<Rightarrow> 'os world \<Rightarrow> 'os world cres" where
  "mark_closed s cb w =
     bnd (deref (zs w) s) (\<lambda>z.
     c_assert (\<not> is_set ZS_S_EOF z) (
     let w = (if nfds_read w = fd z + 1 then w\<lparr>nfds_read := nfds_read w - 1\<rparr> else w) in
     bnd (FD_CLR (fd z) (fds_read w)) (\<lambda>r.
     let w = w\<lparr>fds_read := r\<rparr>;
         w = (if nfds_write w = fd z + 1 then w\<lparr>nfds_write := nfds_write w - 1\<rparr> else w) in
     bnd (FD_CLR (fd z) (fds_write w)) (\<lambda>r.
     let w = w\<lparr>fds_write := r\<rparr>;
         w = put_zs s (z\<lparr>state := state z OR ZS_S_EOF, close_cb := cb\<rparr>) w
     in Inr (w\<lparr>status := count_closed (stype z) (status w)\<rparr>)))))"

function zsocket_close :: "'os sys \<Rightarrow> nat \<Rightarrow> addr \<Rightarrow> cb option \<Rightarrow> 'os world \<Rightarrow> 'os world cres"
  and zsocket_close_now :: "'os sys \<Rightarrow> nat \<Rightarrow> addr \<Rightarrow> 'os world \<Rightarrow> 'os world cres"
  and close_same_port :: "'os sys \<Rightarrow> nat \<Rightarrow> addr \<Rightarrow> addr \<Rightarrow> 'os world \<Rightarrow> 'os world cres" where
  "zsocket_close S k s cb w =
     bnd (mark_closed s cb w) (\<lambda>w.
     if \<not> in_looping w then zsocket_close_now S k s w else Inr w)"
| "zsocket_close_now S k s w =
     bnd (deref (zs w) s) (\<lambda>z.
     c_assert (is_set ZS_S_EOF z) (
     c_assert (stype z \<noteq> ZS_T_NONE) (
     bnd (list_del s (links w)) (\<lambda>l.
     let w = w\<lparr>links := l\<rparr> in
     bnd (if stype z = ZS_T_SERVER
          then bnd (get_nxt socks (links w)) (\<lambda>pos. close_same_port S k pos s w)
          else Inr w) (\<lambda>w.
     release_zsocket S s w)))))"
| "close_same_port S 0 pos s w = Inl No_Fuel"
| "close_same_port S (Suc k) pos s w =
     (if pos = socks then Inr w
      else bnd (deref (zs w) pos) (\<lambda>p.
        bnd (deref (zs w) s) (\<lambda>z.
        bnd (if sin_port (laddr p) = sin_port (laddr z) then zsocket_close S k pos None w else Inr w) (\<lambda>w.
        bnd (get_nxt pos (links w)) (\<lambda>n. close_same_port S k n s w)))))"
  by pat_completeness auto
termination
  by (relation "measure (\<lambda>x. case x of
      Inl (S, k, s, cb, w) \<Rightarrow> 3 * k + 2
    | Inr (Inl (S, k, s, w)) \<Rightarrow> 3 * k + 1
    | Inr (Inr (S, k, pos, s, w)) \<Rightarrow> 3 * k)") auto

section \<open>Connecting, listening, accepting\<close>

definition count_opened :: "zsocket_type \<Rightarrow> zsocket_status \<Rightarrow> zsocket_status" where
  "count_opened t st =
     (let st = st\<lparr>nr_total := nr_total st + 1, nr_current := nr_current st + 1\<rparr> in
      case t of
        ZS_T_CLIENT \<Rightarrow> st\<lparr>nr_current_client := nr_current_client st + 1\<rparr>
      | ZS_T_SERVER \<Rightarrow> st\<lparr>nr_current_server := nr_current_server st + 1\<rparr>
      | ZS_T_CONNECTION \<Rightarrow> st\<lparr>nr_current_connection := nr_current_connection st + 1\<rparr>
      | ZS_T_NONE \<Rightarrow> st)"

definition zsocket_connect ::
  "'os sys \<Rightarrow> 'os handlers \<Rightarrow> addr \<Rightarrow> sockaddr_in \<Rightarrow> cb option \<Rightarrow> 'os world \<Rightarrow> (int \<times> 'os world) cres" where
  "zsocket_connect S H client addr cb w =
     bnd (deref (zs w) client) (\<lambda>z.
     c_assert (\<not> is_set ZS_S_EOF z) (
     let (f, o1) = sys_socket S (os w) in
     if f = -1 then Inr (-1, w\<lparr>os := o1\<rparr>)
     else let (r, o2) = sys_connect S f addr o1 in
     if r = -1 then Inr (-1, w\<lparr>os := sys_close S f o2\<rparr>)
     else
       let o3 = sys_setsockopt S f o2;
           (la, o4) = sys_getsockname S f o3;
           (now, o5) = sys_time S o4;
           z = z\<lparr>fd := f, raddr := addr, laddr := la, stype := ZS_T_CLIENT, tick := now, connected_cb := cb\<rparr>;
           w = (put_zs client z w)\<lparr>os := o5\<rparr> in
       bnd (list_add client socks (links w)) (\<lambda>l.
       let w = w\<lparr>links := l, status := count_opened ZS_T_CLIENT (status w)\<rparr> in
       case cb of
         None \<Rightarrow> Inr (0, w)
       | Some c \<Rightarrow> bnd (on_connected H c client w) (\<lambda>w. Inr (0, w)))))"

text \<open>Adding a descriptor to a set: the bound first, then the bit.\<close>

definition enable_read :: "int \<Rightarrow> 'os world \<Rightarrow> 'os world cres" where
  "enable_read f w =
     (let w = (if nfds_read w < f + 1 then w\<lparr>nfds_read := f + 1\<rparr> else w) in
      bnd (FD_SET f (fds_read w)) (\<lambda>r. Inr (w\<lparr>fds_read := r\<rparr>)))"

definition enable_write :: "int \<Rightarrow> 'os world \<Rightarrow> 'os world cres" where
  "enable_write f w =
     (let w = (if nfds_write w < f + 1 then w\<lparr>nfds_write := f + 1\<rparr> else w) in
      bnd (FD_SET f (fds_write w)) (\<lambda>r. Inr (w\<lparr>fds_write := r\<rparr>)))"

definition zsocket_listen ::
  "'os sys \<Rightarrow> addr \<Rightarrow> sockaddr_in \<Rightarrow> cb option \<Rightarrow> 'os world \<Rightarrow> (int \<times> 'os world) cres" where
  "zsocket_listen S server addr cb w =
     bnd (deref (zs w) server) (\<lambda>z.
     c_assert (\<not> is_set ZS_S_EOF z) (
     c_assert (cb \<noteq> None) (
     let (f, o1) = sys_socket S (os w) in
     if f = -1 then Inr (-1, w\<lparr>os := o1\<rparr>)
     else let (r, o2) = sys_bind S f addr o1 in
     if r = -1 then Inr (-1, w\<lparr>os := sys_close S f o2\<rparr>)
     else
       let o3 = sys_listen S f 100 o2;
           o4 = sys_setsockopt S f o3;
           z = z\<lparr>fd := f, laddr := addr, stype := ZS_T_SERVER, connection_cb := cb\<rparr>;
           w = (put_zs server z w)\<lparr>os := o4\<rparr> in
       bnd (list_add server socks (links w)) (\<lambda>l.
       let w = w\<lparr>links := l, status := count_opened ZS_T_SERVER (status w)\<rparr> in
       bnd (enable_read f w) (\<lambda>w.
       Inr (0, put_zs server (z\<lparr>state := state z OR ZS_S_READ_ENABLE\<rparr>) w))))))"

definition free_zsocket :: "addr \<Rightarrow> 'os world \<Rightarrow> 'os world" where
  "free_zsocket s w = w\<lparr>zs := (zs w)(s := None), links := (links w)(s := None)\<rparr>"

text \<open>\<open>accept\<close> returns the new socket, or \<open>None\<close> for NULL.\<close>

definition zsocket_accept ::
  "'os sys \<Rightarrow> nat \<Rightarrow> addr \<Rightarrow> 'os world \<Rightarrow> (addr option \<times> 'os world) cres" where
  "zsocket_accept S k server w =
     bnd (deref (zs w) server) (\<lambda>sv.
     c_assert (\<not> is_set ZS_S_EOF sv) (
     let (a, o1) = sys_malloc S (dom (links w)) SIZEOF_ZSOCKET (os w) in
     case a of
       None \<Rightarrow> Inr (None, w\<lparr>os := o1\<rparr>)
     | Some conn \<Rightarrow>
       let w = (put_zs conn zero_zsocket w)\<lparr>links := (links w)(conn \<mapsto> \<lparr>prv = 0, nxt = 0\<rparr>), os := o1\<rparr> in
       bnd (zsocket_init conn w) (\<lambda>w.
       let (f, ra, o2) = sys_accept S (fd sv) (os w);
           w = w\<lparr>os := o2\<rparr> in
       if f = -1
       then bnd (zsocket_close_now S k conn w) (\<lambda>w. Inr (None, free_zsocket conn w))
       else
         let o3 = sys_setsockopt S f o2;
             (la, o4) = sys_getsockname S f o3;
             (now, o5) = sys_time S o4 in
         bnd (deref (zs w) conn) (\<lambda>z.
         let z = z\<lparr>fd := f, raddr := ra, laddr := la, stype := ZS_T_CONNECTION, tick := now\<rparr>;
             w = (put_zs conn z w)\<lparr>os := o5\<rparr> in
         bnd (list_add conn socks (links w)) (\<lambda>l.
         Inr (Some conn, w\<lparr>links := l, status := count_opened ZS_T_CONNECTION (status w)\<rparr>))))))"

section \<open>Queries and application data\<close>

definition zsocket_iseof :: "addr \<Rightarrow> 'os world \<Rightarrow> flags cres" where
  "zsocket_iseof s w = bnd (deref (zs w) s) (\<lambda>z. Inr (state z AND ZS_S_EOF))"

definition zsocket_sdata :: "addr \<Rightarrow> 'os world \<Rightarrow> addr option cres" where
  "zsocket_sdata s w = bnd (deref (zs w) s) (\<lambda>z. Inr (sdata z))"

definition zsocket_sdata_alloc ::
  "'os sys \<Rightarrow> addr \<Rightarrow> size_t \<Rightarrow> 'os world \<Rightarrow> (addr option \<times> 'os world) cres" where
  "zsocket_sdata_alloc S s len w =
     bnd (deref (zs w) s) (\<lambda>z.
     if sdata z \<noteq> None then Inr (None, w)
     else let (a, o1) = sys_malloc S (dom (links w)) len (os w) in
       Inr (a, (put_zs s (z\<lparr>sdata := a\<rparr>) w)\<lparr>os := o1\<rparr>))"

definition zsocket_sdata_free :: "addr \<Rightarrow> 'os world \<Rightarrow> 'os world cres" where
  "zsocket_sdata_free s w = bnd (deref (zs w) s) (\<lambda>z. Inr (put_zs s (z\<lparr>sdata := None\<rparr>) w))"

section \<open>Reading and writing\<close>

definition zsocket_read_start :: "addr \<Rightarrow> cb option \<Rightarrow> 'os world \<Rightarrow> 'os world cres" where
  "zsocket_read_start s cb w =
     bnd (deref (zs w) s) (\<lambda>z.
     c_assert (\<not> is_set ZS_S_EOF z) (
     c_assert (\<not> is_set ZS_S_READ_ENABLE z) (
     c_assert (cb \<noteq> None) (
     bnd (enable_read (fd z) w) (\<lambda>w.
     Inr (put_zs s (z\<lparr>state := state z OR ZS_S_READ_ENABLE, read_cb := cb\<rparr>) w))))))"

definition zsocket_read_stop :: "addr \<Rightarrow> 'os world \<Rightarrow> 'os world cres" where
  "zsocket_read_stop s w =
     bnd (deref (zs w) s) (\<lambda>z.
     c_assert (\<not> is_set ZS_S_EOF z) (
     c_assert (is_set ZS_S_READ_ENABLE z) (
     let w = (if nfds_read w = fd z + 1 then w\<lparr>nfds_read := nfds_read w - 1\<rparr> else w) in
     bnd (FD_CLR (fd z) (fds_read w)) (\<lambda>r.
     let w = w\<lparr>fds_read := r\<rparr> in
     Inr (put_zs s (z\<lparr>state := state z AND NOT ZS_S_READ_ENABLE, read_cb := None\<rparr>) w)))))"

text \<open>
  The write of \<open>zsocket_write\<close> into the queue \<open>wbuf\<close>, and the operation. Its \<open>-1\<close> is the
  largest \<open>size_t\<close>.
\<close>

definition write_wbuf ::
  "'os sys \<Rightarrow> addr \<Rightarrow> byte list \<Rightarrow> size_t \<Rightarrow> zsocket \<Rightarrow> 'os world \<Rightarrow> (size_t \<times> 'os world) cres" where
  "write_wbuf S s buf len z w =
     (case wbuf z of
        None \<Rightarrow> Inl Bad_Pointer
      | Some q \<Rightarrow>
          let (ra, o2) = sys_realloc S (os w) in
          bnd (qbuf_write ra buf len q) (\<lambda>(n, q).
          Inr (n, (put_zs s (z\<lparr>wbuf := Some q\<rparr>) w)\<lparr>os := o2\<rparr>)))"

definition zsocket_write ::
  "'os sys \<Rightarrow> addr \<Rightarrow> byte list \<Rightarrow> size_t \<Rightarrow> 'os world \<Rightarrow> (size_t \<times> 'os world) cres" where
  "zsocket_write S s buf len w =
     bnd (deref (zs w) s) (\<lambda>z.
     c_assert (\<not> is_set ZS_S_EOF z) (
     if \<not> is_set ZS_S_WRITE_ENABLE z then
       c_assert (wbuf z = None) (
       let (b, o1) = new_qbuf S WRITE_BUF_SIZE (os w);
           z = z\<lparr>wbuf := b\<rparr>;
           w = (put_zs s z w)\<lparr>os := o1\<rparr> in
       if b = None then Inr (-1, w)
       else
         bnd (enable_write (fd z) w) (\<lambda>w.
         let z = z\<lparr>state := state z OR ZS_S_WRITE_ENABLE\<rparr> in
         write_wbuf S s buf len z (put_zs s z w)))
     else write_wbuf S s buf len z w))"

text \<open>The counters; the source hands out the address of the variable.\<close>

definition zsocket_status_get :: "'os world \<Rightarrow> zsocket_status" where
  "zsocket_status_get w = status w"

end
