(* ===== verification/Zsocket_Loop.thy ===== *)
theory Zsocket_Loop
  imports Zsocket
begin

text \<open>
  The event loop of \<open>src/zsocket.c\<close>: the handlers of a readable and of a writable socket, one
  \<open>select\<close> and the walk over the listed sockets (\<open>zsocket_poll\<close>), the sweep that closes expired
  and marked sockets (\<open>zsocket_do_close\<close>), and \<open>zsocket_loop\<close>, which runs both.
\<close>

section \<open>A readable socket\<close>

text \<open>
  The \<open>recv\<close> of \<open>zsocket_handle_recv\<close> into the spare room of the queue. The error branch
  is the source's \<open>&=\<close>.
\<close>

definition recv_into :: "'os sys \<Rightarrow> zsocket \<Rightarrow> qbuf \<Rightarrow> 'os \<Rightarrow> (zsocket \<times> 'os) cres" where
  "recv_into S z q o1 =
     (let (n, bs, o2) = sys_recv S (fd z) (qbuf_spare q) o1;
          nrecv = to_int n in
      bnd (if 0 < n then wr (rawbuf q) (qbuf_rawbuf_in_pos q) bs else Inr (rawbuf q)) (\<lambda>raw.
      let q = q\<lparr>rawbuf := raw\<rparr>;
          z = z\<lparr>rbuf := Some q\<rparr>;
          z = (if nrecv = -1 then z\<lparr>state := state z AND ZS_S_READ_FAILED\<rparr>
               else if nrecv > 0 then z\<lparr>rbuf := Some (snd (qbuf_offset_in_head (word_of_int nrecv) q))\<rparr>
               else z);
          (now, o3) = sys_time S o2
      in Inr (z\<lparr>tick := now\<rparr>, o3)))"

text \<open>The part after the callback: what it consumed leaves the queue, a full queue grows.\<close>

definition consume :: "size_t \<Rightarrow> qbuf \<Rightarrow> qbuf cres" where
  "consume nr q =
     (if nr \<noteq> 0
      then bnd (qbuf_collect QBUF_COLLECT_POLICY_LESS_SPARE (snd (qbuf_offset_out_head nr q))) (\<lambda>(_, q). Inr q)
      else Inr q)"

definition after_read ::
  "'os sys \<Rightarrow> nat \<Rightarrow> addr \<Rightarrow> size_t \<Rightarrow> 'os world \<Rightarrow> 'os world cres" where
  "after_read S k s nr w =
     bnd (deref (zs w) s) (\<lambda>z.
     case rbuf z of
       None \<Rightarrow> Inl Bad_Pointer
     | Some q \<Rightarrow>
         bnd (consume nr q) (\<lambda>q.
         if qbuf_spare q \<noteq> 0 then Inr (put_zs s (z\<lparr>rbuf := Some q\<rparr>) w)
         else
           let (ra, o1) = sys_realloc S (os w) in
           bnd (qbuf_realloc ra (push_bit 1 (qbuf_size q)) q) (\<lambda>(r, q).
           let z = z\<lparr>rbuf := Some q\<rparr>; w = w\<lparr>os := o1\<rparr> in
           if r \<noteq> 0
           then zsocket_close S k s None (put_zs s (z\<lparr>state := state z AND ZS_S_RBUF_RUNOUT\<rparr>) w)
           else Inr (put_zs s z w))))"

definition zsocket_handle_recv ::
  "'os sys \<Rightarrow> 'os handlers \<Rightarrow> nat \<Rightarrow> addr \<Rightarrow> 'os world \<Rightarrow> 'os world cres" where
  "zsocket_handle_recv S H k s w =
     bnd (deref (zs w) s) (\<lambda>z.
     c_assert (stype z \<noteq> ZS_T_NONE) (
     c_assert (\<not> is_set ZS_S_EOF z) (
     c_assert (is_set ZS_S_READ_ENABLE z) (
     if stype z = ZS_T_SERVER then
       (case connection_cb z of
          None \<Rightarrow> Inl Assert_Failed
        | Some c \<Rightarrow> on_connection H c s w)
     else
       let (b, o1) = (case rbuf z of Some q \<Rightarrow> (Some q, os w) | None \<Rightarrow> new_qbuf S READ_BUF_SIZE (os w)) in
       case b of
         None \<Rightarrow> Inr (w\<lparr>os := o1\<rparr>)
       | Some q \<Rightarrow>
         bnd (recv_into S z q o1) (\<lambda>(z, o2).
         let w = (put_zs s z w)\<lparr>os := o2\<rparr> in
         case read_cb z of
           None \<Rightarrow> Inl Assert_Failed
         | Some c \<Rightarrow>
           (case rbuf z of
              None \<Rightarrow> Inl Bad_Pointer
            | Some q \<Rightarrow>
              bnd (rd (rawbuf q) (qbuf_rawbuf_out_pos q) (unat (qbuf_used q))) (\<lambda>buf.
              let len = qbuf_used q in
              bnd (on_read H c s buf (to_int (uint len)) w) (\<lambda>(nr, w).
              c_assert (nr \<ge> 0) (
              let nr = (if word_of_int nr > len then len else word_of_int nr) in
              after_read S k s nr w)))))))))"

section \<open>A writable socket\<close>

definition zsocket_handle_send :: "'os sys \<Rightarrow> nat \<Rightarrow> addr \<Rightarrow> 'os world \<Rightarrow> 'os world cres" where
  "zsocket_handle_send S k s w =
     bnd (deref (zs w) s) (\<lambda>z.
     c_assert (stype z \<noteq> ZS_T_NONE) (
     c_assert (\<not> is_set ZS_S_EOF z) (
     c_assert (is_set ZS_S_WRITE_ENABLE z) (
     case wbuf z of
       None \<Rightarrow> Inl Assert_Failed
     | Some q \<Rightarrow>
       if qbuf_used q = 0 then Inr w
       else
         bnd (rd (rawbuf q) (qbuf_rawbuf_out_pos q) (unat (qbuf_used q))) (\<lambda>buf.
         let (n, o1) = sys_send S (fd z) buf (os w);
             nsend = to_int n;
             w = w\<lparr>os := o1\<rparr> in
         if nsend = -1
         then zsocket_close S k s None (put_zs s (z\<lparr>state := state z AND ZS_S_WRITE_FAILED\<rparr>) w)
         else if nsend > 0
         then
           let q = snd (qbuf_offset_out_head (word_of_int nsend) q) in
           bnd (qbuf_collect QBUF_COLLECT_POLICY_LESS_SPARE q) (\<lambda>(_, q).
           let z = z\<lparr>wbuf := Some q\<rparr> in
           if qbuf_spare q = 0
           then zsocket_close S k s None (put_zs s (z\<lparr>state := state z AND ZS_S_WBUF_RUNOUT\<rparr>) w)
           else Inr (put_zs s z w))
         else Inr w)))))"

section \<open>Polling\<close>

text \<open>
  The walk over the list of \<open>zsocket_poll\<close>: \<open>nsel\<close> is \<open>nfds_selected\<close>, the walk ends early when
  as many sockets were handled as \<open>select\<close> counted. The descriptor is read again for the second
  test, since the first handler ran in between.
\<close>

fun poll_walk ::
  "'os sys \<Rightarrow> 'os handlers \<Rightarrow> nat \<Rightarrow> addr \<Rightarrow> int set \<Rightarrow> int set \<Rightarrow> int \<Rightarrow> 'os world \<Rightarrow> 'os world cres" where
  "poll_walk S H 0 pos rs ws nsel w = Inl No_Fuel"
| "poll_walk S H (Suc k) pos rs ws nsel w =
     (if pos = socks then Inr w
      else
        bnd (deref (zs w) pos) (\<lambda>z.
        bnd (FD_ISSET (fd z) rs) (\<lambda>r.
        bnd (if r then zsocket_handle_recv S H k pos w else Inr w) (\<lambda>w.
        bnd (deref (zs w) pos) (\<lambda>z.
        bnd (FD_ISSET (fd z) ws) (\<lambda>s.
        bnd (if s then zsocket_handle_send S k pos w else Inr w) (\<lambda>w.
        if (r \<or> s) \<and> nsel - 1 = 0 then Inr w
        else
          bnd (get_nxt pos (links w)) (\<lambda>n.
          poll_walk S H k n rs ws (if r \<or> s then nsel - 1 else nsel) w))))))))"

definition zsocket_poll ::
  "'os sys \<Rightarrow> 'os handlers \<Rightarrow> nat \<Rightarrow> int \<Rightarrow> 'os world \<Rightarrow> (int \<times> 'os world) cres" where
  "zsocket_poll S H k timeout w =
     (let nfds = (if nfds_read w > nfds_write w then nfds_read w else nfds_write w);
          (nsel, eintr, rs, ws, o1) =
            sys_select S nfds (fds_read w) (fds_write w) (timeval_of timeout) (os w);
          w = w\<lparr>os := o1\<rparr> in
      if nsel = 0 then Inr (0, w)
      else if nsel = -1 then (if eintr then Inr (0, w) else Inr (-1, w))
      else
        bnd (get_nxt socks (links w)) (\<lambda>pos.
        bnd (poll_walk S H k pos rs ws nsel w) (\<lambda>w. Inr (0, w))))"

section \<open>The sweep\<close>

text \<open>The body of the loop of \<open>zsocket_do_close\<close>: first the timeout, then the marked socket.\<close>

definition expire :: "'os sys \<Rightarrow> nat \<Rightarrow> addr \<Rightarrow> 'os world \<Rightarrow> 'os world cres" where
  "expire S k pos w =
     bnd (deref (zs w) pos) (\<lambda>z.
     if stype z = ZS_T_CONNECTION then
       let (now, o1) = sys_time S (os w); w = w\<lparr>os := o1\<rparr> in
       if now - tick z > stall z
       then zsocket_close S k pos None (put_zs pos (z\<lparr>state := state z AND ZS_S_TIMEOUT\<rparr>) w)
       else Inr w
     else Inr w)"

definition sweep :: "'os sys \<Rightarrow> 'os handlers \<Rightarrow> nat \<Rightarrow> addr \<Rightarrow> 'os world \<Rightarrow> 'os world cres" where
  "sweep S H k pos w =
     bnd (deref (zs w) pos) (\<lambda>z.
     if is_set ZS_S_EOF z then
       bnd (zsocket_close_now S k pos w) (\<lambda>w.
       bnd (deref (zs w) pos) (\<lambda>z.
       bnd (case close_cb z of Some c \<Rightarrow> on_close H c pos w | None \<Rightarrow> Inr w) (\<lambda>w.
       bnd (deref (zs w) pos) (\<lambda>z.
       if stype z = ZS_T_CONNECTION then Inr (free_zsocket pos w) else Inr w))))
     else Inr w)"

fun do_close_walk ::
  "'os sys \<Rightarrow> 'os handlers \<Rightarrow> nat \<Rightarrow> addr \<Rightarrow> addr \<Rightarrow> 'os world \<Rightarrow> 'os world cres" where
  "do_close_walk S H 0 pos n w = Inl No_Fuel"
| "do_close_walk S H (Suc k) pos n w =
     (if pos = socks then Inr w
      else
        bnd (expire S k pos w) (\<lambda>w.
        bnd (sweep S H k pos w) (\<lambda>w.
        bnd (get_nxt n (links w)) (\<lambda>n'.
        do_close_walk S H k n n' w))))"

definition zsocket_do_close :: "'os sys \<Rightarrow> 'os handlers \<Rightarrow> nat \<Rightarrow> 'os world \<Rightarrow> 'os world cres" where
  "zsocket_do_close S H k w =
     bnd (get_nxt socks (links w)) (\<lambda>pos.
     bnd (get_nxt pos (links w)) (\<lambda>n.
     do_close_walk S H k pos n w))"

section \<open>One round of the loop\<close>

definition zsocket_loop ::
  "'os sys \<Rightarrow> 'os handlers \<Rightarrow> nat \<Rightarrow> int \<Rightarrow> 'os world \<Rightarrow> (int \<times> 'os world) cres" where
  "zsocket_loop S H k timeout w =
     bnd (zsocket_poll S H k timeout (w\<lparr>in_looping := True\<rparr>)) (\<lambda>(r, w).
     if r = -1 then Inr (-1, w)
     else bnd (zsocket_do_close S H k w) (\<lambda>w. Inr (0, w\<lparr>in_looping := False\<rparr>)))"

end
