(* ===== verification/Zsocket_Inv.thy ===== *)
theory Zsocket_Inv
  imports Zsocket_Loop
begin

text \<open>
  The invariant of the socket library and its preservation by the operations. \<open>zinv S xs w\<close>
  says: the list of \<open>w\<close> holds \<open>xs\<close>; every listed socket is well formed (\<open>sock_ok\<close>); listed sockets
  have distinct open descriptors; the descriptor sets hold exactly the enabled sockets and stay
  below their bounds; the counters of \<open>zsocket_status\<close> count the listed sockets that are not
  marked closed. Three lemmas carry the proofs: one socket changes (\<open>zinv_update\<close>), one is
  added (\<open>zinv_add\<close>), one is taken out (\<open>zinv_remove\<close>).
\<close>

section \<open>The documented behaviour of the system calls\<close>

text \<open>
  \<open>socket\<close> and \<open>accept\<close> fail or open a new descriptor below the limit of the process, which is
  assumed not above \<open>FD_SETSIZE\<close>; \<open>close\<close> closes the one it is given; no other call opens or
  closes one. \<open>recv\<close> and \<open>send\<close> fail or move at most what was asked for. \<open>select\<close> leaves subsets.
  \<open>malloc\<close> fails or gives an address not in use, which is neither NULL nor a list poison.
\<close>

definition new_fd :: "'os sys \<Rightarrow> int \<Rightarrow> 'os \<Rightarrow> 'os \<Rightarrow> bool" where
  "new_fd S f o1 o2 \<longleftrightarrow>
     f = -1 \<and> sys_fds S o2 = sys_fds S o1 \<or>
     0 \<le> f \<and> f < FD_SETSIZE \<and> f \<notin> sys_fds S o1 \<and> sys_fds S o2 = insert f (sys_fds S o1)"

definition sys_ok :: "'os sys \<Rightarrow> bool" where
  "sys_ok S \<longleftrightarrow>
     (\<forall>o1. new_fd S (fst (sys_socket S o1)) o1 (snd (sys_socket S o1))) \<and>
     (\<forall>f o1. new_fd S (fst (sys_accept S f o1)) o1 (snd (snd (sys_accept S f o1)))) \<and>
     (\<forall>f a o1. sys_fds S (snd (sys_connect S f a o1)) = sys_fds S o1) \<and>
     (\<forall>f a o1. sys_fds S (snd (sys_bind S f a o1)) = sys_fds S o1) \<and>
     (\<forall>f n o1. sys_fds S (sys_listen S f n o1) = sys_fds S o1) \<and>
     (\<forall>f o1. sys_fds S (sys_setsockopt S f o1) = sys_fds S o1) \<and>
     (\<forall>f o1. sys_fds S (snd (sys_getsockname S f o1)) = sys_fds S o1) \<and>
     (\<forall>f o1. sys_fds S (sys_shutdown S f o1) = sys_fds S o1) \<and>
     (\<forall>f o1. sys_fds S (sys_close S f o1) = sys_fds S o1 - {f}) \<and>
     (\<forall>f n o1. sys_fds S (snd (snd (sys_recv S f n o1))) = sys_fds S o1) \<and>
     (\<forall>f n o1. let r = sys_recv S f n o1 in fst r = -1 \<or> 0 \<le> fst r \<and> fst r \<le> uint n \<and> int (length (fst (snd r))) = fst r) \<and>
     (\<forall>f b o1. sys_fds S (snd (sys_send S f b o1)) = sys_fds S o1) \<and>
     (\<forall>f b o1. fst (sys_send S f b o1) = -1 \<or> 0 \<le> fst (sys_send S f b o1) \<and> fst (sys_send S f b o1) \<le> int (length b)) \<and>
     (\<forall>n R W t o1. case sys_select S n R W t o1 of (c, e, R', W', o2) \<Rightarrow>
        R' \<subseteq> R \<and> W' \<subseteq> W \<and> sys_fds S o2 = sys_fds S o1) \<and>
     (\<forall>o1. sys_fds S (snd (sys_time S o1)) = sys_fds S o1) \<and>
     (\<forall>n o1. sys_fds S (snd (sys_alloc S n o1)) = sys_fds S o1) \<and>
     (\<forall>o1. sys_fds S (snd (sys_realloc S o1)) = sys_fds S o1) \<and>
     (\<forall>A n o1. sys_fds S (snd (sys_malloc S A n o1)) = sys_fds S o1) \<and>
     (\<forall>A n o1 a. fst (sys_malloc S A n o1) = Some a \<longrightarrow> a \<notin> A \<union> {0, LIST_POISON1, LIST_POISON2})"

section \<open>The invariant\<close>

abbreviation live :: "zsocket \<Rightarrow> bool" where "live z \<equiv> \<not> is_set ZS_S_EOF z"

definition buf_ok :: "qbuf option \<Rightarrow> bool" where
  "buf_ok b = (case b of None \<Rightarrow> True | Some q \<Rightarrow> qbuf_inv q)"

definition sock_ok :: "int set \<Rightarrow> int set \<Rightarrow> zsocket \<Rightarrow> bool" where
  "sock_ok R W z \<longleftrightarrow>
     stype z \<noteq> ZS_T_NONE \<and> 0 \<le> fd z \<and> fd z < FD_SETSIZE \<and> buf_ok (rbuf z) \<and> buf_ok (wbuf z) \<and>
     (if live z then
        (fd z \<in> R \<longleftrightarrow> is_set ZS_S_READ_ENABLE z) \<and>
        (fd z \<in> W \<longleftrightarrow> is_set ZS_S_WRITE_ENABLE z) \<and>
        (is_set ZS_S_WRITE_ENABLE z \<longleftrightarrow> wbuf z \<noteq> None) \<and>
        (if stype z = ZS_T_SERVER then is_set ZS_S_READ_ENABLE z \<and> connection_cb z \<noteq> None
         else is_set ZS_S_READ_ENABLE z \<longrightarrow> read_cb z \<noteq> None)
      else fd z \<notin> R \<and> fd z \<notin> W)"

text \<open>Descriptor bounds: what is in a set is below the bound handed to \<open>select\<close>.\<close>

definition below :: "int set \<Rightarrow> int \<Rightarrow> bool" where
  "below A n \<longleftrightarrow> 0 \<le> n \<and> (\<forall>f \<in> A. 0 \<le> f \<and> f < n)"

definition n_live :: "zsocket_type \<Rightarrow> (addr \<rightharpoonup> zsocket) \<Rightarrow> addr list \<Rightarrow> int" where
  "n_live t m xs =
     int (length (filter (\<lambda>x. case m x of None \<Rightarrow> False | Some z \<Rightarrow> stype z = t \<and> live z) xs))"

definition stat_ok :: "zsocket_status \<Rightarrow> (addr \<rightharpoonup> zsocket) \<Rightarrow> addr list \<Rightarrow> bool" where
  "stat_ok st m xs \<longleftrightarrow>
     nr_current_client st = n_live ZS_T_CLIENT m xs \<and>
     nr_current_server st = n_live ZS_T_SERVER m xs \<and>
     nr_current_connection st = n_live ZS_T_CONNECTION m xs \<and>
     nr_current st = nr_current_client st + nr_current_server st + nr_current_connection st \<and>
     nr_total st = nr_current st + nr_closed st"

definition list_ok :: "addr list \<Rightarrow> 'os world \<Rightarrow> bool" where
  "list_ok xs w \<longleftrightarrow>
     ring (links w) socks xs \<and> dom (links w) = insert socks (dom (zs w)) \<and> socks \<notin> dom (zs w) \<and>
     dom (links w) \<inter> {0, LIST_POISON1, LIST_POISON2} = {} \<and> (lib_init w \<or> xs = [])"

definition fds_ok :: "'os sys \<Rightarrow> addr list \<Rightarrow> 'os world \<Rightarrow> bool" where
  "fds_ok S xs w \<longleftrightarrow>
     (\<forall>x \<in> set xs. \<exists>z. zs w x = Some z \<and> sock_ok (fds_read w) (fds_write w) z \<and> fd z \<in> sys_fds S (os w)) \<and>
     (\<forall>x \<in> set xs. \<forall>y \<in> set xs. \<forall>z z'. zs w x = Some z \<longrightarrow> zs w y = Some z' \<longrightarrow> fd z = fd z' \<longrightarrow> x = y) \<and>
     (\<forall>f \<in> fds_read w \<union> fds_write w. \<exists>x \<in> set xs. \<exists>z. zs w x = Some z \<and> fd z = f) \<and>
     below (fds_read w) (nfds_read w) \<and> below (fds_write w) (nfds_write w)"

definition zinv :: "'os sys \<Rightarrow> addr list \<Rightarrow> 'os world \<Rightarrow> bool" where
  "zinv S xs w \<longleftrightarrow> list_ok xs w \<and> fds_ok S xs w \<and> stat_ok (status w) (zs w) xs"

section \<open>Flags\<close>

lemmas flag_defs = ZS_S_EOF_def ZS_S_TIMEOUT_def ZS_S_READ_ENABLE_def ZS_S_WRITE_ENABLE_def
  ZS_S_READ_FAILED_def ZS_S_WRITE_FAILED_def ZS_S_RBUF_RUNOUT_def ZS_S_WBUF_RUNOUT_def

named_theorems flag_simps \<open>testing, setting and clearing state bits\<close>

lemma and_or_flag: "(x OR f) AND g = 0 \<longleftrightarrow> x AND g = 0 \<and> f AND g = (0 :: flags)"
  by (simp add: bit.conj_disj_distrib2 or_eq_0_iff)

lemma flag_or [flag_simps]: "(x OR f) AND g \<noteq> 0 \<longleftrightarrow> x AND g \<noteq> 0 \<or> f AND g \<noteq> (0 :: flags)"
  by (simp add: and_or_flag)

lemma flag_and [flag_simps]: "f AND g = (0 :: flags) \<Longrightarrow> (x AND f) AND g = 0"
  by (simp add: and.assoc)

lemma flag_clear [flag_simps]: "(x AND NOT f) AND f = (0 :: flags)"
  by (simp add: and.assoc)

lemma flag_clear_unset: "x AND f = (0 :: flags) \<Longrightarrow> (x OR f) AND NOT f = x"
  by (simp add: bit_eq_iff bit_simps) blast

lemma flag_clear_other [flag_simps]:
  assumes "f AND g = (0 :: flags)"
  shows "(x AND NOT f) AND g = x AND g"
proof -
  have "g = (NOT f AND g) OR (f AND g)" by (simp add: bit_eq_iff bit_simps) blast
  with assms have "NOT f AND g = g" by simp
  then show ?thesis by (simp add: and.assoc)
qed

lemma flag_const [flag_simps]:
  "ZS_S_EOF \<noteq> 0" "ZS_S_READ_ENABLE \<noteq> 0" "ZS_S_WRITE_ENABLE \<noteq> 0"
  "ZS_S_EOF AND ZS_S_READ_ENABLE = 0" "ZS_S_EOF AND ZS_S_WRITE_ENABLE = 0"
  "ZS_S_READ_ENABLE AND ZS_S_EOF = 0" "ZS_S_READ_ENABLE AND ZS_S_WRITE_ENABLE = 0"
  "ZS_S_WRITE_ENABLE AND ZS_S_EOF = 0" "ZS_S_WRITE_ENABLE AND ZS_S_READ_ENABLE = 0"
  "ZS_S_TIMEOUT AND ZS_S_EOF = 0" "ZS_S_TIMEOUT AND ZS_S_READ_ENABLE = 0"
  "ZS_S_READ_FAILED AND ZS_S_EOF = 0" "ZS_S_READ_FAILED AND ZS_S_READ_ENABLE = 0"
  "ZS_S_READ_FAILED AND ZS_S_WRITE_ENABLE = 0" "ZS_S_WRITE_FAILED AND ZS_S_EOF = 0"
  "ZS_S_RBUF_RUNOUT AND ZS_S_EOF = 0" "ZS_S_WBUF_RUNOUT AND ZS_S_EOF = 0"
  by (simp_all add: flag_defs)

section \<open>Counting live sockets\<close>

definition counts :: "zsocket_type \<Rightarrow> zsocket option \<Rightarrow> int" where
  "counts t m = (case m of None \<Rightarrow> 0 | Some z \<Rightarrow> if stype z = t \<and> live z then 1 else 0)"

lemma n_live_sum: "n_live t m xs = sum_list (map (\<lambda>x. counts t (m x)) xs)"
  by (induction xs) (auto simp: n_live_def counts_def split: option.splits)

lemma n_live_off: "s \<notin> set xs \<Longrightarrow> n_live t (m(s := v)) xs = n_live t m xs"
  unfolding n_live_sum by (rule arg_cong [where f = sum_list], rule map_cong) auto

lemma n_live_Cons: "n_live t m (x # xs) = counts t (m x) + n_live t m xs"
  by (simp add: n_live_sum)

lemma n_live_split:
  assumes "distinct xs" and "s \<in> set xs"
  shows "n_live t m xs = counts t (m s) + n_live t m (remove1 s xs)"
  using assms by (induction xs) (auto simp: n_live_Cons)

lemma n_live_upd:
  assumes "distinct xs" and "s \<in> set xs"
  shows "n_live t (m(s := v)) xs = n_live t m xs - counts t (m s) + counts t v"
  using assms n_live_off [of s "remove1 s xs" t m v]
  by (simp add: n_live_split [OF assms, of t m] n_live_split [OF assms, of t "m(s := v)"])

lemma stat_ok_mark:
  assumes "stat_ok st m xs" and "distinct xs" and "s \<in> set xs" and "m s = Some z" and "live z"
    and "\<not> live z'" and "stype z \<noteq> ZS_T_NONE"
  shows "stat_ok (count_closed (stype z) st) (m(s \<mapsto> z')) xs"
  using assms
  by (cases "stype z") (auto simp: stat_ok_def count_closed_def n_live_upd counts_def Let_def)

lemma stat_ok_keep:
  assumes "stat_ok st m xs" and "distinct xs" and "s \<in> set xs" and "m s = Some z"
    and "live z' = live z" and "stype z' = stype z"
  shows "stat_ok st (m(s \<mapsto> z')) xs"
proof -
  have "n_live t (m(s \<mapsto> z')) xs = n_live t m xs" for t
    using assms by (simp add: n_live_upd counts_def)
  with assms(1) show ?thesis by (simp add: stat_ok_def)
qed

lemma stat_ok_add:
  assumes "stat_ok st m xs" and "s \<notin> set xs" and "live z" and "stype z \<noteq> ZS_T_NONE"
  shows "stat_ok (count_opened (stype z) st) (m(s \<mapsto> z)) (s # xs)"
  using assms
  by (cases "stype z") (auto simp: stat_ok_def count_opened_def n_live_Cons n_live_off counts_def Let_def)

lemma stat_ok_off: "stat_ok st m xs \<Longrightarrow> s \<notin> set xs \<Longrightarrow> stat_ok st (m(s := v)) xs"
  by (simp add: stat_ok_def n_live_off)

lemma stat_ok_remove:
  assumes "stat_ok st m xs" and "distinct xs" and "s \<in> set xs" and "m s = Some z" and "\<not> live z"
  shows "stat_ok st m (remove1 s xs)"
proof -
  have "n_live t m xs = n_live t m (remove1 s xs)" for t
    using assms by (simp add: n_live_split counts_def)
  with assms(1) show ?thesis by (simp add: stat_ok_def)
qed

section \<open>Frames\<close>

lemma sock_ok_cong:
  "(fd z \<in> R \<longleftrightarrow> fd z \<in> R') \<Longrightarrow> (fd z \<in> W \<longleftrightarrow> fd z \<in> W') \<Longrightarrow> sock_ok R W z \<Longrightarrow> sock_ok R' W' z"
  by (auto simp: sock_ok_def split: if_splits)

lemma zinv_distinct: "zinv S xs w \<Longrightarrow> distinct xs \<and> socks \<notin> set xs"
  by (auto simp: zinv_def list_ok_def dest: ring_distinct)

lemma zinv_listed:
  assumes "zinv S xs w" and "s \<in> set xs"
  obtains z where "zs w s = Some z" "sock_ok (fds_read w) (fds_write w) z" "fd z \<in> sys_fds S (os w)"
  using assms unfolding zinv_def fds_ok_def by blast

lemma zinv_fd_inj:
  "zinv S xs w \<Longrightarrow> x \<in> set xs \<Longrightarrow> y \<in> set xs \<Longrightarrow> zs w x = Some z \<Longrightarrow> zs w y = Some z' \<Longrightarrow>
     fd z = fd z' \<Longrightarrow> x = y"
  unfolding zinv_def fds_ok_def by blast

lemma zinv_fd_listed:
  "zinv S xs w \<Longrightarrow> f \<in> fds_read w \<union> fds_write w \<Longrightarrow> \<exists>x \<in> set xs. \<exists>z. zs w x = Some z \<and> fd z = f"
  unfolding zinv_def fds_ok_def by blast

text \<open>
  What a change of one descriptor \<open>f\<close> leaves as it was: a listed socket with another one, and what
  else the descriptor sets hold.
\<close>

lemma listed_frame:
  assumes inv: "zinv S xs w" and x: "x \<in> set xs" "zs w x = Some y" "fd y \<noteq> f"
    and R: "fds_read w' - {f} = fds_read w - {f}" and W: "fds_write w' - {f} = fds_write w - {f}"
    and o: "sys_fds S (os w) - {f} \<subseteq> sys_fds S (os w')"
  shows "sock_ok (fds_read w') (fds_write w') y \<and> fd y \<in> sys_fds S (os w')"
proof -
  have y: "sock_ok (fds_read w) (fds_write w) y" "fd y \<in> sys_fds S (os w)"
    using zinv_listed [OF inv x(1)] x(2) by auto
  have "fd y \<in> fds_read w \<longleftrightarrow> fd y \<in> fds_read w'" "fd y \<in> fds_write w \<longleftrightarrow> fd y \<in> fds_write w'"
    using R W x(3) by blast+
  from sock_ok_cong [OF this y(1)] y(2) x(3) o show ?thesis by blast
qed

lemma listed_fds:
  assumes inv: "zinv S xs w" and g: "g \<in> fds_read w' \<union> fds_write w'" "g \<noteq> f"
    and R: "fds_read w' - {f} = fds_read w - {f}" and W: "fds_write w' - {f} = fds_write w - {f}"
  obtains x y where "x \<in> set xs" "zs w x = Some y" "fd y = g"
proof -
  have "g \<in> fds_read w \<union> fds_write w" using g R W by blast
  with zinv_fd_listed [OF inv] that show thesis by blast
qed

lemma fds_okI:
  assumes "\<And>x. x \<in> set xs \<Longrightarrow> \<exists>z. zs w x = Some z \<and> sock_ok (fds_read w) (fds_write w) z \<and> fd z \<in> sys_fds S (os w)"
    and "\<And>x y z z'. x \<in> set xs \<Longrightarrow> y \<in> set xs \<Longrightarrow> zs w x = Some z \<Longrightarrow> zs w y = Some z' \<Longrightarrow> fd z = fd z' \<Longrightarrow> x = y"
    and "\<And>f. f \<in> fds_read w \<union> fds_write w \<Longrightarrow> \<exists>x \<in> set xs. \<exists>z. zs w x = Some z \<and> fd z = f"
    and "below (fds_read w) (nfds_read w)" and "below (fds_write w) (nfds_write w)"
  shows "fds_ok S xs w"
  using assms unfolding fds_ok_def by blast

lemma zinv_update:
  assumes inv: "zinv S xs w" and s: "s \<in> set xs" and z: "zs w s = Some z"
    and same: "links w' = links w" "lib_init w' = lib_init w" "zs w' = (zs w)(s \<mapsto> z')"
    and fd: "fd z' = fd z"
    and R: "fds_read w' - {fd z} = fds_read w - {fd z}"
    and W: "fds_write w' - {fd z} = fds_write w - {fd z}"
    and ok: "sock_ok (fds_read w') (fds_write w') z'"
    and b: "below (fds_read w') (nfds_read w')" "below (fds_write w') (nfds_write w')"
    and o: "sys_fds S (os w') = sys_fds S (os w)"
    and st: "stat_ok (status w') (zs w') xs"
  shows "zinv S xs w'"
proof -
  have "fds_ok S xs w'"
  proof (rule fds_okI)
    fix x assume x: "x \<in> set xs"
    obtain y where y: "zs w x = Some y" "fd y \<in> sys_fds S (os w)" by (rule zinv_listed [OF inv x])
    show "\<exists>y. zs w' x = Some y \<and> sock_ok (fds_read w') (fds_write w') y \<and> fd y \<in> sys_fds S (os w')"
    proof (cases "x = s")
      case True
      with y z same(3) ok fd o show ?thesis by simp
    next
      case False
      with zinv_fd_inj [OF inv x s y(1) z] have "fd y \<noteq> fd z" by blast
      from listed_frame [OF inv x y(1) this R W] o False y(1) same(3) show ?thesis by auto
    qed
  next
    fix x y zx zy
    assume a: "x \<in> set xs" "y \<in> set xs" "zs w' x = Some zx" "zs w' y = Some zy" "fd zx = fd zy"
    have "\<exists>zx'. zs w x = Some zx' \<and> fd zx' = fd zx" "\<exists>zy'. zs w y = Some zy' \<and> fd zy' = fd zy"
      using a(3,4) same(3) fd z by (auto split: if_splits)
    with a zinv_fd_inj [OF inv a(1,2)] show "x = y" by auto
  next
    fix f assume f: "f \<in> fds_read w' \<union> fds_write w'"
    show "\<exists>x \<in> set xs. \<exists>y. zs w' x = Some y \<and> fd y = f"
    proof (cases "f = fd z")
      case False
      obtain x y where "x \<in> set xs" "zs w x = Some y" "fd y = f" by (rule listed_fds [OF inv f False R W])
      with False z same(3) show ?thesis by (intro bexI [of _ x]) auto
    qed (use s same(3) fd in auto)
  qed (rule b)+
  moreover have "list_ok xs w'" using inv same z by (auto simp: zinv_def list_ok_def)
  ultimately show ?thesis using st by (simp add: zinv_def)
qed

lemma zinv_add:
  assumes inv: "zinv S xs w" and s: "s \<notin> set xs" and l: "list_ok (s # xs) w'"
    and zs: "zs w' = (zs w)(s \<mapsto> z)"
    and fd: "fd z \<notin> sys_fds S (os w)" "sys_fds S (os w') = insert (fd z) (sys_fds S (os w))"
    and R: "fds_read w' - {fd z} = fds_read w" and W: "fds_write w' - {fd z} = fds_write w"
    and ok: "sock_ok (fds_read w') (fds_write w') z" and lv: "live z"
    and b: "below (fds_read w') (nfds_read w')" "below (fds_write w') (nfds_write w')"
    and st: "status w' = count_opened (stype z) (status w)"
  shows "zinv S (s # xs) w'"
proof -
  have R': "fds_read w' - {fd z} = fds_read w - {fd z}" "fds_write w' - {fd z} = fds_write w - {fd z}"
    using R W by blast+
  have other: "\<exists>y. zs w' x = Some y \<and> zs w x = Some y \<and> fd y \<noteq> fd z \<and>
      sock_ok (fds_read w') (fds_write w') y \<and> fd y \<in> sys_fds S (os w')"
    if x: "x \<in> set xs" for x
  proof -
    obtain y where y: "zs w x = Some y" "fd y \<in> sys_fds S (os w)" by (rule zinv_listed [OF inv x])
    with fd(1) have n: "fd y \<noteq> fd z" by auto
    from listed_frame [OF inv x y(1) n R'] fd(2) y n x s zs show ?thesis by auto
  qed
  have "fds_ok S (s # xs) w'"
  proof (rule fds_okI)
    fix x assume "x \<in> set (s # xs)"
    then show "\<exists>y. zs w' x = Some y \<and> sock_ok (fds_read w') (fds_write w') y \<and> fd y \<in> sys_fds S (os w')"
      using other [of x] zs ok fd(2) by auto
  next
    fix x y zx zy
    assume a: "x \<in> set (s # xs)" "y \<in> set (s # xs)" "zs w' x = Some zx" "zs w' y = Some zy" "fd zx = fd zy"
    consider "x = s" "y = s" | "x = s" "y \<in> set xs" | "y = s" "x \<in> set xs" | "x \<in> set xs" "y \<in> set xs"
      using a(1,2) by auto
    then show "x = y"
    proof cases
      case 2
      with other [OF 2(2)] a zs show ?thesis by auto
    next
      case 3
      with other [OF 3(2)] a zs show ?thesis by auto
    next
      case 4
      with other [OF 4(1)] other [OF 4(2)] a(3-5) have "zs w x = Some zx" "zs w y = Some zy" by auto
      with zinv_fd_inj [OF inv 4] a(5) show ?thesis by blast
    qed simp
  next
    fix f assume f: "f \<in> fds_read w' \<union> fds_write w'"
    show "\<exists>x\<in>set (s # xs). \<exists>z. zs w' x = Some z \<and> fd z = f"
    proof (cases "f = fd z")
      case False
      obtain x y where "x \<in> set xs" "zs w x = Some y" "fd y = f" by (rule listed_fds [OF inv f False R'])
      with other [of x] show ?thesis by auto
    qed (use zs in auto)
  qed (rule b)+
  moreover have "stat_ok (status w') (zs w') (s # xs)"
    unfolding st zs by (rule stat_ok_add) (use inv s lv ok in \<open>auto simp: zinv_def sock_ok_def\<close>)
  ultimately show ?thesis using l by (simp add: zinv_def)
qed

lemma zinv_remove:
  assumes inv: "zinv S xs w" and s: "s \<in> set xs" and z: "zs w s = Some z" "\<not> live z"
    and l: "list_ok (remove1 s xs) w'" and zs: "zs w' = (zs w)(s := v)"
    and fd: "sys_fds S (os w) - {fd z} \<subseteq> sys_fds S (os w')"
    and same: "fds_read w' = fds_read w" "fds_write w' = fds_write w"
      "nfds_read w' = nfds_read w" "nfds_write w' = nfds_write w" "status w' = status w"
  shows "zinv S (remove1 s xs) w'"
proof -
  have d: "distinct xs" using zinv_distinct [OF inv] by simp
  then have set: "set (remove1 s xs) = set xs - {s}" by simp
  have "fds_ok S (remove1 s xs) w'"
  proof (rule fds_okI, unfold set)
    fix x assume x: "x \<in> set xs - {s}"
    then obtain y where y: "zs w x = Some y" using zinv_listed [OF inv] by blast
    with x zinv_fd_inj [OF inv _ s y z(1)] have "fd y \<noteq> fd z" by blast
    from listed_frame [OF inv _ y this _ _ fd] x y zs same
    show "\<exists>y. zs w' x = Some y \<and> sock_ok (fds_read w') (fds_write w') y \<and> fd y \<in> sys_fds S (os w')" by simp
  next
    fix x y zx zy
    assume "x \<in> set xs - {s}" "y \<in> set xs - {s}" "zs w' x = Some zx" "zs w' y = Some zy" "fd zx = fd zy"
    then show "x = y" using zs zinv_fd_inj [OF inv, of x y zx zy] by simp
  next
    fix f assume f: "f \<in> fds_read w' \<union> fds_write w'"
    have "fd z \<notin> fds_read w \<union> fds_write w" using zinv_listed [OF inv s] z by (auto simp: sock_ok_def)
    with f same have "f \<noteq> fd z" by auto
    then obtain x y where x: "x \<in> set xs" "zs w x = Some y" "fd y = f"
      by (rule listed_fds [OF inv f]) (simp_all add: same)
    with \<open>f \<noteq> fd z\<close> z(1) zs have "x \<in> set xs - {s} \<and> zs w' x = Some y" by auto
    with x(3) show "\<exists>x \<in> set xs - {s}. \<exists>z. zs w' x = Some z \<and> fd z = f" by blast
  qed (use inv same in \<open>simp_all add: zinv_def fds_ok_def\<close>)
  moreover have "stat_ok (status w') (zs w') (remove1 s xs)"
    unfolding same zs by (rule stat_ok_off [OF stat_ok_remove]) (use inv d s z set in \<open>auto simp: zinv_def\<close>)
  ultimately show ?thesis using l by (simp add: zinv_def)
qed

section \<open>The operations keep the invariant\<close>

lemma below_clr:
  assumes "below A n"
  shows "below (A - {f}) (if n = f + 1 \<and> 0 \<le> f then n - 1 else n)"
  using assms by (force simp: below_def)

lemma below_set:
  assumes "below A n" and "0 \<le> f"
  shows "below (insert f A) (if n < f + 1 then f + 1 else n)"
  using assms by (force simp: below_def)

lemma zinv_below: "zinv S xs w \<Longrightarrow> below (fds_read w) (nfds_read w) \<and> below (fds_write w) (nfds_write w)"
  by (simp add: zinv_def fds_ok_def)

lemma zinv_stat: "zinv S xs w \<Longrightarrow> stat_ok (status w) (zs w) xs"
  by (simp add: zinv_def)

lemmas sock_ok_simps = sock_ok_def is_set_def flag_simps

lemma read_start_inv:
  assumes inv: "zinv S xs w" and s: "s \<in> set xs" and z: "zs w s = Some z"
    and "live z" and "\<not> is_set ZS_S_READ_ENABLE z" and "cb \<noteq> None"
  shows "\<exists>w'. zsocket_read_start s cb w = Inr w' \<and> zinv S xs w' \<and>
    fds_read w' = insert (fd z) (fds_read w) \<and> fds_write w' = fds_write w \<and>
    zs w' = (zs w)(s \<mapsto> z\<lparr>state := state z OR ZS_S_READ_ENABLE, read_cb := cb\<rparr>)"
proof -
  define z' where "z' = z\<lparr>state := state z OR ZS_S_READ_ENABLE, read_cb := cb\<rparr>"
  define w' where "w' = w\<lparr>nfds_read := (if nfds_read w < fd z + 1 then fd z + 1 else nfds_read w),
    fds_read := insert (fd z) (fds_read w), zs := (zs w)(s \<mapsto> z')\<rparr>"
  have ok: "sock_ok (fds_read w) (fds_write w) z" using zinv_listed [OF inv s] z by auto
  then have f: "0 \<le> fd z" "fd z < FD_SETSIZE" by (auto simp: sock_ok_def)
  have "zsocket_read_start s cb w = Inr w'"
    using z assms(4-6) f
    by (simp add: zsocket_read_start_def enable_read_def FD_SET_def put_zs_def w'_def z'_def Let_def)
  moreover have "zinv S xs w'"
  proof (rule zinv_update [OF inv s z])
    show "sock_ok (fds_read w') (fds_write w') z'"
      using ok assms(4-6) by (auto simp: w'_def z'_def sock_ok_simps split: if_splits)
    show "below (fds_read w') (nfds_read w')" "below (fds_write w') (nfds_write w')"
      using below_set [of "fds_read w" "nfds_read w" "fd z"] zinv_below [OF inv] f(1) by (auto simp: w'_def)
    show "stat_ok (status w') (zs w') xs"
      using stat_ok_keep [OF zinv_stat [OF inv] _ s z, of z'] zinv_distinct [OF inv]
      by (simp add: w'_def z'_def is_set_def flag_simps)
  qed (auto simp: w'_def z'_def)
  ultimately show ?thesis by (auto simp: w'_def z'_def)
qed

lemma read_stop_inv:
  assumes inv: "zinv S xs w" and s: "s \<in> set xs" and z: "zs w s = Some z"
    and "live z" and "is_set ZS_S_READ_ENABLE z" and "stype z \<noteq> ZS_T_SERVER"
  shows "\<exists>w'. zsocket_read_stop s w = Inr w' \<and> zinv S xs w' \<and>
    fds_read w' = fds_read w - {fd z} \<and> fds_write w' = fds_write w \<and>
    zs w' = (zs w)(s \<mapsto> z\<lparr>state := state z AND NOT ZS_S_READ_ENABLE, read_cb := None\<rparr>)"
proof -
  define z' where "z' = z\<lparr>state := state z AND NOT ZS_S_READ_ENABLE, read_cb := None\<rparr>"
  define w' where "w' = w\<lparr>nfds_read := (if nfds_read w = fd z + 1 then nfds_read w - 1 else nfds_read w),
    fds_read := fds_read w - {fd z}, zs := (zs w)(s \<mapsto> z')\<rparr>"
  have ok: "sock_ok (fds_read w) (fds_write w) z" using zinv_listed [OF inv s] z by auto
  then have f: "0 \<le> fd z" "fd z < FD_SETSIZE" by (auto simp: sock_ok_def)
  have "zsocket_read_stop s w = Inr w'"
    using z assms(4-6) f
    by (simp add: zsocket_read_stop_def FD_CLR_def put_zs_def w'_def z'_def Let_def)
  moreover have "zinv S xs w'"
  proof (rule zinv_update [OF inv s z])
    show "sock_ok (fds_read w') (fds_write w') z'"
      using ok assms(4-6) by (auto simp: w'_def z'_def sock_ok_simps split: if_splits)
    show "below (fds_read w') (nfds_read w')" "below (fds_write w') (nfds_write w')"
      using below_clr [of "fds_read w" "nfds_read w" "fd z"] zinv_below [OF inv] f(1) by (auto simp: w'_def)
    show "stat_ok (status w') (zs w') xs"
      using stat_ok_keep [OF zinv_stat [OF inv] _ s z, of z'] zinv_distinct [OF inv]
      by (simp add: w'_def z'_def is_set_def flag_simps)
  qed (auto simp: w'_def z'_def)
  ultimately show ?thesis by (auto simp: w'_def z'_def)
qed

text \<open>
  Marking a live socket takes its descriptor out of both sets and the counters at once, and
  nothing else changes: the list, the buffers and the descriptor stay until the sweep. The
  callers first store a socket \<open>z1\<close> with other flags or buffers, hence the two sockets.
\<close>

lemma mark_closed_put:
  assumes inv: "zinv S xs w" and s: "s \<in> set xs" and z: "zs w s = Some z" "live z"
    and z1: "live z1" "fd z1 = fd z" "stype z1 = stype z" "buf_ok (rbuf z1)" "buf_ok (wbuf z1)"
    and o1: "sys_fds S o1 = sys_fds S (os w)"
  shows "\<exists>w'. mark_closed s cb (put_zs s z1 (w\<lparr>os := o1\<rparr>)) = Inr w' \<and> zinv S xs w' \<and>
    fds_read w' = fds_read w - {fd z} \<and> fds_write w' = fds_write w - {fd z} \<and>
    zs w' = (zs w)(s \<mapsto> z1\<lparr>state := state z1 OR ZS_S_EOF, close_cb := cb\<rparr>) \<and>
    links w' = links w \<and> in_looping w' = in_looping w \<and> os w' = o1 \<and>
    status w' = count_closed (stype z) (status w)"
proof -
  define z' where "z' = z1\<lparr>state := state z1 OR ZS_S_EOF, close_cb := cb\<rparr>"
  define w' where "w' = w\<lparr>nfds_read := (if nfds_read w = fd z + 1 then nfds_read w - 1 else nfds_read w),
    fds_read := fds_read w - {fd z},
    nfds_write := (if nfds_write w = fd z + 1 then nfds_write w - 1 else nfds_write w),
    fds_write := fds_write w - {fd z}, zs := (zs w)(s \<mapsto> z'),
    status := count_closed (stype z) (status w), os := o1\<rparr>"
  have ok: "sock_ok (fds_read w) (fds_write w) z" using zinv_listed [OF inv s] z by auto
  then have f: "0 \<le> fd z" "fd z < FD_SETSIZE" "stype z \<noteq> ZS_T_NONE" by (auto simp: sock_ok_def)
  have dead: "\<not> live z'" by (simp add: z'_def is_set_def flag_simps)
  have "mark_closed s cb (put_zs s z1 (w\<lparr>os := o1\<rparr>)) = Inr w'"
    using z1 f by (simp add: mark_closed_def FD_CLR_def put_zs_def w'_def z'_def Let_def)
  moreover have "zinv S xs w'"
  proof (rule zinv_update [OF inv s z(1)])
    show "sock_ok (fds_read w') (fds_write w') z'"
      using ok z1 dead by (auto simp: w'_def z'_def sock_ok_def)
    show "below (fds_read w') (nfds_read w')" "below (fds_write w') (nfds_write w')"
      using below_clr [of "fds_read w" "nfds_read w" "fd z"] below_clr [of "fds_write w" "nfds_write w" "fd z"]
        zinv_below [OF inv] f(1) by (auto simp: w'_def)
    show "stat_ok (status w') (zs w') xs"
      using stat_ok_mark [OF zinv_stat [OF inv] _ s z dead f(3)] zinv_distinct [OF inv]
      by (simp add: w'_def)
  qed (auto simp: w'_def z'_def z1 o1)
  ultimately show ?thesis by (auto simp: w'_def z'_def)
qed

lemma mark_closed_inv:
  assumes inv: "zinv S xs w" and s: "s \<in> set xs" and z: "zs w s = Some z" "live z"
  shows "\<exists>w'. mark_closed s cb w = Inr w' \<and> zinv S xs w' \<and>
    fds_read w' = fds_read w - {fd z} \<and> fds_write w' = fds_write w - {fd z} \<and>
    zs w' = (zs w)(s \<mapsto> z\<lparr>state := state z OR ZS_S_EOF, close_cb := cb\<rparr>) \<and>
    links w' = links w \<and> in_looping w' = in_looping w \<and> os w' = os w \<and>
    status w' = count_closed (stype z) (status w)"
proof -
  have "put_zs s z (w\<lparr>os := os w\<rparr>) = w" using z(1) by (simp add: put_zs_def fun_upd_idem)
  moreover have "sock_ok (fds_read w) (fds_write w) z" using zinv_listed [OF inv s] z by auto
  ultimately show ?thesis
    using mark_closed_put [OF inv s z z(2) refl refl _ _ refl, of cb] by (simp add: sock_ok_def)
qed

text \<open>
  Taking a marked socket out of the list and releasing it: the list law of \<open>list_del\<close>, then
  the descriptor is closed. The structure stays allocated, out of the list.
\<close>

definition released :: "zsocket \<Rightarrow> zsocket" where
  "released z = z\<lparr>fd := -1, rbuf := None, wbuf := None, sdata := None, user_data := None,
     close_cb := None, read_cb := None, connected_cb := None, connection_cb := None\<rparr>"

lemma sys_ok_close:
  "sys_ok S \<Longrightarrow> sys_fds S (sys_close S f (sys_shutdown S g o1)) = sys_fds S o1 - {f}"
  by (simp add: sys_ok_def)

lemma list_ok_del:
  assumes "list_ok xs w" and "s \<in> set xs"
  shows "\<exists>l. list_del s (links w) = Inr l \<and> ring l socks (remove1 s xs) \<and> dom l = dom (links w) \<and>
    same_off (set (socks # xs)) (links w) l"
  using stack.del_law [of "links w" socks xs s] list_del_ring [of "links w" socks xs s] assms
  by (auto simp: list_ok_def same_off_dom)

lemma unlist_inv:
  assumes inv: "zinv S xs w" and s: "s \<in> set xs" and z: "zs w s = Some z" "\<not> live z"
  shows "\<exists>l. list_del s (links w) = Inr l \<and> zinv S (remove1 s xs) (w\<lparr>links := l\<rparr>) \<and>
    (\<forall>x \<in> set (remove1 s xs). \<forall>p. zs w x = Some p \<longrightarrow> fd p \<noteq> fd z) \<and>
    dom l = dom (links w) \<and> ring l socks (remove1 s xs)"
proof -
  have lo: "list_ok xs w" using inv by (simp add: zinv_def)
  obtain l where l: "list_del s (links w) = Inr l" "ring l socks (remove1 s xs)" "dom l = dom (links w)"
    using list_ok_del [OF lo s] by blast
  have "zinv S (remove1 s xs) (w\<lparr>links := l\<rparr>)"
    by (rule zinv_remove [OF inv s z, where v = "zs w s"])
      (use l lo s in \<open>auto simp: list_ok_def\<close>)
  moreover have "fd p \<noteq> fd z" if "x \<in> set (remove1 s xs)" "zs w x = Some p" for x p
    using that zinv_fd_inj [OF inv _ s that(2) z(1)] zinv_distinct [OF inv] by auto
  ultimately show ?thesis using l by blast
qed

lemma zinv_release:
  assumes inv: "zinv S ys w" and s: "s \<notin> set ys" and z: "zs w s = Some z"
    and fd: "\<forall>x \<in> set ys. \<forall>p. zs w x = Some p \<longrightarrow> fd p \<noteq> fd z" and S: "sys_ok S"
  shows "\<exists>w'. release_zsocket S s w = Inr w' \<and> zinv S ys w' \<and> zs w' = (zs w)(s \<mapsto> released z) \<and>
    links w' = links w \<and> in_looping w' = in_looping w \<and> status w' = status w \<and>
    fds_read w' = fds_read w \<and> fds_write w' = fds_write w"
proof -
  define w' where "w' = w\<lparr>zs := (zs w)(s \<mapsto> released z),
    os := sys_close S (fd z) (sys_shutdown S (fd z) (os w))\<rparr>"
  have "release_zsocket S s w = Inr w'"
    using z by (simp add: release_zsocket_def put_zs_def released_def w'_def Let_def)
  moreover have "list_ok ys w'"
    using inv z by (auto simp: zinv_def list_ok_def w'_def)
  moreover have "stat_ok (status w') (zs w') ys"
    using stat_ok_off [OF zinv_stat [OF inv] s] by (simp add: w'_def)
  moreover have "fds_ok S ys w'"
  proof -
    have "zs w' x = zs w x" if "x \<in> set ys" for x using that s by (auto simp: w'_def)
    moreover have "fds_ok S ys w" using inv by (simp add: zinv_def)
    ultimately show ?thesis
      unfolding fds_ok_def using fd by (simp add: w'_def sys_ok_close [OF S]) (metis (no_types, lifting))
  qed
  ultimately have "zinv S ys w'" by (simp add: zinv_def)
  with \<open>release_zsocket S s w = Inr w'\<close> show ?thesis by (auto simp: w'_def)
qed

text \<open>
  The loop of \<open>__zsocket_close\<close> over the listed sockets, from position \<open>bs\<close> on: inside the event
  loop it marks the sockets bound to the port of the closed server, which all must be live; where
  no socket is bound to that port it changes nothing. One unit of fuel per node and one for
  the end are enough.
\<close>

abbreviation bound_to :: "zsocket \<Rightarrow> zsocket option \<Rightarrow> bool" where
  "bound_to z p \<equiv> case p of None \<Rightarrow> False | Some p \<Rightarrow> sin_port (laddr p) = sin_port (laddr z)"

definition mark_bound :: "zsocket \<Rightarrow> addr set \<Rightarrow> (addr \<rightharpoonup> zsocket) \<Rightarrow> addr \<rightharpoonup> zsocket" where
  "mark_bound z A m x =
     (if x \<in> A \<and> bound_to z (m x)
      then map_option (\<lambda>p. p\<lparr>state := state p OR ZS_S_EOF, close_cb := None\<rparr>) (m x) else m x)"

lemma mark_bound_off: "mark_bound z {} m = m"
  by (auto simp: mark_bound_def)

lemma close_same_port_turn:
  assumes inv: "zinv S (as @ x # bs) w" and p: "zs w x = Some p"
    and loop: "bound_to z (Some p) \<Longrightarrow> in_looping w \<and> live p"
  shows "\<exists>w'. (if bound_to z (Some p) then zsocket_close S k x None w else Inr w) = Inr w' \<and>
    zinv S (as @ x # bs) w' \<and> zs w' = mark_bound z {x} (zs w) \<and> links w' = links w \<and>
    in_looping w' = in_looping w \<and> os w' = os w"
proof (cases "bound_to z (Some p)")
  case True
  have x: "x \<in> set (as @ x # bs)" by simp
  have lp: "live p" "in_looping w" using loop [OF True] by simp_all
  from mark_closed_inv [OF inv x p lp(1), of None] obtain v where v: "mark_closed x None w = Inr v"
    "zinv S (as @ x # bs) v" "zs v = (zs w)(x \<mapsto> p\<lparr>state := state p OR ZS_S_EOF, close_cb := None\<rparr>)"
    "links v = links w" "in_looping v = in_looping w" "os v = os w" by blast
  moreover have "zs v = mark_bound z {x} (zs w)" using v(3) p True by (auto simp: mark_bound_def)
  ultimately show ?thesis using True lp(2) by simp
next
  case False
  with inv p show ?thesis by (auto simp: mark_bound_def fun_eq_iff)
qed

lemma close_same_port_inv:
  assumes "zinv S (as @ bs) w" and "s \<notin> set (as @ bs)" and "zs w s = Some z" and "length bs < k"
    and "in_looping w \<or> (\<forall>x \<in> set bs. \<not> bound_to z (zs w x))"
    and "\<forall>x \<in> set bs. \<forall>p. zs w x = Some p \<longrightarrow> bound_to z (Some p) \<longrightarrow> live p"
  shows "\<exists>w'. close_same_port S k (behind bs socks) s w = Inr w' \<and> zinv S (as @ bs) w' \<and>
    zs w' = mark_bound z (set bs) (zs w) \<and> links w' = links w \<and> in_looping w' = in_looping w \<and>
    os w' = os w"
  using assms
proof (induction bs arbitrary: as w k)
  case Nil
  then show ?case by (cases k) (auto simp: mark_bound_off)
next
  case (Cons x bs)
  then obtain k' where k: "k = Suc k'" by (cases k) auto
  note inv = Cons.prems(1)
  have x: "x \<in> set (as @ x # bs)" by simp
  obtain p where p: "zs w x = Some p" by (rule zinv_listed [OF inv x])
  have d: "distinct (as @ x # bs)" "x \<noteq> socks" using zinv_distinct [OF inv] by auto
  have "bound_to z (Some p) \<Longrightarrow> in_looping w \<and> live p" using Cons.prems(5,6) p by auto
  from close_same_port_turn [where k = k', OF inv p this]
  obtain w1 where w1: "(if bound_to z (Some p) then zsocket_close S k' x None w else Inr w) = Inr w1"
    "zinv S (as @ x # bs) w1" "zs w1 = mark_bound z {x} (zs w)" "links w1 = links w"
    "in_looping w1 = in_looping w" "os w1 = os w" by blast
  have n: "get_nxt x (links w1) = Inr (behind bs socks)"
    using inv w1 by (auto simp: zinv_def list_ok_def intro: ring_neighbours(2))
  have same: "zs w1 y = zs w y" if "y \<noteq> x" for y using w1 that by (simp add: mark_bound_def)
  have zs1: "zs w1 s = Some z" using same [of s] Cons.prems(2,3) by auto
  have bs1: "\<forall>y \<in> set bs. zs w1 y = zs w y" using same d(1) by (metis distinct.simps(2) distinct_append)
  have "\<exists>w'. close_same_port S k' (behind bs socks) s w1 = Inr w' \<and> zinv S ((as @ [x]) @ bs) w' \<and>
    zs w' = mark_bound z (set bs) (zs w1) \<and> links w' = links w1 \<and> in_looping w' = in_looping w1 \<and>
    os w' = os w1"
    by (rule Cons.IH) (use w1 zs1 bs1 Cons.prems k in \<open>auto\<close>)
  then obtain w' where w': "close_same_port S k' (behind bs socks) s w1 = Inr w'"
    "zinv S (as @ x # bs) w'" "zs w' = mark_bound z (set bs) (zs w1)" "links w' = links w1"
    "in_looping w' = in_looping w1" "os w' = os w1" by auto
  have "close_same_port S k (behind (x # bs) socks) s w = Inr w'"
    using w1 w'(1) n p d(2) Cons.prems(3) by (simp add: k split: if_splits)
  moreover have "zs w' = mark_bound z (set (x # bs)) (zs w)"
    using w'(3) w1 d(1) by (auto simp: mark_bound_def fun_eq_iff)
  ultimately show ?case using w' w1 by auto
qed

lemma fd_mark_bound: "mark_bound z A m x = Some p \<Longrightarrow> \<exists>p'. m x = Some p' \<and> fd p' = fd p"
  by (auto simp: mark_bound_def split: if_splits)

definition port_free :: "addr \<Rightarrow> zsocket \<Rightarrow> addr list \<Rightarrow> 'os world \<Rightarrow> bool" where
  "port_free s z xs w \<longleftrightarrow>
     (in_looping w \<or> (\<forall>x \<in> set (remove1 s xs). \<not> bound_to z (zs w x))) \<and>
     (\<forall>x \<in> set (remove1 s xs). \<forall>p. zs w x = Some p \<longrightarrow> bound_to z (Some p) \<longrightarrow> live p)"

definition closed_zs :: "addr \<Rightarrow> zsocket \<Rightarrow> addr list \<Rightarrow> (addr \<rightharpoonup> zsocket) \<Rightarrow> addr \<rightharpoonup> zsocket" where
  "closed_zs s z xs m =
     (if stype z = ZS_T_SERVER then mark_bound z (set (remove1 s xs)) m else m)(s \<mapsto> released z)"

lemma close_now_inv:
  assumes inv: "zinv S xs w" and S: "sys_ok S" and s: "s \<in> set xs" and z: "zs w s = Some z" "\<not> live z"
    and k: "length xs \<le> k" and srv: "stype z = ZS_T_SERVER \<Longrightarrow> port_free s z xs w"
  shows "\<exists>w'. zsocket_close_now S k s w = Inr w' \<and> zinv S (remove1 s xs) w' \<and>
    zs w' = closed_zs s z xs (zs w) \<and> in_looping w' = in_looping w"
proof -
  obtain l where l: "list_del s (links w) = Inr l" "zinv S (remove1 s xs) (w\<lparr>links := l\<rparr>)"
    "\<forall>x \<in> set (remove1 s xs). \<forall>p. zs w x = Some p \<longrightarrow> fd p \<noteq> fd z" "ring l socks (remove1 s xs)"
    using unlist_inv [OF inv s z] by blast
  define w1 where "w1 = w\<lparr>links := l\<rparr>"
  have t: "stype z \<noteq> ZS_T_NONE" using zinv_listed [OF inv s] z by (auto simp: sock_ok_def)
  have s': "s \<notin> set (remove1 s xs)" using zinv_distinct [OF inv] by simp
  obtain w2 where w2: "(if stype z = ZS_T_SERVER
        then bnd (get_nxt socks (links w1)) (\<lambda>pos. close_same_port S k pos s w1) else Inr w1) = Inr w2"
    "zinv S (remove1 s xs) w2" "in_looping w2 = in_looping w"
    "zs w2 = (if stype z = ZS_T_SERVER then mark_bound z (set (remove1 s xs)) (zs w) else zs w)"
  proof (cases "stype z = ZS_T_SERVER")
    case True
    have g: "get_nxt socks l = Inr (behind (remove1 s xs) socks)" by (rule ring_ends [OF l(4)])
    have "length (remove1 s xs) = length xs - 1" using s by (simp add: length_remove1)
    with k length_pos_if_in_set [OF s] have "length (remove1 s xs) < k" by linarith
    then have "\<exists>w2. close_same_port S k (behind (remove1 s xs) socks) s w1 = Inr w2 \<and>
        zinv S ([] @ remove1 s xs) w2 \<and> zs w2 = mark_bound z (set (remove1 s xs)) (zs w1) \<and>
        links w2 = links w1 \<and> in_looping w2 = in_looping w1 \<and> os w2 = os w1"
      using l(2) s' z(1) srv [OF True]
      by (intro close_same_port_inv) (auto simp: w1_def port_free_def)
    with g True that show ?thesis by (auto simp: w1_def)
  next
    case False
    with l(2) that show ?thesis by (auto simp: w1_def)
  qed
  have zs2: "zs w2 s = Some z" using w2(4) s' z(1) by (simp add: mark_bound_def)
  have "\<forall>x \<in> set (remove1 s xs). \<forall>p. zs w2 x = Some p \<longrightarrow> fd p \<noteq> fd z"
    using w2(4) l(3) by (auto split: if_splits dest!: fd_mark_bound)
  from zinv_release [OF w2(2) s' zs2 this S] obtain w3 where w3: "release_zsocket S s w2 = Inr w3"
    "zinv S (remove1 s xs) w3" "zs w3 = (zs w2)(s \<mapsto> released z)" "in_looping w3 = in_looping w2" by blast
  have "zsocket_close_now S k s w = Inr w3"
    using z t l(1) w2(1) w3(1) by (cases "stype z = ZS_T_SERVER") (simp_all add: Let_def flip: w1_def)
  with w3 w2 show ?thesis by (auto simp: closed_zs_def)
qed

text \<open>
  \<open>zsocket_close\<close> inside the event loop only marks; outside it closes at once, and no other
  listed socket may then be bound to the port of a server.
\<close>

lemma zsocket_close_loop:
  "in_looping w \<Longrightarrow> zsocket_close S k s cb w = mark_closed s cb w"
  by (cases "mark_closed s cb w")
    (auto simp: mark_closed_def put_zs_def Let_def split: if_splits elim!: bnd_InrE)

lemma zsocket_close_outside:
  assumes inv: "zinv S xs w" and S: "sys_ok S" and s: "s \<in> set xs" and z: "zs w s = Some z" "live z"
    and k: "length xs \<le> k" and out: "\<not> in_looping w"
    and srv: "stype z = ZS_T_SERVER \<Longrightarrow> \<forall>x \<in> set xs. x \<noteq> s \<longrightarrow> \<not> bound_to z (zs w x)"
  shows "\<exists>w'. zsocket_close S k s cb w = Inr w' \<and> zinv S (remove1 s xs) w' \<and>
    zs w' = (zs w)(s \<mapsto> released (z\<lparr>state := state z OR ZS_S_EOF\<rparr>)) \<and> \<not> in_looping w'"
proof -
  define z1 where "z1 = z\<lparr>state := state z OR ZS_S_EOF, close_cb := cb\<rparr>"
  obtain w1 where w1: "mark_closed s cb w = Inr w1" "zinv S xs w1" "zs w1 = (zs w)(s \<mapsto> z1)"
    "in_looping w1 = in_looping w"
    using mark_closed_inv [OF inv s z, of cb] by (auto simp: z1_def)
  have dead: "\<not> live z1" by (simp add: z1_def is_set_def flag_simps)
  have free: "port_free s z1 xs w1" if "stype z1 = ZS_T_SERVER"
    using srv that zinv_distinct [OF inv] w1(3)
    by (auto simp: port_free_def z1_def split: option.splits if_splits)
  obtain w2 where w2: "zsocket_close_now S k s w1 = Inr w2" "zinv S (remove1 s xs) w2"
    "zs w2 = closed_zs s z1 xs (zs w1)" "in_looping w2 = in_looping w1"
    using close_now_inv [OF w1(2) S s _ dead k free] w1(3) by auto
  have "zsocket_close S k s cb w = Inr w2" using w1(1,4) out w2(1) by simp
  moreover have "closed_zs s z1 xs (zs w1) = (zs w)(s \<mapsto> released (z\<lparr>state := state z OR ZS_S_EOF\<rparr>))"
  proof
    fix x
    show "closed_zs s z1 xs (zs w1) x = ((zs w)(s \<mapsto> released (z\<lparr>state := state z OR ZS_S_EOF\<rparr>))) x"
    proof (cases "stype z = ZS_T_SERVER \<and> x \<in> set (remove1 s xs)")
      case True
      then have "x \<in> set xs" "x \<noteq> s" using zinv_distinct [OF inv] by auto
      with srv True have "\<not> bound_to z1 (zs w1 x)" using w1(3) by (auto simp: z1_def split: option.splits)
      with True \<open>x \<noteq> s\<close> w1(3) show ?thesis by (simp add: closed_zs_def mark_bound_def)
    next
      case False
      with w1(3) show ?thesis by (auto simp: closed_zs_def mark_bound_def z1_def released_def)
    qed
  qed
  ultimately show ?thesis using w2 w1(4) out by auto
qed

section \<open>Opening sockets keeps the invariant\<close>

lemma sys_ok_socket: "sys_ok S \<Longrightarrow> sys_socket S o1 = (f, o2) \<Longrightarrow> new_fd S f o1 o2"
  unfolding sys_ok_def by (metis fst_conv snd_conv)

lemma sys_ok_accept: "sys_ok S \<Longrightarrow> sys_accept S g o1 = (f, a, o2) \<Longrightarrow> new_fd S f o1 o2"
  unfolding sys_ok_def by (metis fst_conv snd_conv)

lemma sys_ok_fds:
  assumes "sys_ok S"
  shows "sys_connect S f a o1 = (r, o2) \<Longrightarrow> sys_fds S o2 = sys_fds S o1"
    and "sys_bind S f a o1 = (r, o2) \<Longrightarrow> sys_fds S o2 = sys_fds S o1"
    and "sys_fds S (sys_listen S f n o1) = sys_fds S o1"
    and "sys_fds S (sys_setsockopt S f o1) = sys_fds S o1"
    and "sys_getsockname S f o1 = (la, o2) \<Longrightarrow> sys_fds S o2 = sys_fds S o1"
    and "sys_fds S (sys_close S f o1) = sys_fds S o1 - {f}"
    and "sys_recv S f c o1 = (m, bs, o2) \<Longrightarrow> sys_fds S o2 = sys_fds S o1"
    and "sys_send S f buf o1 = (m, o2) \<Longrightarrow> sys_fds S o2 = sys_fds S o1"
    and "sys_time S o1 = (now, o2) \<Longrightarrow> sys_fds S o2 = sys_fds S o1"
    and "sys_alloc S c o1 = (b, o2) \<Longrightarrow> sys_fds S o2 = sys_fds S o1"
    and "sys_realloc S o1 = (ra, o2) \<Longrightarrow> sys_fds S o2 = sys_fds S o1"
    and "sys_malloc S A c o1 = (p, o2) \<Longrightarrow> sys_fds S o2 = sys_fds S o1"
  using assms unfolding sys_ok_def by (metis snd_conv)+

lemma sys_ok_recv:
  assumes "sys_ok S" and r: "sys_recv S f c o1 = (n, bs, o2)"
  shows "n = -1 \<or> 0 \<le> n \<and> n \<le> uint c \<and> int (length bs) = n"
proof -
  have "\<forall>f c o1. let r = sys_recv S f c o1 in
      fst r = -1 \<or> 0 \<le> fst r \<and> fst r \<le> uint c \<and> int (length (fst (snd r))) = fst r"
    using assms(1) unfolding sys_ok_def by (elim conjE) assumption
  from this [THEN spec, THEN spec, THEN spec, of f c o1] show ?thesis
    by (simp only: Let_def r fst_conv snd_conv)
qed

lemma sys_ok_malloc:
  "sys_ok S \<Longrightarrow> sys_malloc S A c o1 = (Some p, o2) \<Longrightarrow> p \<notin> A \<union> {0, LIST_POISON1, LIST_POISON2}"
  unfolding sys_ok_def by (metis fst_conv)

lemma new_qbuf_inv:
  assumes "sys_ok S" and "new_qbuf S sz o1 = (b, o2)"
  shows "sys_fds S o2 = sys_fds S o1" and "buf_ok b"
    and "b = Some q \<Longrightarrow> contents q = [] \<and> bsize q = (if sz = 0 then RAW_SIZE else sz)"
proof -
  show "sys_fds S o2 = sys_fds S o1"
    using assms(2) by (auto simp: new_qbuf_def Let_def split: prod.splits if_splits dest: sys_ok_fds(10) [OF assms(1)])
  show "buf_ok b"
    using assms(2) by (auto simp: new_qbuf_def Let_def buf_ok_def split: prod.splits option.splits dest: qbuf_new_inv)
  show "contents q = [] \<and> bsize q = (if sz = 0 then RAW_SIZE else sz)" if "b = Some q"
    using assms(2) that by (auto simp: new_qbuf_def Let_def split: prod.splits dest: qbuf_new_inv)
qed

lemma list_ok_add:
  assumes "list_ok xs w" and "s \<in> dom (zs w)" and "s \<notin> set xs"
  shows "\<exists>l. list_add s socks (links w) = Inr l \<and> ring l socks (s # xs) \<and> dom l = dom (links w)"
proof -
  have "ring (links w) socks xs" "s \<in> dom (links w)" "s \<notin> set (socks # xs)"
    using assms by (auto simp: list_ok_def)
  from stack.add_law [OF this] show ?thesis by (auto dest: same_off_dom)
qed

text \<open>
  \<open>idle\<close>: a socket as \<open>zsocket_init\<close> leaves it (the application may set \<open>stall\<close>, \<open>user_data\<close> and
  \<open>sdata\<close>), the only kind that may be connected or made to listen. The opening operations add
  it at the front of the list under a new descriptor.
\<close>

definition idle :: "zsocket \<Rightarrow> bool" where
  "idle z \<longleftrightarrow> state z = 0 \<and> rbuf z = None \<and> wbuf z = None \<and> read_cb z = None"

lemma zinv_fd_fresh:
  assumes "zinv S xs w" and "f \<notin> sys_fds S (os w)"
  shows "f \<notin> fds_read w \<union> fds_write w"
proof
  assume "f \<in> fds_read w \<union> fds_write w"
  then obtain x z where x: "x \<in> set xs" "zs w x = Some z" "fd z = f" using zinv_fd_listed [OF assms(1)] by blast
  with zinv_listed [OF assms(1) x(1)] assms(2) show False by auto
qed

lemma zinv_os:
  assumes "zinv S xs w" and "sys_fds S (os w) \<subseteq> sys_fds S o'"
  shows "zinv S xs (w\<lparr>os := o'\<rparr>)"
proof -
  have "\<exists>z. zs w x = Some z \<and> sock_ok (fds_read w) (fds_write w) z \<and> fd z \<in> sys_fds S o'"
    if "x \<in> set xs" for x
    using zinv_listed [OF assms(1) that] assms(2) by blast
  moreover have "list_ok xs (w\<lparr>os := o'\<rparr>) = list_ok xs w" by (simp add: list_ok_def)
  ultimately show ?thesis using assms(1) by (simp add: zinv_def fds_ok_def)
qed

lemma new_fdE:
  assumes "new_fd S f o1 o2" and "f \<noteq> -1"
  obtains "0 \<le> f" "f < FD_SETSIZE" "f \<notin> sys_fds S o1" "sys_fds S o2 = insert f (sys_fds S o1)"
  using assms by (auto simp: new_fd_def)

text \<open>
  What the opening operations share: a socket outside the list is given a new descriptor, perhaps
  enabled for reading, and put in front.
\<close>

lemma zinv_open:
  assumes inv: "zinv S xs w" and s: "s \<in> dom (zs w)" "s \<notin> set xs" and lib: "lib_init w"
    and fd: "fd z \<notin> sys_fds S (os w)" "sys_fds S o1 = insert (fd z) (sys_fds S (os w))"
    and z: "sock_ok R (fds_write w) z" "live z" and R: "R - {fd z} = fds_read w" and b: "below R n"
  shows "\<exists>l. list_add s socks (links w) = Inr l \<and>
    zinv S (s # xs) (w\<lparr>zs := (zs w)(s \<mapsto> z), os := o1, links := l, status := count_opened (stype z) (status w),
      nfds_read := n, fds_read := R\<rparr>)"
proof -
  have lo: "list_ok xs w" using inv by (simp add: zinv_def)
  obtain l where l: "list_add s socks (links w) = Inr l" "ring l socks (s # xs)" "dom l = dom (links w)"
    using list_ok_add [OF lo s] by blast
  let ?w = "w\<lparr>zs := (zs w)(s \<mapsto> z), os := o1, links := l, status := count_opened (stype z) (status w),
    nfds_read := n, fds_read := R\<rparr>"
  have "list_ok (s # xs) ?w" using lo l lib s(1) by (auto simp: list_ok_def)
  then have "zinv S (s # xs) ?w"
    using zinv_fd_fresh [OF inv fd(1)] zinv_below [OF inv] z R b fd
    by (intro zinv_add [OF inv s(2), where z = z]) auto
  with l(1) show ?thesis by blast
qed

lemma zinv_open_idle:
  assumes "zinv S xs w" and "s \<in> dom (zs w)" and "s \<notin> set xs" and "lib_init w"
    and fd: "fd z \<notin> sys_fds S (os w)" and "sys_fds S o1 = insert (fd z) (sys_fds S (os w))"
    and "sock_ok (fds_read w) (fds_write w) z" and "live z"
  shows "\<exists>l. list_add s socks (links w) = Inr l \<and>
    zinv S (s # xs) (w\<lparr>zs := (zs w)(s \<mapsto> z), os := o1, links := l, status := count_opened (stype z) (status w)\<rparr>)"
proof -
  have "v\<lparr>nfds_read := nfds_read v, fds_read := fds_read v\<rparr> = v" for v :: "'a world" by (cases v) simp
  from this [of "w\<lparr>zs := (zs w)(s \<mapsto> z), os := o1, links := l, status := count_opened (stype z) (status w)\<rparr>" for l]
  show ?thesis
    using zinv_open [OF assms, of "nfds_read w"] zinv_fd_fresh [OF assms(1) fd] zinv_below [OF assms(1)] by simp
qed

lemma connect_fails:
  assumes inv: "zinv S xs w" and S: "sys_ok S" and z: "zs w s = Some z" "live z"
    and f: "sys_socket S (os w) = (f, o1)" and r: "f = -1 \<or> fst (sys_connect S f addr o1) = -1"
  shows "\<exists>w'. zsocket_connect S H s addr cb w = Inr (-1, w') \<and> zinv S xs w' \<and> zs w' = zs w \<and>
    sys_fds S (os w') = sys_fds S (os w)"
proof (cases "f = -1")
  case True
  with sys_ok_socket [OF S f] have "sys_fds S o1 = sys_fds S (os w)" by (auto simp: new_fd_def)
  with True f z zinv_os [OF inv, of o1] show ?thesis by (simp add: zsocket_connect_def)
next
  case False
  then obtain o2 where o2: "sys_connect S f addr o1 = (-1, o2)" using r by (cases "sys_connect S f addr o1") auto
  have "sys_fds S (sys_close S f o2) = sys_fds S (os w)"
    by (rule new_fdE [OF sys_ok_socket [OF S f] False])
      (use sys_ok_fds(1) [OF S o2] in \<open>simp add: sys_ok_fds(6) [OF S]\<close>)
  with False f o2 z zinv_os [OF inv, of "sys_close S f o2"] show ?thesis by (simp add: zsocket_connect_def)
qed

lemma connect_opens:
  assumes inv: "zinv S xs w" and S: "sys_ok S" and s: "s \<notin> set xs" and z: "zs w s = Some z" "idle z"
    and lib: "lib_init w" and f: "sys_socket S (os w) = (f, o1)" "f \<noteq> -1" "fst (sys_connect S f addr o1) \<noteq> -1"
  shows "\<exists>w' z'. zsocket_connect S H s addr cb w =
      (case cb of None \<Rightarrow> Inr (0, w') | Some c \<Rightarrow> bnd (on_connected H c s w') (\<lambda>w. Inr (0, w))) \<and>
    zinv S (s # xs) w' \<and> zs w' = (zs w)(s \<mapsto> z') \<and> stype z' = ZS_T_CLIENT \<and> live z' \<and>
    raddr z' = addr \<and> in_looping w' = in_looping w"
proof -
  note fd = new_fdE [OF sys_ok_socket [OF S f(1)] f(2)]
  note fds = sys_ok_fds [OF S]
  obtain r o2 where r: "sys_connect S f addr o1 = (r, o2)" "r \<noteq> -1" using f(3) by (cases "sys_connect S f addr o1") auto
  obtain la o4 where la: "sys_getsockname S f (sys_setsockopt S f o2) = (la, o4)"
    by (cases "sys_getsockname S f (sys_setsockopt S f o2)")
  obtain now o5 where now: "sys_time S o4 = (now, o5)" by (cases "sys_time S o4")
  define z' where "z' = z\<lparr>fd := f, raddr := addr, laddr := la, stype := ZS_T_CLIENT, tick := now, connected_cb := cb\<rparr>"
  have lv: "live z" "live z'" using z(2) by (simp_all add: idle_def is_set_def z'_def)
  have "f \<notin> sys_fds S (os w)" by (rule fd)
  then have "sock_ok (fds_read w) (fds_write w) z'"
    using z(2) fd zinv_fd_fresh [OF inv] by (auto simp: z'_def sock_ok_simps idle_def buf_ok_def)
  moreover have "sys_fds S o5 = insert f (sys_fds S (os w))"
    by (rule fd) (use fds(1) [OF r(1)] fds(5) [OF la] fds(9) [OF now] in \<open>simp add: fds(4)\<close>)
  ultimately obtain l where l: "list_add s socks (links w) = Inr l"
    "zinv S (s # xs) (w\<lparr>zs := (zs w)(s \<mapsto> z'), os := o5, links := l, status := count_opened (stype z') (status w)\<rparr>)"
    using zinv_open_idle [OF inv _ s lib, of z' o5] z(1) lv(2) \<open>f \<notin> sys_fds S (os w)\<close> by (auto simp: z'_def)
  let ?w = "w\<lparr>zs := (zs w)(s \<mapsto> z'), os := o5, links := l, status := count_opened (stype z') (status w)\<rparr>"
  have "zsocket_connect S H s addr cb w =
    (case cb of None \<Rightarrow> Inr (0, ?w) | Some c \<Rightarrow> bnd (on_connected H c s ?w) (\<lambda>w. Inr (0, w)))"
    using f(1,2) r la now z(1) lv(1) l(1)
    by (cases cb) (simp_all add: zsocket_connect_def put_zs_def Let_def z'_def)
  with l(2) lv(2) show ?thesis by (intro exI [of _ ?w] exI [of _ z']) (simp add: z'_def)
qed

lemma connect_inv:
  assumes inv: "zinv S xs w" and S: "sys_ok S" and s: "s \<notin> set xs" and z: "zs w s = Some z" "idle z"
    and lib: "lib_init w"
  shows "(\<exists>w'. zsocket_connect S H s addr cb w = Inr (-1, w') \<and> zinv S xs w' \<and> zs w' = zs w \<and>
      sys_fds S (os w') = sys_fds S (os w)) \<or>
    (\<exists>w' z'. zsocket_connect S H s addr cb w =
        (case cb of None \<Rightarrow> Inr (0, w') | Some c \<Rightarrow> bnd (on_connected H c s w') (\<lambda>w. Inr (0, w))) \<and>
      zinv S (s # xs) w' \<and> zs w' = (zs w)(s \<mapsto> z') \<and> stype z' = ZS_T_CLIENT \<and> live z' \<and>
      raddr z' = addr \<and> in_looping w' = in_looping w)"
proof -
  obtain f o1 where f: "sys_socket S (os w) = (f, o1)" by (cases "sys_socket S (os w)")
  have "live z" using z(2) by (simp add: idle_def is_set_def)
  then show ?thesis
    using connect_fails [OF inv S z(1) _ f, of addr H cb] connect_opens [OF inv S s z lib f, of addr H cb] by blast
qed

lemma listen_fails:
  assumes inv: "zinv S xs w" and S: "sys_ok S" and z: "zs w s = Some z" "live z" and cb: "cb \<noteq> None"
    and f: "sys_socket S (os w) = (f, o1)" and r: "f = -1 \<or> fst (sys_bind S f addr o1) = -1"
  shows "\<exists>w'. zsocket_listen S s addr cb w = Inr (-1, w') \<and> zinv S xs w' \<and> zs w' = zs w \<and>
    sys_fds S (os w') = sys_fds S (os w) \<and> in_looping w' = in_looping w"
proof (cases "f = -1")
  case True
  with sys_ok_socket [OF S f] have "sys_fds S o1 = sys_fds S (os w)" by (auto simp: new_fd_def)
  with True f z cb zinv_os [OF inv, of o1] show ?thesis by (simp add: zsocket_listen_def)
next
  case False
  then obtain o2 where o2: "sys_bind S f addr o1 = (-1, o2)" using r by (cases "sys_bind S f addr o1") auto
  have "sys_fds S (sys_close S f o2) = sys_fds S (os w)"
    by (rule new_fdE [OF sys_ok_socket [OF S f] False])
      (use sys_ok_fds(2) [OF S o2] in \<open>simp add: sys_ok_fds(6) [OF S]\<close>)
  with False f o2 z cb zinv_os [OF inv, of "sys_close S f o2"] show ?thesis by (simp add: zsocket_listen_def)
qed

lemma listen_opens:
  assumes inv: "zinv S xs w" and S: "sys_ok S" and s: "s \<notin> set xs" and z: "zs w s = Some z" "idle z"
    and lib: "lib_init w" and cb: "cb \<noteq> None"
    and f: "sys_socket S (os w) = (f, o1)" "f \<noteq> -1" "fst (sys_bind S f addr o1) \<noteq> -1"
  shows "\<exists>w' z'. zsocket_listen S s addr cb w = Inr (0, w') \<and> in_looping w' = in_looping w \<and> zinv S (s # xs) w' \<and>
    zs w' = (zs w)(s \<mapsto> z') \<and> stype z' = ZS_T_SERVER \<and> live z' \<and> laddr z' = addr \<and>
    fds_read w' = insert (fd z') (fds_read w)"
proof -
  note fd = new_fdE [OF sys_ok_socket [OF S f(1)] f(2)]
  note fds = sys_ok_fds [OF S]
  obtain r o2 where r: "sys_bind S f addr o1 = (r, o2)" "r \<noteq> -1" using f(3) by (cases "sys_bind S f addr o1") auto
  define z' where "z' = z\<lparr>fd := f, laddr := addr, stype := ZS_T_SERVER, connection_cb := cb,
    state := state z OR ZS_S_READ_ENABLE\<rparr>"
  let ?o = "sys_setsockopt S f (sys_listen S f 100 o2)" and ?n = "if nfds_read w < f + 1 then f + 1 else nfds_read w"
  have lv: "live z" "live z'" using z(2) by (simp_all add: idle_def is_set_def z'_def flag_simps)
  have f': "0 \<le> f" "f < FD_SETSIZE" "f \<notin> sys_fds S (os w)" by (rule fd; assumption)+
  then have "sock_ok (insert f (fds_read w)) (fds_write w) z'" "insert f (fds_read w) - {f} = fds_read w"
    using z(2) cb zinv_fd_fresh [OF inv f'(3)] by (auto simp: z'_def sock_ok_simps idle_def buf_ok_def)
  moreover have "sys_fds S ?o = insert f (sys_fds S (os w))"
    by (rule fd) (use fds(2) [OF r(1)] in \<open>simp add: fds(3,4)\<close>)
  moreover have "below (insert f (fds_read w)) ?n" using below_set zinv_below [OF inv] f'(1) by blast
  ultimately obtain l where l: "list_add s socks (links w) = Inr l"
    "zinv S (s # xs) (w\<lparr>zs := (zs w)(s \<mapsto> z'), os := ?o, links := l, status := count_opened (stype z') (status w),
      nfds_read := ?n, fds_read := insert f (fds_read w)\<rparr>)"
    using zinv_open [OF inv _ s lib, of z' ?o "insert f (fds_read w)" ?n] z(1) lv(2) f'(3) by (auto simp: z'_def)
  let ?w = "w\<lparr>zs := (zs w)(s \<mapsto> z'), os := ?o, links := l, status := count_opened (stype z') (status w),
    nfds_read := ?n, fds_read := insert f (fds_read w)\<rparr>"
  have "zsocket_listen S s addr cb w = Inr (0, ?w)"
    using f(1,2) r z(1) lv(1) l(1) cb f'(1,2)
    by (simp add: zsocket_listen_def put_zs_def Let_def z'_def enable_read_def FD_SET_def)
  with l(2) lv(2) show ?thesis by (intro exI [of _ ?w] exI [of _ z']) (simp add: z'_def)
qed

lemma listen_inv:
  assumes inv: "zinv S xs w" and S: "sys_ok S" and s: "s \<notin> set xs" and z: "zs w s = Some z" "idle z"
    and lib: "lib_init w" and cb: "cb \<noteq> None"
  shows "\<exists>r w'. zsocket_listen S s addr cb w = Inr (r, w') \<and> in_looping w' = in_looping w \<and>
    (r = -1 \<and> zinv S xs w' \<and> zs w' = zs w \<and> sys_fds S (os w') = sys_fds S (os w) \<or>
     r = 0 \<and> zinv S (s # xs) w' \<and>
     (\<exists>z'. zs w' = (zs w)(s \<mapsto> z') \<and> stype z' = ZS_T_SERVER \<and> live z' \<and> laddr z' = addr \<and>
       fds_read w' = insert (fd z') (fds_read w)))"
proof -
  obtain f o1 where f: "sys_socket S (os w) = (f, o1)" by (cases "sys_socket S (os w)")
  have "live z" using z(2) by (simp add: idle_def is_set_def)
  then show ?thesis
    using listen_fails [OF inv S z(1) _ cb f, of addr] listen_opens [OF inv S s z lib cb f, of addr] by blast
qed

text \<open>
  \<open>zsocket_init\<close> on a structure of the application that is not in the list.
\<close>

lemma init_inv:
  assumes inv: "zinv S xs w" and s: "s \<in> dom (zs w)" "s \<notin> set xs"
  shows "\<exists>w'. zsocket_init s w = Inr w' \<and> zinv S xs w' \<and> lib_init w' \<and> zs w' = (zs w)(s \<mapsto> init_zsocket) \<and>
    in_looping w' = in_looping w \<and> dom (links w') = dom (links w) \<and> os w' = os w"
proof -
  have lo: "list_ok xs w" using inv by (simp add: zinv_def)
  then have sl: "s \<in> dom (links w)" "s \<noteq> socks" using s(1) by (auto simp: list_ok_def)
  obtain l where l: "INIT_LIST_HEAD s (links w) = Inr l" "same_off {s} (links w) l"
    using INIT_LIST_HEAD_in [OF sl(1)] by blast
  have ring: "ring l socks xs"
    by (rule ring_frame [OF _ l(2)]) (use lo s(2) sl(2) in \<open>auto simp: list_ok_def\<close>)
  have empty: "fds_read w = {} \<and> fds_write w = {}" if "\<not> lib_init w"
  proof -
    have "xs = []" using lo that by (simp add: list_ok_def)
    with zinv_fd_listed [OF inv] show ?thesis by auto
  qed
  define w0 where "w0 = (if lib_init w then w
    else w\<lparr>nfds_read := 0, fds_read := {}, nfds_write := 0, fds_write := {}, lib_init := True\<rparr>)"
  define w' where "w' = w0\<lparr>zs := (zs w)(s \<mapsto> init_zsocket), links := l\<rparr>"
  obtain z where z: "zs w s = Some z" using s(1) by auto
  have e: "zsocket_init s w = Inr w'"
    using z l(1) by (simp add: zsocket_init_def put_zs_def Let_def w'_def w0_def)
  have w0: "fds_read w0 = fds_read w" "fds_write w0 = fds_write w" "os w0 = os w" "status w0 = status w"
    "in_looping w0 = in_looping w" "lib_init w0"
    using empty by (auto simp: w0_def)
  have zs_xs: "zs w' x = zs w x" if "x \<in> set xs" for x using that s(2) by (auto simp: w'_def)
  have "fds_ok S xs w'"
  proof -
    have "below (fds_read w0) (nfds_read w0)" "below (fds_write w0) (nfds_write w0)"
      using zinv_below [OF inv] by (auto simp: w0_def below_def)
    then show ?thesis
      using inv zs_xs unfolding zinv_def fds_ok_def by (simp add: w'_def w0)
  qed
  moreover have "list_ok xs w'"
    using lo ring w0 z same_off_dom [OF l(2)] by (auto simp: list_ok_def w'_def)
  moreover have "stat_ok (status w') (zs w') xs"
    using stat_ok_off [OF zinv_stat [OF inv] s(2)] by (simp add: w'_def w0)
  ultimately have "zinv S xs w'" by (simp add: zinv_def)
  with e w0 same_off_dom [OF l(2)] show ?thesis by (simp add: w'_def)
qed

text \<open>
  \<open>calloc\<close> of a new structure, then \<open>zsocket_init\<close>: the new socket is allocated and unlisted.
\<close>

lemma alloc_inv:
  assumes inv: "zinv S xs w" and new: "c \<notin> dom (links w) \<union> {0, LIST_POISON1, LIST_POISON2}"
    and o1: "sys_fds S (os w) \<subseteq> sys_fds S o1"
  shows "zinv S xs ((put_zs c zero_zsocket w)\<lparr>links := (links w)(c \<mapsto> n), os := o1\<rparr>)" (is "zinv S xs ?w")
    and "c \<notin> set xs"
proof -
  have lo: "list_ok xs w" using inv by (simp add: zinv_def)
  then have sub: "set (socks # xs) \<subseteq> dom (links w)" using ring_dom [of "links w" socks xs] by (simp add: list_ok_def)
  with new show c: "c \<notin> set xs" by auto
  have "ring (links ?w) socks xs"
    by (rule ring_cong [of "links w"]) (use lo new sub in \<open>auto simp: list_ok_def\<close>)
  then have "list_ok xs ?w" using lo new sub by (auto simp: list_ok_def put_zs_def)
  moreover have "fds_ok S xs ?w"
  proof -
    have "zs ?w x = zs w x" if "x \<in> set xs" for x using that c by (auto simp: put_zs_def)
    then show ?thesis using inv zinv_os [OF inv o1] unfolding zinv_def fds_ok_def by (simp add: put_zs_def)
  qed
  moreover have "stat_ok (status ?w) (zs ?w) xs"
    using stat_ok_off [OF zinv_stat [OF inv] c] by (simp add: put_zs_def)
  ultimately show "zinv S xs ?w" by (simp add: zinv_def)
qed

lemma accept_prepare:
  assumes inv: "zinv S xs w" and S: "sys_ok S"
    and m: "sys_malloc S (dom (links w)) SIZEOF_ZSOCKET (os w) = (Some c, o1)"
  shows "\<exists>w1. zsocket_init c ((put_zs c zero_zsocket w)\<lparr>links := (links w)(c \<mapsto> \<lparr>prv = 0, nxt = 0\<rparr>), os := o1\<rparr>)
      = Inr w1 \<and> zinv S xs w1 \<and> lib_init w1 \<and> zs w1 = (zs w)(c \<mapsto> init_zsocket) \<and>
    in_looping w1 = in_looping w \<and> os w1 = o1 \<and> c \<notin> set xs \<and> c \<notin> dom (zs w) \<and>
    sys_fds S o1 = sys_fds S (os w)"
proof -
  have o1: "sys_fds S o1 = sys_fds S (os w)" by (rule sys_ok_fds(12) [OF S m])
  have new: "c \<notin> dom (links w) \<union> {0, LIST_POISON1, LIST_POISON2}"
    using sys_ok_malloc [OF S m] by simp
  then have "c \<notin> dom (zs w)" using inv by (auto simp: zinv_def list_ok_def)
  moreover have a: "zinv S xs ((put_zs c zero_zsocket w)\<lparr>links := (links w)(c \<mapsto> \<lparr>prv = 0, nxt = 0\<rparr>), os := o1\<rparr>)"
    "c \<notin> set xs"
    using alloc_inv [OF inv new] o1 by auto
  ultimately show ?thesis
    using init_inv [OF a(1) _ a(2)] o1 by (auto simp: put_zs_def)
qed

lemma accept_opens:
  assumes inv: "zinv S xs w" and S: "sys_ok S" and sv: "zs w s = Some sv" "live sv"
    and m: "sys_malloc S (dom (links w)) SIZEOF_ZSOCKET (os w) = (Some c, o1)"
    and f: "sys_accept S (fd sv) o1 = (f, ra, o2)" "f \<noteq> -1"
  shows "\<exists>w' z. zsocket_accept S k s w = Inr (Some c, w') \<and> in_looping w' = in_looping w \<and> zinv S (c # xs) w' \<and>
    lib_init w' \<and> c \<notin> dom (zs w) \<and> zs w' = (zs w)(c \<mapsto> z) \<and> stype z = ZS_T_CONNECTION \<and> live z \<and> state z = 0 \<and>
    stall z = STALL_INTERVAL \<and> fd z \<notin> sys_fds S (os w)"
proof -
  obtain w1 where w1: "zsocket_init c ((put_zs c zero_zsocket w)\<lparr>links := (links w)(c \<mapsto> \<lparr>prv = 0, nxt = 0\<rparr>), os := o1\<rparr>)
      = Inr w1" "zinv S xs w1" "lib_init w1" "zs w1 = (zs w)(c \<mapsto> init_zsocket)"
    "in_looping w1 = in_looping w" "os w1 = o1" "c \<notin> set xs" "c \<notin> dom (zs w)" "sys_fds S o1 = sys_fds S (os w)"
    using accept_prepare [OF inv S m] by blast
  note fd = new_fdE [OF sys_ok_accept [OF S f(1)] f(2)]
  note fds = sys_ok_fds [OF S]
  obtain la o4 where la: "sys_getsockname S f (sys_setsockopt S f o2) = (la, o4)"
    by (cases "sys_getsockname S f (sys_setsockopt S f o2)")
  obtain now o5 where now: "sys_time S o4 = (now, o5)" by (cases "sys_time S o4")
  define z where "z = init_zsocket\<lparr>fd := f, raddr := ra, laddr := la, stype := ZS_T_CONNECTION, tick := now\<rparr>"
  have lv: "live z" by (simp add: z_def init_zsocket_def is_set_def)
  have f': "0 \<le> f" "f < FD_SETSIZE" "f \<notin> sys_fds S (os w1)" by (rule fd; use w1(6) in simp)+
  then have "sock_ok (fds_read w1) (fds_write w1) z"
    using zinv_fd_fresh [OF w1(2) f'(3)] by (simp add: z_def init_zsocket_def sock_ok_simps buf_ok_def)
  moreover have "sys_fds S o5 = insert f (sys_fds S (os w1))"
    by (rule fd) (use fds(5) [OF la] fds(9) [OF now] w1(6) in \<open>simp add: fds(4)\<close>)
  ultimately obtain l where l: "list_add c socks (links w1) = Inr l"
    "zinv S (c # xs) (w1\<lparr>zs := (zs w1)(c \<mapsto> z), os := o5, links := l, status := count_opened (stype z) (status w1)\<rparr>)"
    using zinv_open_idle [OF w1(2) _ w1(7,3), of z o5] w1(4) lv f'(3) by (auto simp: z_def)
  let ?w = "w1\<lparr>zs := (zs w1)(c \<mapsto> z), os := o5, links := l, status := count_opened (stype z) (status w1)\<rparr>"
  have "zsocket_accept S k s w = Inr (Some c, ?w)"
    using sv m w1(1,4,6) f la now l(1) by (simp add: zsocket_accept_def Let_def put_zs_def z_def)
  with l(2) lv w1 f'(3) show ?thesis
    by (intro exI [of _ ?w] exI [of _ z]) (simp add: z_def init_zsocket_def)
qed

lemma accept_inv:
  assumes inv: "zinv S xs w" and S: "sys_ok S" and sv: "zs w s = Some sv" "live sv"
    and acc: "\<forall>c o1. sys_malloc S (dom (links w)) SIZEOF_ZSOCKET (os w) = (Some c, o1) \<longrightarrow>
      fst (sys_accept S (fd sv) o1) \<noteq> -1"
  shows "\<exists>r w'. zsocket_accept S k s w = Inr (r, w') \<and> in_looping w' = in_looping w \<and>
    (case r of
       None \<Rightarrow> zinv S xs w' \<and> zs w' = zs w
     | Some c \<Rightarrow> zinv S (c # xs) w' \<and> lib_init w' \<and> c \<notin> dom (zs w) \<and>
         (\<exists>z. zs w' = (zs w)(c \<mapsto> z) \<and> stype z = ZS_T_CONNECTION \<and> live z \<and> state z = 0 \<and>
           stall z = STALL_INTERVAL \<and> fd z \<notin> sys_fds S (os w)))"
proof -
  obtain a o1 where m: "sys_malloc S (dom (links w)) SIZEOF_ZSOCKET (os w) = (a, o1)"
    by (cases "sys_malloc S (dom (links w)) SIZEOF_ZSOCKET (os w)")
  show ?thesis
  proof (cases a)
    case None
    with sv m sys_ok_fds(12) [OF S m] zinv_os [OF inv, of o1] show ?thesis by (simp add: zsocket_accept_def)
  next
    case (Some c)
    obtain f ra o2 where f: "sys_accept S (fd sv) o1 = (f, ra, o2)" by (cases "sys_accept S (fd sv) o1")
    with acc m Some have "f \<noteq> -1" by simp
    then show ?thesis using accept_opens [OF inv S sv _ f, of c k] m Some by fastforce
  qed
qed

text \<open>
  Where \<open>accept\<close> fails, the assertion in \<open>__zsocket_close\<close> that the socket is marked closed does
  not hold of the socket just initialised.
\<close>

lemma accept_fails:
  assumes inv: "zinv S xs w" and S: "sys_ok S" and sv: "zs w s = Some sv" "live sv"
    and m: "sys_malloc S (dom (links w)) SIZEOF_ZSOCKET (os w) = (Some c, o1)"
    and acc: "fst (sys_accept S (fd sv) o1) = -1"
  shows "zsocket_accept S k s w = Inl Assert_Failed"
proof -
  obtain w1 where w1: "zsocket_init c ((put_zs c zero_zsocket w)\<lparr>links := (links w)(c \<mapsto> \<lparr>prv = 0, nxt = 0\<rparr>), os := o1\<rparr>)
      = Inr w1" "zs w1 = (zs w)(c \<mapsto> init_zsocket)" "os w1 = o1"
    using accept_prepare [OF inv S m] by blast
  obtain ra o2 where f: "sys_accept S (fd sv) o1 = (-1, ra, o2)" using acc by (cases "sys_accept S (fd sv) o1") auto
  show ?thesis
    using sv m w1 f by (simp add: zsocket_accept_def Let_def is_set_def init_zsocket_def)
qed

end
