(* ===== verification/Zsocket_Io.thy ===== *)
theory Zsocket_Io
  imports Zsocket_Inv
begin

text \<open>
  The data path of a socket: what \<open>zsocket_write\<close> queues, what \<open>zsocket_handle_send\<close> sends, what
  \<open>zsocket_handle_recv\<close> hands to the callback; each as an effect on the abstract queues
  \<open>in_queue\<close> and \<open>out_queue\<close>, together with the preservation of the invariant.
\<close>

definition queue_of :: "qbuf option \<Rightarrow> byte list" where
  "queue_of b = (case b of None \<Rightarrow> [] | Some q \<Rightarrow> contents q)"

abbreviation out_queue :: "zsocket \<Rightarrow> byte list" where "out_queue z \<equiv> queue_of (wbuf z)"
abbreviation in_queue :: "zsocket \<Rightarrow> byte list" where "in_queue z \<equiv> queue_of (rbuf z)"

section \<open>Writing\<close>

text \<open>Enabling to write: the queue is there and the descriptor is in the set.\<close>

lemma write_enabled:
  assumes inv: "zinv S xs w" and s: "s \<in> set xs" and z: "zs w s = Some z" "live z"
  shows "is_set ZS_S_WRITE_ENABLE z \<Longrightarrow> \<exists>q. wbuf z = Some q \<and> qbuf_inv q \<and> fd z \<in> fds_write w"
    and "\<not> is_set ZS_S_WRITE_ENABLE z \<Longrightarrow> wbuf z = None"
proof -
  have ok: "sock_ok (fds_read w) (fds_write w) z" using zinv_listed [OF inv s] z by auto
  show "is_set ZS_S_WRITE_ENABLE z \<Longrightarrow> \<exists>q. wbuf z = Some q \<and> qbuf_inv q \<and> fd z \<in> fds_write w"
    using ok z(2) by (cases "wbuf z") (simp_all add: sock_ok_def buf_ok_def)
  show "\<not> is_set ZS_S_WRITE_ENABLE z \<Longrightarrow> wbuf z = None"
    using ok z(2) by (simp add: sock_ok_def)
qed

text \<open>
  The write itself, from a world in which the queue may just have been made: \<open>w0\<close> is the world
  before, \<open>z\<close> the socket with its queue and with writing enabled.
\<close>

lemma write_wbuf_inv:
  assumes inv: "zinv S xs w0" and S: "sys_ok S" and s: "s \<in> set xs" and z0: "zs w0 s = Some z0" "live z0"
    and z: "z = z0\<lparr>wbuf := Some q, state := st\<rparr>" and q: "qbuf_inv q"
    and st: "live z" "is_set ZS_S_WRITE_ENABLE z" "is_set ZS_S_READ_ENABLE z = is_set ZS_S_READ_ENABLE z0"
    and len: "unat len < 2 ^ 63" "unat len \<le> length buf"
    and w: "w = w0\<lparr>os := o1, nfds_write := nf, fds_write := insert (fd z) (fds_write w0), zs := (zs w0)(s \<mapsto> z)\<rparr>"
    and o1: "sys_fds S o1 = sys_fds S (os w0)"
    and nf: "below (insert (fd z) (fds_write w0)) nf"
  shows "\<exists>n q' w'. write_wbuf S s buf len z w = Inr (n, w') \<and> zinv S xs w' \<and> n \<le> len \<and> qbuf_inv q' \<and>
    contents q' = contents q @ take (unat n) buf \<and> zs w' = (zs w0)(s \<mapsto> z\<lparr>wbuf := Some q'\<rparr>) \<and>
    fds_write w' = insert (fd z) (fds_write w0) \<and> fds_read w' = fds_read w0 \<and> links w' = links w0 \<and>
    in_looping w' = in_looping w0"
proof -
  have ok: "sock_ok (fds_read w0) (fds_write w0) z0" using zinv_listed [OF inv s] z0 by auto
  obtain ra o2 where ra: "sys_realloc S o1 = (ra, o2)" by (cases "sys_realloc S o1")
  obtain n q' where n: "qbuf_write ra buf len q = Inr (n, q')" "qbuf_inv q'" "n \<le> len"
    "contents q' = contents q @ take (unat n) buf"
    using qbuf_write_contents [OF q len] by blast
  define w' where "w' = w\<lparr>zs := (zs w0)(s \<mapsto> z\<lparr>wbuf := Some q'\<rparr>), os := o2\<rparr>"
  have "write_wbuf S s buf len z w = Inr (n, w')"
    using ra n(1) by (simp add: write_wbuf_def put_zs_def w'_def w z)
  moreover have "zinv S xs w'"
  proof (rule zinv_update [OF inv s z0(1)])
    show "sock_ok (fds_read w') (fds_write w') (z\<lparr>wbuf := Some q'\<rparr>)"
      using ok st z0(2) n(2) by (auto simp: w'_def w z sock_ok_def is_set_def buf_ok_def)
    show "below (fds_read w') (nfds_read w')" "below (fds_write w') (nfds_write w')"
      using zinv_below [OF inv] nf by (auto simp: w'_def w)
    show "sys_fds S (os w') = sys_fds S (os w0)" using sys_ok_fds(11) [OF S ra] o1 by (simp add: w'_def)
    show "stat_ok (status w') (zs w') xs"
      using stat_ok_keep [OF zinv_stat [OF inv] _ s z0(1), of "z\<lparr>wbuf := Some q'\<rparr>"] zinv_distinct [OF inv] st(1) z0(2)
      by (simp add: w'_def w z is_set_def)
  qed (auto simp: w'_def w z)
  ultimately show ?thesis using n by (auto simp: w'_def w)
qed

text \<open>
  \<open>zsocket_write\<close> on a live socket returns -1 and queues nothing where the first queue cannot
  be allocated; otherwise it queues a prefix of the block, says how long it is, and the
  descriptor is in the set handed to \<open>select\<close>.
\<close>

definition write_result ::
  "zsocket \<Rightarrow> zsocket \<Rightarrow> byte list \<Rightarrow> bool" where
  "write_result z z' bs \<longleftrightarrow> live z' \<and> wbuf z' \<noteq> None \<and> out_queue z' = out_queue z @ bs \<and>
     z' = z\<lparr>wbuf := wbuf z', state := state z'\<rparr>"

lemma write_first:
  assumes inv: "zinv S xs w" and S: "sys_ok S" and s: "s \<in> set xs" and z: "zs w s = Some z" "live z"
    and len: "unat len < 2 ^ 63" "unat len \<le> length buf" and False: "\<not> is_set ZS_S_WRITE_ENABLE z"
  shows "\<exists>n w'. zsocket_write S s buf len w = Inr (n, w') \<and> zinv S xs w' \<and> in_looping w' = in_looping w \<and>
    fds_read w' = fds_read w \<and> links w' = links w \<and>
    (n = -1 \<and> wbuf z = None \<and> zs w' = zs w \<or>
     n \<le> len \<and> fds_write w' = insert (fd z) (fds_write w) \<and>
     (\<exists>z'. zs w' = (zs w)(s \<mapsto> z') \<and> write_result z z' (take (unat n) buf)))"
proof -
  have ok: "0 \<le> fd z" "fd z < FD_SETSIZE" using zinv_listed [OF inv s] z by (auto simp: sock_ok_def)
  have none: "wbuf z = None" by (rule write_enabled(2) [OF inv s z False])
  obtain b o1 where b: "new_qbuf S WRITE_BUF_SIZE (os w) = (b, o1)" by (cases "new_qbuf S WRITE_BUF_SIZE (os w)")
  note nb = new_qbuf_inv [OF S b]
  show ?thesis
  proof (cases b)
    case None
    have "zsocket_write S s buf len w = Inr (-1, w\<lparr>os := o1\<rparr>)"
      using z False none b None by (cases z) (auto simp: zsocket_write_def put_zs_def fun_upd_idem)
    with zinv_os [OF inv, of o1] nb(1) none show ?thesis by simp
  next
    case (Some q)
    define z1 where "z1 = z\<lparr>wbuf := Some q, state := state z OR ZS_S_WRITE_ENABLE\<rparr>"
    define nf where "nf = (if nfds_write w < fd z + 1 then fd z + 1 else nfds_write w)"
    define w1 where "w1 = w\<lparr>os := o1, nfds_write := nf, fds_write := insert (fd z) (fds_write w), zs := (zs w)(s \<mapsto> z1)\<rparr>"
    have e: "zsocket_write S s buf len w = write_wbuf S s buf len z1 w1"
      using z False none b Some ok
      by (simp add: zsocket_write_def Let_def enable_write_def FD_SET_def put_zs_def z1_def w1_def nf_def)
    have "\<exists>n q' w'. write_wbuf S s buf len z1 w1 = Inr (n, w') \<and> zinv S xs w' \<and> n \<le> len \<and> qbuf_inv q' \<and>
      contents q' = contents q @ take (unat n) buf \<and> zs w' = (zs w)(s \<mapsto> z1\<lparr>wbuf := Some q'\<rparr>) \<and>
      fds_write w' = insert (fd z1) (fds_write w) \<and> fds_read w' = fds_read w \<and> links w' = links w \<and>
      in_looping w' = in_looping w"
      by (rule write_wbuf_inv [OF inv S s z z1_def, where nf = nf and ?o1.0 = o1])
        (use z(2) len nb Some below_set [of "fds_write w" "nfds_write w" "fd z"] zinv_below [OF inv] ok
          in \<open>auto simp: z1_def w1_def nf_def is_set_def flag_simps buf_ok_def\<close>)
    moreover have "write_result z (z1\<lparr>wbuf := Some q'\<rparr>) (take m buf)"
      if "contents q' = contents q @ take m buf" for q' m
      using that nb(3) [OF Some] none z(2)
      by (simp add: write_result_def z1_def queue_of_def is_set_def flag_simps)
    ultimately show ?thesis unfolding e z1_def by fastforce
  qed
qed

lemma write_inv:
  assumes inv: "zinv S xs w" and S: "sys_ok S" and s: "s \<in> set xs" and z: "zs w s = Some z" "live z"
    and len: "unat len < 2 ^ 63" "unat len \<le> length buf"
  shows "\<exists>n w'. zsocket_write S s buf len w = Inr (n, w') \<and> zinv S xs w' \<and> in_looping w' = in_looping w \<and>
    fds_read w' = fds_read w \<and> links w' = links w \<and>
    (n = -1 \<and> wbuf z = None \<and> zs w' = zs w \<or>
     n \<le> len \<and> fds_write w' = insert (fd z) (fds_write w) \<and>
     (\<exists>z'. zs w' = (zs w)(s \<mapsto> z') \<and> write_result z z' (take (unat n) buf)))"
proof (cases "is_set ZS_S_WRITE_ENABLE z")
  case True
  from write_enabled(1) [OF inv s z True] obtain q where
    q: "wbuf z = Some q" "qbuf_inv q" "fd z \<in> fds_write w" by blast
  have "\<exists>n q' w'. write_wbuf S s buf len z w = Inr (n, w') \<and> zinv S xs w' \<and> n \<le> len \<and> qbuf_inv q' \<and>
    contents q' = contents q @ take (unat n) buf \<and> zs w' = (zs w)(s \<mapsto> z\<lparr>wbuf := Some q'\<rparr>) \<and>
    fds_write w' = insert (fd z) (fds_write w) \<and> fds_read w' = fds_read w \<and> links w' = links w \<and>
    in_looping w' = in_looping w"
    by (rule write_wbuf_inv [OF inv S s z _ q(2), where st = "state z" and nf = "nfds_write w" and ?o1.0 = "os w"])
      (use z(2) True len q z(1) zinv_below [OF inv] in \<open>auto simp: insert_absorb fun_upd_idem\<close>)
  with z True q show ?thesis
    by (fastforce simp: zsocket_write_def write_result_def queue_of_def is_set_def)
qed (rule write_first [OF assms])

section \<open>Sending\<close>

text \<open>Storing other buffers, times or failure marks, with the enabling flags as they are.\<close>

lemma zinv_store:
  assumes inv: "zinv S xs w" and s: "s \<in> set xs" and z: "zs w s = Some z"
    and z1: "z1 = z\<lparr>rbuf := rbuf z1, wbuf := wbuf z1, tick := tick z1\<rparr>" "buf_ok (rbuf z1)" "buf_ok (wbuf z1)"
      "wbuf z1 = None \<longleftrightarrow> wbuf z = None"
    and o1: "sys_fds S o1 = sys_fds S (os w)"
  shows "zinv S xs (put_zs s z1 (w\<lparr>os := o1\<rparr>))"
proof -
  have same: "fd z1 = fd z" "stype z1 = stype z" "state z1 = state z" "connection_cb z1 = connection_cb z"
    "read_cb z1 = read_cb z" by (subst z1(1), simp)+
  show ?thesis
  proof (rule zinv_update [OF inv s z])
    have "sock_ok (fds_read w) (fds_write w) z" using zinv_listed [OF inv s] z by auto
    with same z1(2-4) show "sock_ok (fds_read (put_zs s z1 (w\<lparr>os := o1\<rparr>))) (fds_write (put_zs s z1 (w\<lparr>os := o1\<rparr>))) z1"
      by (auto simp: sock_ok_def is_set_def put_zs_def split: if_splits)
    show "stat_ok (status (put_zs s z1 (w\<lparr>os := o1\<rparr>))) (zs (put_zs s z1 (w\<lparr>os := o1\<rparr>))) xs"
      using stat_ok_keep [OF zinv_stat [OF inv] _ s z, of z1] zinv_distinct [OF inv] same
      by (simp add: put_zs_def is_set_def)
  qed (use zinv_below [OF inv] same o1 in \<open>auto simp: put_zs_def\<close>)
qed

lemma unat_word_of_int: "0 \<le> n \<Longrightarrow> n < 2 ^ 64 \<Longrightarrow> unat (word_of_int n :: size_t) = nat n"
  by (simp add: unat_eq_nat_uint uint_word_of_int_eq take_bit_int_eq_self)

text \<open>Consuming from a queue: the head moves, then the rest may move to the front.\<close>

lemma consume_inv:
  assumes "qbuf_inv q" and "unat nr \<le> length (contents q)"
  shows "\<exists>q'. consume nr q = Inr q' \<and> qbuf_inv q' \<and> contents q' = drop (unat nr) (contents q) \<and>
    bsize q' = bsize q"
proof (cases "nr = 0")
  case True
  with assms(1) show ?thesis by (simp add: consume_def)
next
  case False
  have "unat (offset_out q) + unat nr < 2 ^ 64"
    using assms qbuf_nat [OF assms(1)] length_contents [OF assms(1)] by simp
  note o = qbuf_offset_out_head_inv [OF assms(1) this]
  from qbuf_collect_inv [OF o(1), of QBUF_COLLECT_POLICY_LESS_SPARE] o False show ?thesis
    by (auto simp: consume_def)
qed

lemma send_limit:
  assumes S: "sys_ok S" and snd: "sys_send S f buf o1 = (n, o2)" and len: "length buf < 2 ^ 31"
  shows "to_int n = n" and "-1 \<le> n" and "n \<noteq> -1 \<Longrightarrow> 0 \<le> n \<and> n \<le> int (length buf)"
proof -
  have "n = -1 \<or> 0 \<le> n \<and> n \<le> int (length buf)"
    using S snd unfolding sys_ok_def by (metis fst_conv)
  then show "-1 \<le> n" and "n \<noteq> -1 \<Longrightarrow> 0 \<le> n \<and> n \<le> int (length buf)" and "to_int n = n"
    using len by (auto intro!: to_int_id)
qed

lemma queue_read:
  "qbuf_inv q \<Longrightarrow> rd (rawbuf q) (qbuf_rawbuf_out_pos q) (unat (qbuf_used q)) = Inr (contents q)"
  using qbuf_nat [of q] by (simp add: contents_def qbuf_rawbuf_out_pos_def)

text \<open>Closing inside the event loop, after other flags or buffers were stored.\<close>

lemma close_put:
  assumes inv: "zinv S xs w" and s: "s \<in> set xs" and z: "zs w s = Some z" "live z" and loop: "in_looping w"
    and z1: "live z1" "fd z1 = fd z" "stype z1 = stype z" "buf_ok (rbuf z1)" "buf_ok (wbuf z1)"
    and o1: "sys_fds S o1 = sys_fds S (os w)"
  shows "\<exists>w' z'. zsocket_close S k s cb (put_zs s z1 (w\<lparr>os := o1\<rparr>)) = Inr w' \<and> zinv S xs w' \<and>
    zs w' = (zs w)(s \<mapsto> z') \<and> \<not> live z' \<and> in_looping w' \<and> links w' = links w \<and>
    fd z' = fd z1 \<and> stype z' = stype z1 \<and> rbuf z' = rbuf z1 \<and> wbuf z' = wbuf z1"
proof -
  obtain w' where w': "mark_closed s cb (put_zs s z1 (w\<lparr>os := o1\<rparr>)) = Inr w'" "zinv S xs w'"
    "zs w' = (zs w)(s \<mapsto> z1\<lparr>state := state z1 OR ZS_S_EOF, close_cb := cb\<rparr>)" "links w' = links w"
    "in_looping w' = in_looping w"
    using mark_closed_put [OF inv s z z1 o1, of cb] by blast
  have "zsocket_close S k s cb (put_zs s z1 (w\<lparr>os := o1\<rparr>)) = Inr w'" using w'(1,5) loop by simp
  with w' loop show ?thesis by (auto simp: is_set_def flag_simps)
qed

text \<open>
  One round of sending, in the event loop: what \<open>send\<close> took leaves the front of the queue; a
  failure, or a queue that still has no room after it, marks the socket closed.
\<close>

lemma handle_send_some:
  assumes inv: "zinv S xs w" and s: "s \<in> set xs" and z: "zs w s = Some z" "live z"
    and en: "is_set ZS_S_WRITE_ENABLE z" and loop: "in_looping w" and t: "stype z \<noteq> ZS_T_NONE" "buf_ok (rbuf z)"
    and q: "wbuf z = Some q" "qbuf_inv q" and used: "qbuf_used q \<noteq> 0"
    and snd: "sys_send S (fd z) (contents q) (os w) = (n, o1)" "to_int n = n" "0 < n" "n \<le> int (length (contents q))"
    and o1: "sys_fds S o1 = sys_fds S (os w)"
  shows "\<exists>w' z'. zsocket_handle_send S k s w = Inr w' \<and> zinv S xs w' \<and> zs w' = (zs w)(s \<mapsto> z') \<and>
    in_looping w' \<and> links w' = links w \<and> fd z' = fd z \<and> rbuf z' = rbuf z \<and>
    out_queue z' = drop (nat n) (contents q)"
proof -
  define nr where "nr = (word_of_int n :: size_t)"
  have "n < 2 ^ 64"
    using snd(4) uint_lt2p [of "qbuf_used q"] length_contents [OF q(2)] by simp
  then have nr: "unat nr = nat n" using unat_word_of_int snd(3) by (simp add: nr_def)
  then have "nr \<noteq> 0" using snd(3) by auto
  have "nat n \<le> length (contents q)" using snd(4) by linarith
  then obtain q1 where q1: "consume nr q = Inr q1" "qbuf_inv q1" "contents q1 = drop (nat n) (contents q)"
    using consume_inv [OF q(2), of nr] nr by auto
  obtain r where r: "qbuf_collect QBUF_COLLECT_POLICY_LESS_SPARE (snd (qbuf_offset_out_head nr q)) = Inr (r, q1)"
    using q1(1) \<open>nr \<noteq> 0\<close> by (auto simp: consume_def)
  define z1 where "z1 = z\<lparr>wbuf := Some q1\<rparr>"
  define z2 where "z2 = z1\<lparr>state := state z1 AND ZS_S_WBUF_RUNOUT\<rparr>"
  have e: "zsocket_handle_send S k s w =
    (if qbuf_spare q1 = 0 then zsocket_close S k s None (put_zs s z2 (w\<lparr>os := o1\<rparr>))
     else Inr (put_zs s z1 (w\<lparr>os := o1\<rparr>)))"
    using z en t q used queue_read [OF q(2)] snd r
    by (simp add: zsocket_handle_send_def nr_def z1_def z2_def)
  show ?thesis
  proof (cases "qbuf_spare q1 = 0")
    case True
    have "live z2" "fd z2 = fd z" "stype z2 = stype z" "buf_ok (rbuf z2)" "buf_ok (wbuf z2)"
      using t q1(2) by (simp_all add: z2_def z1_def is_set_def flag_simps buf_ok_def)
    from close_put [OF inv s z loop this o1, of k None]
    obtain w' z' where w': "zsocket_close S k s None (put_zs s z2 (w\<lparr>os := o1\<rparr>)) = Inr w'" "zinv S xs w'"
      "zs w' = (zs w)(s \<mapsto> z')" "in_looping w'" "links w' = links w"
      "fd z' = fd z2" "rbuf z' = rbuf z2" "wbuf z' = wbuf z2" by blast
    with e True q1(3) show ?thesis
      by (intro exI [of _ w'] exI [of _ z']) (simp add: queue_of_def z2_def z1_def del: zsocket_close.simps)
  next
    case False
    have "zinv S xs (put_zs s z1 (w\<lparr>os := o1\<rparr>))"
      by (rule zinv_store [OF inv s z(1) _ _ _ _ o1]) (use t q q1 in \<open>auto simp: z1_def buf_ok_def\<close>)
    with e False q1(3) loop show ?thesis by (auto simp: put_zs_def z1_def queue_of_def)
  qed
qed

lemma handle_send_failed:
  assumes inv: "zinv S xs w" and s: "s \<in> set xs" and z: "zs w s = Some z" "live z"
    and en: "is_set ZS_S_WRITE_ENABLE z" and loop: "in_looping w" and t: "stype z \<noteq> ZS_T_NONE" "buf_ok (rbuf z)"
    and q: "wbuf z = Some q" "qbuf_inv q" and used: "qbuf_used q \<noteq> 0"
    and snd: "sys_send S (fd z) (contents q) (os w) = (n, o1)" "to_int n = -1"
    and o1: "sys_fds S o1 = sys_fds S (os w)"
  shows "\<exists>w' z'. zsocket_handle_send S k s w = Inr w' \<and> zinv S xs w' \<and> zs w' = (zs w)(s \<mapsto> z') \<and>
    in_looping w' \<and> links w' = links w \<and> fd z' = fd z \<and> rbuf z' = rbuf z \<and> \<not> live z'"
proof -
  define z1 where "z1 = z\<lparr>state := state z AND ZS_S_WRITE_FAILED\<rparr>"
  have "live z1" "fd z1 = fd z" "stype z1 = stype z" "buf_ok (rbuf z1)" "buf_ok (wbuf z1)"
    using t q by (simp_all add: z1_def buf_ok_def is_set_def flag_simps)
  moreover have "zsocket_handle_send S k s w = zsocket_close S k s None (put_zs s z1 (w\<lparr>os := o1\<rparr>))"
    using z en t q used queue_read [OF q(2)] snd by (simp add: zsocket_handle_send_def z1_def)
  ultimately show ?thesis
    using close_put [OF inv s z loop _ _ _ _ _ o1, of z1 k None] by (fastforce simp: z1_def)
qed

lemma handle_send_inv:
  assumes inv: "zinv S xs w" and S: "sys_ok S" and s: "s \<in> set xs" and z: "zs w s = Some z" "live z"
    and en: "is_set ZS_S_WRITE_ENABLE z" and loop: "in_looping w" and len: "length (out_queue z) < 2 ^ 31"
  shows "\<exists>w' z'. zsocket_handle_send S k s w = Inr w' \<and> zinv S xs w' \<and> zs w' = (zs w)(s \<mapsto> z') \<and>
    in_looping w' \<and> links w' = links w \<and> fd z' = fd z \<and> rbuf z' = rbuf z \<and>
    (let n = fst (sys_send S (fd z) (out_queue z) (os w)) in
     if out_queue z = [] then w' = w
     else if n = -1 then \<not> live z'
     else out_queue z' = drop (nat n) (out_queue z))"
proof -
  obtain q where q: "wbuf z = Some q" "qbuf_inv q" using write_enabled(1) [OF inv s z en] by blast
  then have oq: "out_queue z = contents q" by (simp add: queue_of_def)
  have "sock_ok (fds_read w) (fds_write w) z" using zinv_listed [OF inv s] z by auto
  then have t: "stype z \<noteq> ZS_T_NONE" "buf_ok (rbuf z)" by (auto simp: sock_ok_def)
  have zid: "zs w = (zs w)(s \<mapsto> z)" using z(1) by (simp add: fun_upd_idem)
  obtain n o1 where snd: "sys_send S (fd z) (contents q) (os w) = (n, o1)"
    by (cases "sys_send S (fd z) (contents q) (os w)")
  have o1: "sys_fds S o1 = sys_fds S (os w)" by (rule sys_ok_fds(8) [OF S snd])
  note lim = send_limit [OF S snd len [unfolded oq]]
  consider (empty) "contents q = []" | (fail) "contents q \<noteq> []" "n = -1"
    | (none) "contents q \<noteq> []" "n = 0" | (some) "contents q \<noteq> []" "0 < n" using lim by fastforce
  then show ?thesis
  proof cases
    case empty
    then have "zsocket_handle_send S k s w = Inr w"
      using z en t q used_eq_0 [OF q(2)] by (simp add: zsocket_handle_send_def)
    with inv zid loop oq empty show ?thesis by auto
  next
    case fail
    with used_eq_0 [OF q(2)] lim(1) have "qbuf_used q \<noteq> 0" "to_int n = -1" by simp_all
    from handle_send_failed [OF inv s z en loop t q this(1) snd this(2) o1, of k] fail snd oq show ?thesis by auto
  next
    case none
    then have "zsocket_handle_send S k s w = Inr (w\<lparr>os := o1\<rparr>)"
      using z en t q used_eq_0 [OF q(2)] queue_read [OF q(2)] snd lim(1) by (simp add: zsocket_handle_send_def)
    with zinv_os [OF inv, of o1] o1 none snd oq zid loop show ?thesis by auto
  next
    case some
    with lim used_eq_0 [OF q(2)] have "qbuf_used q \<noteq> 0" "0 < n" "n \<le> int (length (contents q))"
      by (auto simp: oq)
    from handle_send_some [OF inv s z en loop t q this(1) snd lim(1) this(2,3) o1] some snd oq
    show ?thesis by auto
  qed
qed

section \<open>Receiving\<close>

text \<open>
  After the callback: what it consumed leaves the queue. The buffer grows when it is full, and a
  refusal of the allocator then marks the socket closed.
\<close>

lemma after_read_full:
  assumes inv: "zinv S xs w" and S: "sys_ok S" and s: "s \<in> set xs" and z: "zs w s = Some z" "live z" "rbuf z = Some q"
    and loop: "in_looping w" and w: "buf_ok (wbuf z)" and q1: "consume nr q = Inr q1" "qbuf_inv q1" "qbuf_spare q1 = 0"
  shows "\<exists>w' z'. after_read S k s nr w = Inr w' \<and> zinv S xs w' \<and> zs w' = (zs w)(s \<mapsto> z') \<and>
    in_looping w' \<and> links w' = links w \<and> fd z' = fd z \<and> wbuf z' = wbuf z \<and> in_queue z' = contents q1 \<and>
    (z' = z\<lparr>rbuf := rbuf z'\<rparr> \<or> fst (sys_realloc S (os w)) = None \<or> OBJECT_MAX \<le> 2 * unat (bsize q1))"
proof -
  obtain ra o1 where ra: "sys_realloc S (os w) = (ra, o1)" by (cases "sys_realloc S (os w)")
  note o1 = sys_ok_fds(11) [OF S ra]
  define len where "len = push_bit 1 (qbuf_size q1)"
  note n = qbuf_nat [OF q1(2)]
  have u: "unat len = 2 * unat (bsize q1)" using unat_double [of "bsize q1"] n by (simp add: len_def qbuf_size_def)
  with n have len: "offset_in q1 \<le> len" "len \<noteq> 0" by (auto simp: word_le_nat_alt)
  obtain r q2 where q2: "qbuf_realloc ra len q1 = Inr (r, q2)" "qbuf_inv q2" "contents q2 = contents q1"
    "ra \<noteq> None \<and> unat len < OBJECT_MAX \<longleftrightarrow> r = 0"
    using qbuf_realloc_inv [OF q1(2) len, of ra] by blast
  define z1 where "z1 = z\<lparr>rbuf := Some q2\<rparr>"
  define z2 where "z2 = z1\<lparr>state := state z1 AND ZS_S_RBUF_RUNOUT\<rparr>"
  have e: "after_read S k s nr w =
    (if r \<noteq> 0 then zsocket_close S k s None (put_zs s z2 (w\<lparr>os := o1\<rparr>)) else Inr (put_zs s z1 (w\<lparr>os := o1\<rparr>)))"
    using z q1(1,3) ra q2(1) by (simp add: after_read_def len_def z1_def z2_def del: zsocket_close.simps)
  show ?thesis
  proof (cases "r = 0")
    case True
    have "zinv S xs (put_zs s z1 (w\<lparr>os := o1\<rparr>))"
      by (rule zinv_store [OF inv s z(1) _ _ _ _ o1]) (use w q2(2) in \<open>auto simp: z1_def buf_ok_def\<close>)
    with e True q2(3) loop show ?thesis by (auto simp: put_zs_def queue_of_def z1_def)
  next
    case False
    have "live z2" "fd z2 = fd z" "stype z2 = stype z" "buf_ok (rbuf z2)" "buf_ok (wbuf z2)"
      using w q2(2) by (simp_all add: z2_def z1_def is_set_def flag_simps buf_ok_def)
    from close_put [OF inv s z(1,2) loop this o1, of k None] obtain w' z' where
      w': "after_read S k s nr w = Inr w'" "zinv S xs w'" "zs w' = (zs w)(s \<mapsto> z')" "in_looping w'" "links w' = links w"
      "fd z' = fd z2" "rbuf z' = rbuf z2" "wbuf z' = wbuf z2" using e False by (auto simp del: zsocket_close.simps)
    have "fst (sys_realloc S (os w)) = None \<or> OBJECT_MAX \<le> 2 * unat (bsize q1)" using False q2(4) ra u by auto
    with w' q2(3) show ?thesis by (intro exI [of _ w'] exI [of _ z']) (simp add: queue_of_def z2_def z1_def)
  qed
qed

lemma after_read_inv:
  assumes inv: "zinv S xs w" and S: "sys_ok S" and s: "s \<in> set xs" and z: "zs w s = Some z"
    and room: "\<not> live z \<Longrightarrow> \<exists>q1. consume nr q = Inr q1 \<and> qbuf_spare q1 \<noteq> 0"
    and loop: "in_looping w" and q: "rbuf z = Some q" and nr: "unat nr \<le> length (contents q)"
  shows "\<exists>w' z'. after_read S k s nr w = Inr w' \<and> zinv S xs w' \<and> zs w' = (zs w)(s \<mapsto> z') \<and>
    in_looping w' \<and> links w' = links w \<and> fd z' = fd z \<and> wbuf z' = wbuf z \<and>
    in_queue z' = drop (unat nr) (contents q) \<and>
    (z' = z\<lparr>rbuf := rbuf z'\<rparr> \<or> fst (sys_realloc S (os w)) = None \<or> OBJECT_MAX \<le> 2 * unat (bsize q))"
proof -
  have "sock_ok (fds_read w) (fds_write w) z" using zinv_listed [OF inv s] z by auto
  then have ok: "qbuf_inv q" "buf_ok (wbuf z)" using q by (auto simp: sock_ok_def buf_ok_def)
  obtain q1 where q1: "consume nr q = Inr q1" "qbuf_inv q1" "contents q1 = drop (unat nr) (contents q)"
    "bsize q1 = bsize q" using consume_inv [OF ok(1) nr] by blast
  show ?thesis
  proof (cases "qbuf_spare q1 = 0")
    case False
    then have "after_read S k s nr w = Inr (put_zs s (z\<lparr>rbuf := Some q1\<rparr>) w)"
      using z q q1(1) by (simp add: after_read_def)
    moreover have "zinv S xs (put_zs s (z\<lparr>rbuf := Some q1\<rparr>) (w\<lparr>os := os w\<rparr>))"
      by (rule zinv_store [OF inv s z _ _ _ _ refl]) (use q1(2) ok in \<open>auto simp: buf_ok_def\<close>)
    ultimately show ?thesis using q1(3) loop by (auto simp: put_zs_def queue_of_def)
  next
    case True
    with room q1(1) have "live z" by auto
    from after_read_full [OF inv S s z this q loop ok(2) q1(1,2) True, of k] q1(3,4) show ?thesis by simp
  qed
qed

text \<open>
  The \<open>recv\<close> into the spare room: what arrived stands behind what was queued.
\<close>

lemma recv_into_inv:
  assumes S: "sys_ok S" and q: "qbuf_inv q" and spare: "unat (qbuf_spare q) < 2 ^ 31"
    and r: "sys_recv S (fd z) (qbuf_spare q) o1 = (n, bs, o2)" "n \<noteq> -1"
  shows "\<exists>q' now o3. recv_into S z q o1 = Inr (z\<lparr>rbuf := Some q', tick := now\<rparr>, o3) \<and> qbuf_inv q' \<and>
    contents q' = contents q @ bs \<and> bsize q' = bsize q \<and> sys_fds S o3 = sys_fds S o1 \<and>
    o3 = snd (sys_time S o2)"
proof -
  from sys_ok_recv [OF S r(1)] r(2) have n: "0 \<le> n" "n \<le> uint (qbuf_spare q)" "int (length bs) = n" by simp_all
  have "int (unat (qbuf_spare q)) < int (2 ^ 31)" using spare by (simp only: of_nat_less_iff)
  then have lim: "uint (qbuf_spare q) < 2 ^ 31" by simp
  with n have ti: "to_int n = n" by (intro to_int_id) auto
  have w: "unat (word_of_int n :: size_t) = nat n" using n lim by (intro unat_word_of_int) auto
  obtain now o3 where t: "sys_time S o2 = (now, o3)" by (cases "sys_time S o2")
  have fds: "sys_fds S o3 = sys_fds S o1" using sys_ok_fds(7) [OF S r(1)] sys_ok_fds(9) [OF S t] by simp
  show ?thesis
  proof (cases "n = 0")
    case True
    with r t ti n have "recv_into S z q o1 = Inr (z\<lparr>rbuf := Some q, tick := now\<rparr>, o3)" "bs = []"
      by (auto simp: recv_into_def)
    with q fds t show ?thesis by auto
  next
    case False
    have "length bs = unat (word_of_int n :: size_t)" using w n(3) by linarith
    moreover have "unat (word_of_int n :: size_t) \<le> unat (qbuf_spare q)"
      using w n by (simp add: nat_le_iff)
    ultimately obtain raw where raw: "wr (rawbuf q) (qbuf_rawbuf_in_pos q) bs = Inr raw"
      "qbuf_inv (snd (qbuf_offset_in_head (word_of_int n) (q\<lparr>rawbuf := raw\<rparr>)))"
      "contents (snd (qbuf_offset_in_head (word_of_int n) (q\<lparr>rawbuf := raw\<rparr>))) = contents q @ bs"
      "bsize (snd (qbuf_offset_in_head (word_of_int n) (q\<lparr>rawbuf := raw\<rparr>))) = bsize q"
      using qbuf_fill [OF q] by (auto simp: Let_def)
    have "recv_into S z q o1 =
      Inr (z\<lparr>rbuf := Some (snd (qbuf_offset_in_head (word_of_int n) (q\<lparr>rawbuf := raw\<rparr>))), tick := now\<rparr>, o3)"
      using r t ti n False raw(1) by (simp add: recv_into_def)
    with raw fds t show ?thesis by (metis snd_conv)
  qed
qed

text \<open>
  A readable socket, up to the callback: the buffer is made where there is none, the bytes that
  arrived join the queue, and the callback is handed the whole queue, in a world in which the
  invariant holds. \<open>recv_buffer\<close> is the buffer that \<open>recv\<close> fills.
\<close>

definition recv_buffer :: "'os sys \<Rightarrow> zsocket \<Rightarrow> 'os \<Rightarrow> qbuf option \<times> 'os" where
  "recv_buffer S z o1 = (case rbuf z of Some q \<Rightarrow> (Some q, o1) | None \<Rightarrow> new_qbuf S READ_BUF_SIZE o1)"

lemma recv_buffer_inv:
  assumes "sys_ok S" and "buf_ok (rbuf z)" and "recv_buffer S z o1 = (Some q, o2)"
  shows "qbuf_inv q" and "contents q = in_queue z" and "sys_fds S o2 = sys_fds S o1"
proof -
  have "qbuf_inv q \<and> contents q = in_queue z \<and> sys_fds S o2 = sys_fds S o1"
  proof (cases "rbuf z")
    case None
    with assms(3) have b: "new_qbuf S READ_BUF_SIZE o1 = (Some q, o2)" by (simp add: recv_buffer_def)
    from new_qbuf_inv [OF assms(1) b] None show ?thesis by (simp add: buf_ok_def queue_of_def)
  next
    case (Some q1)
    with assms show ?thesis by (simp add: recv_buffer_def buf_ok_def queue_of_def)
  qed
  then show "qbuf_inv q" and "contents q = in_queue z" and "sys_fds S o2 = sys_fds S o1" by simp_all
qed

definition after_callback :: "'os sys \<Rightarrow> nat \<Rightarrow> addr \<Rightarrow> size_t \<Rightarrow> int \<Rightarrow> 'os world \<Rightarrow> 'os world cres" where
  "after_callback S k s len nr w =
     c_assert (nr \<ge> 0) (after_read S k s (if word_of_int nr > len then len else word_of_int nr) w)"

lemma handle_recv_callback:
  assumes inv: "zinv S xs w" and S: "sys_ok S" and s: "s \<in> set xs" and z: "zs w s = Some z" "live z"
    and en: "is_set ZS_S_READ_ENABLE z" "stype z \<noteq> ZS_T_SERVER" "read_cb z = Some c" and loop: "in_looping w"
    and b: "recv_buffer S z (os w) = (Some q, o1)" and spare: "unat (qbuf_spare q) < 2 ^ 31"
    and r: "sys_recv S (fd z) (qbuf_spare q) o1 = (n, bs, o2)" "n \<noteq> -1"
  shows "\<exists>w1 z1 q1. zsocket_handle_recv S H k s w =
      bnd (on_read H c s (contents q1) (to_int (int (length (contents q1)))) w1)
        (\<lambda>(nr, w). after_callback S k s (qbuf_used q1) nr w) \<and>
    zinv S xs w1 \<and> zs w1 = (zs w)(s \<mapsto> z1) \<and> live z1 \<and> in_looping w1 \<and> links w1 = links w \<and>
    fd z1 = fd z \<and> wbuf z1 = wbuf z \<and> rbuf z1 = Some q1 \<and> contents q1 = in_queue z @ bs \<and>
    bsize q1 = bsize q \<and> state z1 = state z \<and> os w1 = snd (sys_time S o2)"
proof -
  have "sock_ok (fds_read w) (fds_write w) z" using zinv_listed [OF inv s] z by auto
  then have ok: "stype z \<noteq> ZS_T_NONE" "buf_ok (rbuf z)" "buf_ok (wbuf z)" by (auto simp: sock_ok_def)
  note bi = recv_buffer_inv [OF S ok(2) b]
  obtain q1 now o3 where q1: "recv_into S z q o1 = Inr (z\<lparr>rbuf := Some q1, tick := now\<rparr>, o3)" "qbuf_inv q1"
    "contents q1 = contents q @ bs" "sys_fds S o3 = sys_fds S o1" "bsize q1 = bsize q" "o3 = snd (sys_time S o2)"
    using recv_into_inv [OF S bi(1) spare r] by blast
  define z1 where "z1 = z\<lparr>rbuf := Some q1, tick := now\<rparr>"
  define w1 where "w1 = put_zs s z1 (w\<lparr>os := o3\<rparr>)"
  have w1: "(put_zs s z1 w)\<lparr>os := o3\<rparr> = w1" by (simp add: w1_def put_zs_def)
  have u: "uint (qbuf_used q1) = int (length (contents q1))" by (simp add: length_contents [OF q1(2)])
  have "zsocket_handle_recv S H k s w =
      bnd (on_read H c s (contents q1) (to_int (int (length (contents q1)))) w1)
        (\<lambda>(nr, w). after_callback S k s (qbuf_used q1) nr w)"
    using z en ok(1) b q1(1) queue_read [OF q1(2)] w1 u
    by (simp add: zsocket_handle_recv_def recv_buffer_def z1_def after_callback_def Let_def)
  moreover have "zinv S xs w1"
    unfolding w1_def
    by (rule zinv_store [OF inv s z(1)]) (use ok q1 bi in \<open>auto simp: z1_def buf_ok_def\<close>)
  ultimately show ?thesis
    using z(2) loop q1(3,5,6) bi(2)
    by (intro exI [of _ w1] exI [of _ z1] exI [of _ q1]) (simp add: w1_def put_zs_def z1_def is_set_def)
qed

text \<open>
  And after it. What the callback owes: it returns how many bytes it consumed, and leaves a
  world with the invariant, with the socket still listed and its read buffer untouched. It may
  open, close and write sockets, this one included; when it closed this one, there must be room
  left in the buffer (\<open>room\<close>), since the source closes a full one again.
\<close>

lemma after_callback_inv:
  assumes inv: "zinv S xs w" and S: "sys_ok S" and s: "s \<in> set xs" and z: "zs w s = Some z"
    and room: "\<not> live z \<Longrightarrow> \<exists>q1. consume (word_of_int nr) q = Inr q1 \<and> qbuf_spare q1 \<noteq> 0"
    and loop: "in_looping w" and q: "rbuf z = Some q"
    and nr: "0 \<le> nr" "nr \<le> int (length (contents q))"
  shows "\<exists>w' z'. after_callback S k s (qbuf_used q) nr w = Inr w' \<and> zinv S xs w' \<and> zs w' = (zs w)(s \<mapsto> z') \<and>
    in_looping w' \<and> links w' = links w \<and> fd z' = fd z \<and> wbuf z' = wbuf z \<and>
    in_queue z' = drop (nat nr) (contents q) \<and>
    (z' = z\<lparr>rbuf := rbuf z'\<rparr> \<or> fst (sys_realloc S (os w)) = None \<or> OBJECT_MAX \<le> 2 * unat (bsize q))"
proof -
  have "sock_ok (fds_read w) (fds_write w) z" using zinv_listed [OF inv s] z by auto
  then have ok: "qbuf_inv q" using q by (auto simp: sock_ok_def buf_ok_def)
  have "length (contents q) < 2 ^ 64" using length_contents [OF ok] unsigned_less [of "qbuf_used q"] by simp
  then have u: "unat (word_of_int nr :: size_t) = nat nr" using nr by (intro unat_word_of_int) auto
  then have le: "unat (word_of_int nr :: size_t) \<le> length (contents q)" using nr by linarith
  then have "\<not> word_of_int nr > qbuf_used q" using length_contents [OF ok] by (simp add: word_less_nat_alt)
  then have "after_callback S k s (qbuf_used q) nr w = after_read S k s (word_of_int nr) w"
    using nr by (simp add: after_callback_def)
  with after_read_inv [OF inv S s z room loop q le] u show ?thesis by simp
qed

end
