(* ===== verification/Zsocket_Sweep.thy ===== *)
theory Zsocket_Sweep
  imports Zsocket_Io
begin

text \<open>
  The sweep at the end of a round of the event loop (\<open>zsocket_do_close\<close>): the walk that survives
  the removal of the node it stands on, what it leaves of the list and of the sockets, and that no
  close callback is ever called.
\<close>

section \<open>When a sweep is defined\<close>

text \<open>
  \<open>fresh\<close>: the connection has not expired. A socket that is already marked closed must be fresh,
  since the source closes an expired one without looking at the mark. The sockets bound to the
  port of a server that is marked closed are live connections or clients, and fresh, since closing
  the server closes them.
\<close>

definition fresh :: "'os sys \<Rightarrow> zsocket \<Rightarrow> bool" where
  "fresh S z \<longleftrightarrow> stype z = ZS_T_CONNECTION \<longrightarrow> (\<forall>o1. fst (sys_time S o1) - tick z \<le> stall z)"

definition sweep_ok :: "'os sys \<Rightarrow> addr list \<Rightarrow> (addr \<rightharpoonup> zsocket) \<Rightarrow> bool" where
  "sweep_ok S xs m \<longleftrightarrow>
     (\<forall>x \<in> set xs. \<forall>z. m x = Some z \<longrightarrow> \<not> live z \<longrightarrow> fresh S z \<and>
       (stype z = ZS_T_SERVER \<longrightarrow>
         (\<forall>y \<in> set xs. \<forall>p. y \<noteq> x \<longrightarrow> m y = Some p \<longrightarrow> bound_to z (Some p) \<longrightarrow>
            stype p \<noteq> ZS_T_SERVER \<and> live p \<and> fresh S p)))"

lemma sweep_okD:
  assumes "sweep_ok S xs m" and "x \<in> set xs" and "m x = Some z" and "\<not> live z"
  shows "fresh S z"
    and "stype z = ZS_T_SERVER \<Longrightarrow> y \<in> set xs \<Longrightarrow> y \<noteq> x \<Longrightarrow> m y = Some p \<Longrightarrow> bound_to z (Some p) \<Longrightarrow>
      stype p \<noteq> ZS_T_SERVER \<and> live p \<and> fresh S p"
  using assms unfolding sweep_ok_def by blast+

text \<open>
  What a step does to a socket that stays listed: nothing, or the mark of a closed server. What
  it does to one that leaves: a connection is freed, the structure of another kind is released.
\<close>

definition marked :: "zsocket \<Rightarrow> zsocket" where
  "marked z = z\<lparr>state := state z OR ZS_S_EOF, close_cb := None\<rparr>"

definition kept :: "(addr \<rightharpoonup> zsocket) \<Rightarrow> (addr \<rightharpoonup> zsocket) \<Rightarrow> addr \<Rightarrow> bool" where
  "kept m m' x \<longleftrightarrow> (\<exists>z z'. m x = Some z \<and> m' x = Some z' \<and> (z' = z \<or> live z \<and> z' = marked z))"

definition gone :: "(addr \<rightharpoonup> zsocket) \<Rightarrow> (addr \<rightharpoonup> zsocket) \<Rightarrow> addr \<Rightarrow> bool" where
  "gone m m' x \<longleftrightarrow> (\<exists>z. m x = Some z \<and>
     (case m' x of
        None \<Rightarrow> stype z = ZS_T_CONNECTION
      | Some p \<Rightarrow> stype z \<noteq> ZS_T_CONNECTION \<and> fd p = -1 \<and> rbuf p = None \<and> wbuf p = None \<and> close_cb p = None))"

lemma marked_fields [simp]:
  "stype (marked z) = stype z" "laddr (marked z) = laddr z" "\<not> live (marked z)" "fresh S (marked z) = fresh S z"
  by (simp_all add: marked_def is_set_def flag_simps fresh_def)

lemma kept_trans: "kept m m1 x \<Longrightarrow> kept m1 m2 x \<Longrightarrow> kept m m2 x"
  by (auto simp: kept_def)

lemma kept_gone: "kept m m1 x \<Longrightarrow> gone m1 m2 x \<Longrightarrow> gone m m2 x"
  by (auto simp: kept_def gone_def split: option.splits)

lemma kept_live: "kept m m1 x \<Longrightarrow> m1 x = Some z1 \<Longrightarrow> live z1 \<Longrightarrow> m x = Some z1"
  by (auto simp: kept_def)

section \<open>The timeout\<close>

lemma expire_inv:
  assumes inv: "zinv S xs w" and S: "sys_ok S" and s: "s \<in> set xs" and z: "zs w s = Some z"
    and loop: "in_looping w" and fr: "\<not> live z \<Longrightarrow> fresh S z"
  shows "\<exists>w' z'. expire S k s w = Inr w' \<and> zinv S xs w' \<and> zs w' = (zs w)(s \<mapsto> z') \<and> in_looping w' \<and>
    links w' = links w \<and> stype z' = stype z \<and> (z' = z \<or> \<not> live z' \<and> stype z = ZS_T_CONNECTION)"
proof -
  have zid: "zs w = (zs w)(s \<mapsto> z)" using z by (simp add: fun_upd_idem)
  obtain now o1 where t: "sys_time S (os w) = (now, o1)" by (cases "sys_time S (os w)")
  note o1 = sys_ok_fds(9) [OF S t]
  show ?thesis
  proof (cases "stype z = ZS_T_CONNECTION \<and> now - tick z > stall z")
    case True
    then have lv: "live z" using fr t unfolding fresh_def by (metis fst_conv not_le)
    define z1 where "z1 = z\<lparr>state := state z AND ZS_S_TIMEOUT\<rparr>"
    have "sock_ok (fds_read w) (fds_write w) z" using zinv_listed [OF inv s] z by auto
    then have "live z1" "fd z1 = fd z" "stype z1 = stype z" "buf_ok (rbuf z1)" "buf_ok (wbuf z1)"
      by (simp_all add: z1_def sock_ok_def is_set_def flag_simps)
    from close_put [OF inv s z lv loop this o1, of k None]
    obtain w' z' where w': "zsocket_close S k s None (put_zs s z1 (w\<lparr>os := o1\<rparr>)) = Inr w'" "zinv S xs w'"
      "zs w' = (zs w)(s \<mapsto> z')" "\<not> live z'" "in_looping w'" "links w' = links w"
      "stype z' = stype z1" by blast
    then have "stype z' = stype z" by (simp add: z1_def)
    moreover have "expire S k s w = Inr w'"
      using z t True w'(1) by (simp add: expire_def z1_def del: zsocket_close.simps)
    ultimately show ?thesis using w' True by blast
  next
    case False
    then have "expire S k s w = Inr w \<or> expire S k s w = Inr (w\<lparr>os := o1\<rparr>)"
      using z t by (auto simp: expire_def Let_def)
    moreover have "zinv S xs (w\<lparr>os := o1\<rparr>)" using zinv_os [OF inv] o1 by simp
    ultimately show ?thesis using inv zid loop by auto
  qed
qed

section \<open>The marked socket\<close>

lemma free_inv:
  assumes inv: "zinv S xs w" and s: "s \<notin> set xs" "s \<noteq> socks"
  shows "zinv S xs (free_zsocket s w)"
proof -
  have l: "list_ok xs w" using inv by (simp add: zinv_def)
  have "ring (links w) socks xs" using l by (simp add: list_ok_def)
  then have "ring ((links w)(s := None)) socks xs" by (rule ring_cong) (use s in auto)
  with l s have "list_ok xs (free_zsocket s w)" by (auto simp: list_ok_def free_zsocket_def)
  moreover have "zs (free_zsocket s w) x = zs w x" if "x \<in> set xs" for x
    using that s by (auto simp: free_zsocket_def)
  moreover have "stat_ok (status w) (zs (free_zsocket s w)) xs"
    using stat_ok_off [OF zinv_stat [OF inv] s(1)] by (simp add: free_zsocket_def)
  moreover have "fds_read (free_zsocket s w) = fds_read w" "fds_write (free_zsocket s w) = fds_write w"
    "nfds_read (free_zsocket s w) = nfds_read w" "nfds_write (free_zsocket s w) = nfds_write w"
    "os (free_zsocket s w) = os w" "status (free_zsocket s w) = status w" by (simp_all add: free_zsocket_def)
  ultimately show ?thesis using inv by (simp add: zinv_def fds_ok_def)
qed

lemma sweep_inv:
  assumes inv: "zinv S xs w" and S: "sys_ok S" and s: "s \<in> set xs" and z: "zs w s = Some z" "\<not> live z"
    and k: "length xs \<le> k" and srv: "stype z = ZS_T_SERVER \<Longrightarrow> port_free s z xs w"
  shows "\<exists>w'. (\<forall>H. sweep S H k s w = Inr w') \<and> zinv S (remove1 s xs) w' \<and> in_looping w' = in_looping w \<and>
    zs w' = (closed_zs s z xs (zs w))(s := if stype z = ZS_T_CONNECTION then None else Some (released z))"
proof -
  obtain w1 where w1: "zsocket_close_now S k s w = Inr w1" "zinv S (remove1 s xs) w1"
    "zs w1 = closed_zs s z xs (zs w)" "in_looping w1 = in_looping w"
    using close_now_inv [OF inv S s z k srv] by blast
  have s1: "zs w1 s = Some (released z)" using w1(3) by (simp add: closed_zs_def)
  have out: "s \<notin> set (remove1 s xs)" "s \<noteq> socks" using zinv_distinct [OF inv] s by auto
  define w' where "w' = (if stype z = ZS_T_CONNECTION then free_zsocket s w1 else w1)"
  have "sweep S H k s w = Inr w'" for H
    using z w1(1) s1 by (simp add: sweep_def w'_def released_def del: zsocket_close_now.simps)
  moreover have "zinv S (remove1 s xs) w'" using free_inv [OF w1(2) out] w1(2) by (simp add: w'_def)
  ultimately show ?thesis using w1(3,4) s1
    by (auto simp: w'_def free_zsocket_def fun_upd_idem)
qed

lemma sweep_live: "zs w s = Some z \<Longrightarrow> live z \<Longrightarrow> sweep S H k s w = Inr w"
  by (simp add: sweep_def)

text \<open>The effect of closing \<open>s\<close> on the others, and why the sweep stays defined for them.\<close>

lemma closed_zs_other:
  assumes "x \<noteq> s" and "x \<in> set xs" and "m x = Some p"
    and "stype z = ZS_T_SERVER \<Longrightarrow> bound_to z (Some p) \<Longrightarrow> live p"
  shows "kept m (closed_zs s z xs m) x"
  using assms by (auto simp: kept_def closed_zs_def mark_bound_def marked_def)

lemma closed_zs_outside: "x \<notin> set xs \<Longrightarrow> x \<noteq> s \<Longrightarrow> closed_zs s z xs m x = m x"
  by (auto simp: closed_zs_def mark_bound_def dest: notin_set_remove1)

lemma sweep_ok_closed:
  assumes ok: "sweep_ok S xs m" and d: "distinct xs" and s: "s \<in> set xs" "m s = Some z" "\<not> live z"
  shows "sweep_ok S (remove1 s xs) (closed_zs s z xs m)"
  unfolding sweep_ok_def
proof (intro ballI allI impI conjI)
  let ?m = "closed_zs s z xs m"
  have sub: "x \<in> set xs \<and> x \<noteq> s" if "x \<in> set (remove1 s xs)" for x using that d by auto
  have orig: "\<exists>p0. m x = Some p0 \<and> stype p = stype p0 \<and> laddr p = laddr p0 \<and> fresh S p = fresh S p0 \<and>
      (p = p0 \<or> stype z = ZS_T_SERVER \<and> bound_to z (Some p0))"
    if "x \<in> set (remove1 s xs)" "?m x = Some p" for x p
    using that sub [OF that(1)]
    by (auto simp: closed_zs_def mark_bound_def split: if_splits simp flip: marked_def)
  fix x p assume x: "x \<in> set (remove1 s xs)" "?m x = Some p" "\<not> live p"
  obtain p0 where p0: "m x = Some p0" "stype p = stype p0" "laddr p = laddr p0" "fresh S p = fresh S p0"
    "p = p0 \<or> stype z = ZS_T_SERVER \<and> bound_to z (Some p0)" using orig [OF x(1,2)] by blast
  note D = sweep_okD [OF ok s]
  show "fresh S p" using p0 sweep_okD(1) [OF ok _ p0(1)] D(2) [of x p0] sub [OF x(1)] x(3) by metis
  fix y q assume srv: "stype p = ZS_T_SERVER" and y: "y \<in> set (remove1 s xs)" "y \<noteq> x" "?m y = Some q"
    and b: "bound_to p (Some q)"
  obtain q0 where q0: "m y = Some q0" "stype q = stype q0" "laddr q = laddr q0" "fresh S q = fresh S q0"
    "q = q0 \<or> stype z = ZS_T_SERVER \<and> bound_to z (Some q0)" using orig [OF y(1,3)] by blast
  have pp: "p = p0" using p0 D(2) [of x p0] sub [OF x(1)] srv by auto
  have "bound_to p0 (Some q0)" using b p0(3) q0(3) by simp
  then have res: "stype q0 \<noteq> ZS_T_SERVER" "live q0" "fresh S q0"
    using sweep_okD(2) [OF ok _ p0(1), of y q0] sub [OF x(1)] sub [OF y(1)] x(3) srv y(2) q0(1) pp by auto
  have "q = q0"
  proof (rule ccontr)
    assume "q \<noteq> q0"
    with q0 have "stype z = ZS_T_SERVER" "bound_to z (Some q0)" by auto
    with b p0(3) q0(3) have "bound_to z (Some p0)" by auto
    with D(2) [of x p0] \<open>stype z = ZS_T_SERVER\<close> sub [OF x(1)] p0 srv show False by auto
  qed
  with res show "stype q \<noteq> ZS_T_SERVER" "live q" "fresh S q" by auto
qed

lemma sweep_ok_port_free:
  assumes "sweep_ok S xs (zs w)" and "in_looping w" and "distinct xs" and "s \<in> set xs" and "zs w s = Some z"
    and "\<not> live z" and "stype z = ZS_T_SERVER"
  shows "port_free s z xs w"
  using assms sweep_okD(2) [OF assms(1,4,5,6,7)] by (auto simp: port_free_def)

lemma sweep_ok_drop:
  "sweep_ok S xs m \<Longrightarrow> distinct xs \<Longrightarrow> sweep_ok S (remove1 s xs) (m(s := v))"
  unfolding sweep_ok_def by auto

section \<open>One step of the walk\<close>

lemma close_dead:
  assumes inv: "zinv S xs w" and S: "sys_ok S" and s: "s \<in> set xs" and z: "zs w s = Some z" "\<not> live z"
    and loop: "in_looping w" and k: "length xs \<le> k"
    and ok: "stype z = ZS_T_CONNECTION \<and> sweep_ok S (remove1 s xs) (zs w) \<or> sweep_ok S xs (zs w)"
  shows "\<exists>w1. (\<forall>H. sweep S H k s w = Inr w1) \<and> in_looping w1 \<and> zinv S (remove1 s xs) w1 \<and>
    sweep_ok S (remove1 s xs) (zs w1) \<and> (\<forall>x \<in> set (remove1 s xs). kept (zs w) (zs w1) x) \<and>
    (\<forall>x. x \<notin> set xs \<longrightarrow> zs w1 x = zs w x) \<and>
    zs w1 s = (if stype z = ZS_T_CONNECTION then None else Some (released z))"
proof -
  have d: "distinct xs" using zinv_distinct [OF inv] by simp
  then have out: "s \<notin> set (remove1 s xs)" by simp
  have srv: "port_free s z xs w" if "stype z = ZS_T_SERVER"
    using sweep_ok_port_free [OF _ loop d s z that] ok that by auto
  obtain w1 where w1: "\<forall>H. sweep S H k s w = Inr w1" "zinv S (remove1 s xs) w1" "in_looping w1 = in_looping w"
    "zs w1 = (closed_zs s z xs (zs w))(s := if stype z = ZS_T_CONNECTION then None else Some (released z))"
    using sweep_inv [OF inv S s z k srv] by blast
  have ok1: "sweep_ok S (remove1 s xs) (closed_zs s z xs (zs w))"
  proof (cases "sweep_ok S xs (zs w)")
    case True
    from sweep_ok_closed [OF this d s z] show ?thesis .
  next
    case False
    with ok have "stype z = ZS_T_CONNECTION" "sweep_ok S (remove1 s xs) (zs w)" by auto
    then show ?thesis using sweep_ok_drop [of S "remove1 s xs" "zs w" s] d out
      by (simp add: closed_zs_def remove1_idem)
  qed
  have "kept (zs w) (zs w1) x" if x: "x \<in> set (remove1 s xs)" for x
  proof -
    have x': "x \<in> set xs" "x \<noteq> s" using x d by auto
    obtain p where p: "zs w x = Some p" using zinv_listed [OF inv x'(1)] by blast
    have "kept (zs w) (closed_zs s z xs (zs w)) x"
      by (rule closed_zs_other [where p = p]) (use x x' p srv in \<open>auto simp: port_free_def\<close>)
    then show ?thesis using w1(4) x' by (simp add: kept_def)
  qed
  moreover have "sweep_ok S (remove1 s xs) (zs w1)"
    using sweep_ok_drop [OF ok1, of s] d out w1(4) by (simp add: remove1_idem)
  ultimately show ?thesis using w1 loop closed_zs_outside [of _ xs s z "zs w"] s
    by (intro exI [of _ w1]) auto
qed

lemma close_step:
  assumes inv: "zinv S xs w" and S: "sys_ok S" and s: "s \<in> set xs" and loop: "in_looping w"
    and ok: "sweep_ok S xs (zs w)" and k: "length xs \<le> k"
  shows "\<exists>w1. (\<forall>H. bnd (expire S k s w) (sweep S H k s) = Inr w1) \<and> in_looping w1 \<and>
    (zinv S xs w1 \<and> zs w1 = zs w \<and> (\<exists>z. zs w s = Some z \<and> live z) \<or>
     zinv S (remove1 s xs) w1 \<and> sweep_ok S (remove1 s xs) (zs w1) \<and> gone (zs w) (zs w1) s \<and>
     (\<forall>x \<in> set (remove1 s xs). kept (zs w) (zs w1) x) \<and> (\<forall>x. x \<notin> set xs \<longrightarrow> zs w1 x = zs w x))"
proof -
  have d: "distinct xs" using zinv_distinct [OF inv] by simp
  obtain z where z: "zs w s = Some z" by (rule zinv_listed [OF inv s])
  obtain w0 z' where w0: "expire S k s w = Inr w0" "zinv S xs w0" "zs w0 = (zs w)(s \<mapsto> z')" "in_looping w0"
    "stype z' = stype z" "z' = z \<or> \<not> live z' \<and> stype z = ZS_T_CONNECTION"
    using expire_inv [OF inv S s z loop] sweep_okD(1) [OF ok s z] by blast
  have z': "zs w0 s = Some z'" using w0(3) by simp
  show ?thesis
  proof (cases "live z'")
    case True
    then have "z' = z" using w0(6) by auto
    with True w0 z sweep_live [OF z' True] show ?thesis by (intro exI [of _ w0]) (simp add: fun_upd_idem)
  next
    case False
    have same: "zs w0 = zs w" if "z' = z" using that w0(3) z by (simp add: fun_upd_idem)
    have "stype z' = ZS_T_CONNECTION \<and> sweep_ok S (remove1 s xs) (zs w0) \<or> sweep_ok S xs (zs w0)"
      using w0(5,6) same ok sweep_ok_drop [OF ok d, of s "Some z'"] w0(3) by auto
    from close_dead [OF w0(2) S s z' False w0(4) k this] obtain w1 where
      w1: "\<forall>H. sweep S H k s w0 = Inr w1" "in_looping w1" "zinv S (remove1 s xs) w1"
      "sweep_ok S (remove1 s xs) (zs w1)" "\<forall>x \<in> set (remove1 s xs). kept (zs w0) (zs w1) x"
      "\<forall>x. x \<notin> set xs \<longrightarrow> zs w1 x = zs w0 x"
      "zs w1 s = (if stype z' = ZS_T_CONNECTION then None else Some (released z'))" by blast
    have "gone (zs w) (zs w1) s" using z w1(7) w0(5) by (auto simp: gone_def released_def)
    moreover have "\<forall>x \<in> set (remove1 s xs). kept (zs w) (zs w1) x"
      using w1(5) w0(3) d by (auto simp: kept_def)
    moreover have "\<forall>x. x \<notin> set xs \<longrightarrow> zs w1 x = zs w x" using w1(6) w0(3) s by auto
    ultimately show ?thesis using w0(1) w1(1-4) by (intro exI [of _ w1]) simp
  qed
qed

section \<open>The walk\<close>

text \<open>
  \<open>list_for_each_entry_safe\<close> reads the successor before the body runs, which may remove the node:
  the saved node is still listed, so the step after it is defined.
\<close>

lemma step_ahead:
  assumes "zinv S (as @ cs) w"
  shows "\<exists>n. get_nxt (behind cs socks) (links w) = Inr n \<and> (cs = [] \<or> n = behind (tl cs) socks)"
proof -
  have r: "ring (links w) socks (as @ cs)" using assms by (simp add: zinv_def list_ok_def)
  then show ?thesis using ring_ends(1) [OF r] ring_neighbours(2) [of "links w" socks as] by (cases cs) auto
qed

lemma walk_step:
  assumes "pos \<noteq> socks" and "bnd (expire S k pos w) (sweep S H k pos) = Inr w1"
    and "get_nxt n (links w1) = Inr n'"
  shows "do_close_walk S H (Suc k) pos n w = do_close_walk S H k n n' w1"
proof -
  have "do_close_walk S H (Suc k) pos n w =
    bnd (bnd (expire S k pos w) (sweep S H k pos)) (\<lambda>w.
    bnd (get_nxt n (links w)) (\<lambda>n'. do_close_walk S H k n n' w))"
    using assms(1) by (simp add: bnd_assoc)
  with assms(2,3) show ?thesis by simp
qed

definition swept :: "addr list \<Rightarrow> addr list \<Rightarrow> addr list \<Rightarrow> (addr \<rightharpoonup> zsocket) \<Rightarrow> (addr \<rightharpoonup> zsocket) \<Rightarrow> bool" where
  "swept as bs ys m m' \<longleftrightarrow> set ys \<subseteq> set bs \<and> (\<forall>x \<in> set (as @ ys). kept m m' x) \<and>
     (\<forall>x \<in> set ys. \<exists>z. m x = Some z \<and> live z) \<and> (\<forall>x \<in> set bs - set ys. gone m m' x) \<and>
     (\<forall>x. x \<notin> set (as @ bs) \<longrightarrow> m' x = m x)"

lemma swept_keep:
  "distinct (as @ x # bs) \<Longrightarrow> m x = Some z \<Longrightarrow> live z \<Longrightarrow> swept (as @ [x]) bs ys m m' \<Longrightarrow>
     swept as (x # bs) (x # ys) m m'"
  by (auto simp: swept_def)

lemma swept_drop:
  assumes d: "distinct (as @ x # bs)" and g: "gone m m1 x" and kp: "\<forall>y \<in> set (as @ bs). kept m m1 y"
    and off: "\<forall>y. y \<notin> set (as @ x # bs) \<longrightarrow> m1 y = m y" and sw: "swept as bs ys m1 m'"
  shows "swept as (x # bs) ys m m'"
proof -
  have "m' x = m1 x" using sw d by (simp add: swept_def)
  with g have "gone m m' x" by (simp add: gone_def)
  moreover have "\<forall>y \<in> set (as @ ys). kept m m' y" using sw kp by (auto simp: swept_def intro: kept_trans)
  moreover have "\<forall>y \<in> set bs - set ys. gone m m' y" using sw kp by (auto simp: swept_def intro: kept_gone)
  moreover have "\<exists>z. m y = Some z \<and> live z" if y: "y \<in> set ys" for y
  proof -
    obtain z1 where "m1 y = Some z1" "live z1" using y sw by (auto simp: swept_def)
    moreover have "kept m m1 y" using y sw kp by (auto simp: swept_def)
    ultimately show ?thesis using kept_live by blast
  qed
  ultimately show ?thesis using sw off d by (auto simp: swept_def)
qed

text \<open>
  One turn: a live socket stays and joins the part that was visited, a marked one leaves; what the rest
  of the walk does to the rest of the list, the whole then did to the list from \<open>x\<close> on.
\<close>

lemma walk_turn:
  assumes inv: "zinv S (as @ x # bs) w" and S: "sys_ok S" and loop: "in_looping w"
    and ok: "sweep_ok S (as @ x # bs) (zs w)" and k: "length (as @ x # bs) \<le> k"
  obtains w1 cs where "\<forall>H. bnd (expire S k x w) (sweep S H k x) = Inr w1" "in_looping w1" "zinv S (cs @ bs) w1"
    "sweep_ok S (cs @ bs) (zs w1)" "length cs \<le> Suc (length as)"
    "\<forall>ys m'. swept cs bs ys (zs w1) m' \<longrightarrow> (\<exists>ys'. as @ ys' = cs @ ys \<and> swept as (x # bs) ys' (zs w) m')"
proof -
  have x: "x \<in> set (as @ x # bs)" by simp
  have d: "distinct (as @ x # bs)" using zinv_distinct [OF inv] by auto
  have r1: "remove1 x (as @ x # bs) = as @ bs" using d by (simp add: remove1_append)
  obtain w1 where w1: "\<forall>H. bnd (expire S k x w) (sweep S H k x) = Inr w1" "in_looping w1"
    and cases: "zinv S (as @ x # bs) w1 \<and> zs w1 = zs w \<and> (\<exists>z. zs w x = Some z \<and> live z) \<or>
      zinv S (as @ bs) w1 \<and> sweep_ok S (as @ bs) (zs w1) \<and> gone (zs w) (zs w1) x \<and>
      (\<forall>y \<in> set (as @ bs). kept (zs w) (zs w1) y) \<and> (\<forall>y. y \<notin> set (as @ x # bs) \<longrightarrow> zs w1 y = zs w y)"
    using close_step [OF inv S x loop ok k] unfolding r1 by blast
  from cases show thesis
  proof (elim disjE conjE exE)
    fix z assume i1: "zinv S (as @ x # bs) w1" and same: "zs w1 = zs w" and z: "zs w x = Some z" "live z"
    have "\<exists>ys'. as @ ys' = (as @ [x]) @ ys \<and> swept as (x # bs) ys' (zs w) m'" if "swept (as @ [x]) bs ys (zs w1) m'" for ys m'
      using swept_keep [of as x bs "zs w", OF d z] that same by (intro exI [of _ "x # ys"]) simp
    then show thesis using that [of w1 "as @ [x]"] w1 i1 ok same by simp
  next
    assume i1: "zinv S (as @ bs) w1" and ok1: "sweep_ok S (as @ bs) (zs w1)" and g: "gone (zs w) (zs w1) x"
      and kp: "\<forall>y \<in> set (as @ bs). kept (zs w) (zs w1) y" and off: "\<forall>y. y \<notin> set (as @ x # bs) \<longrightarrow> zs w1 y = zs w y"
    have "swept as (x # bs) ys (zs w) m'" if "swept as bs ys (zs w1) m'" for ys m'
      by (rule swept_drop [where ?m1.0 = "zs w1"]) (fact d g kp off that)+
    then show thesis using that [of w1 as] w1 i1 ok1 by simp
  qed
qed

lemma do_close_walk_inv:
  assumes "zinv S (as @ bs) w" and "sys_ok S" and "in_looping w" and "sweep_ok S (as @ bs) (zs w)"
    and "length as + 2 * length bs < k" and "bs = [] \<or> n = behind (tl bs) socks"
  shows "\<exists>ys w'. (\<forall>H. do_close_walk S H k (behind bs socks) n w = Inr w') \<and> zinv S (as @ ys) w' \<and>
    in_looping w' \<and> swept as bs ys (zs w) (zs w')"
  using assms
proof (induction bs arbitrary: as w k n)
  case Nil
  then obtain k' where "k = Suc k'" by (cases k) auto
  moreover have "kept (zs w) (zs w) x" if "x \<in> set as" for x
    by (rule zinv_listed [OF Nil.prems(1), of x]) (use that in \<open>auto simp: kept_def\<close>)
  ultimately show ?case using Nil.prems by (intro exI [of _ "[]"] exI [of _ w]) (simp add: swept_def)
next
  case (Cons x bs)
  then obtain k' where k: "k = Suc k'" by (cases k) auto
  have x: "x \<noteq> socks" using zinv_distinct [OF Cons.prems(1)] by auto
  have n: "n = behind bs socks" using Cons.prems(6) by simp
  have len: "length (as @ x # bs) \<le> k'" using Cons.prems(5) k by simp
  obtain w1 cs where w1: "\<forall>H. bnd (expire S k' x w) (sweep S H k' x) = Inr w1" "in_looping w1" "zinv S (cs @ bs) w1"
    "sweep_ok S (cs @ bs) (zs w1)" "length cs \<le> Suc (length as)"
    and sw: "\<forall>ys m'. swept cs bs ys (zs w1) m' \<longrightarrow> (\<exists>ys'. as @ ys' = cs @ ys \<and> swept as (x # bs) ys' (zs w) m')"
    by (rule walk_turn [OF Cons.prems(1-4) len])
  obtain n' where n': "get_nxt n (links w1) = Inr n'" "bs = [] \<or> n' = behind (tl bs) socks"
    using step_ahead [OF w1(3)] n by auto
  have "\<exists>ys w'. (\<forall>H. do_close_walk S H k' (behind bs socks) n' w1 = Inr w') \<and> zinv S (cs @ ys) w' \<and>
      in_looping w' \<and> swept cs bs ys (zs w1) (zs w')"
    by (rule Cons.IH) (use w1 Cons.prems(2,5) n' k in auto)
  then obtain ys w' where w': "\<forall>H. do_close_walk S H k' (behind bs socks) n' w1 = Inr w'"
    "zinv S (cs @ ys) w'" "in_looping w'" "swept cs bs ys (zs w1) (zs w')" by blast
  have "do_close_walk S H k (behind (x # bs) socks) n w = Inr w'" for H
    using walk_step [OF x w1(1) [rule_format] n'(1), of H] w'(1) n by (simp add: k del: do_close_walk.simps)
  with w' sw [rule_format, OF w'(4)] show ?case by metis
qed

text \<open>
  The whole sweep, with a fuel above twice the length of the list: the invariant holds of the
  sockets left, none of which was marked closed before; the ones that left were freed or released.
  The result is the same for all handlers \<open>H\<close>, so no close callback has run.
\<close>

lemma do_close_inv:
  assumes inv: "zinv S xs w" and S: "sys_ok S" and loop: "in_looping w" and ok: "sweep_ok S xs (zs w)"
    and k: "2 * length xs < k"
  shows "\<exists>ys w'. (\<forall>H. zsocket_do_close S H k w = Inr w') \<and> zinv S ys w' \<and> in_looping w' \<and>
    swept [] xs ys (zs w) (zs w')"
proof -
  have r: "ring (links w) socks xs" using inv by (simp add: zinv_def list_ok_def)
  obtain n where n: "get_nxt (behind xs socks) (links w) = Inr n" "xs = [] \<or> n = behind (tl xs) socks"
    using step_ahead [of S "[]" xs w] inv by auto
  from do_close_walk_inv [of S "[]" xs w k n] inv S loop ok k n(2)
  obtain ys w' where "\<forall>H. do_close_walk S H k (behind xs socks) n w = Inr w'" "zinv S ys w'" "in_looping w'"
    "swept [] xs ys (zs w) (zs w')" by auto
  then show ?thesis using n(1) ring_ends(1) [OF r]
    by (intro exI [of _ ys] exI [of _ w']) (simp add: zsocket_do_close_def)
qed

end
