(* ===== verification/Zsocket_Poll.thy ===== *)
theory Zsocket_Poll
  imports Zsocket_Sweep
begin

text \<open>
  One round of the event loop. \<open>handlers_ok\<close> is the contract of the application's callbacks,
  \<open>io_ok\<close> what the system must not refuse; under both, \<open>zsocket_poll\<close> returns, no assertion and
  no access faults, and the invariant holds again, whatever sockets the callbacks opened, closed
  and wrote to. \<open>zsocket_loop\<close> adds the sweep.
\<close>

section \<open>The contract of the callbacks\<close>

text \<open>
  Buffers below \<open>2 ^ 30\<close> bytes: the source keeps lengths in an \<open>int\<close>. \<open>steady\<close> is what a callback
  for one socket may do to another listed one: write to it, start to read from it, but neither
  close it nor stop reading from it, because the walk may still be on its way to it.
\<close>

definition small_buf :: "qbuf option \<Rightarrow> bool" where
  "small_buf b = (case b of None \<Rightarrow> True | Some q \<Rightarrow> unat (bsize q) < 2 ^ 30)"

definition steady :: "zsocket \<Rightarrow> zsocket \<Rightarrow> bool" where
  "steady z z' \<longleftrightarrow> fd z' = fd z \<and> (live z \<longrightarrow> live z') \<and>
     (is_set ZS_S_READ_ENABLE z \<longrightarrow> is_set ZS_S_READ_ENABLE z') \<and>
     (is_set ZS_S_WRITE_ENABLE z \<longrightarrow> is_set ZS_S_WRITE_ENABLE z') \<and>
     (small_buf (rbuf z) \<longrightarrow> small_buf (rbuf z')) \<and> (small_buf (wbuf z) \<longrightarrow> small_buf (wbuf z'))"

definition others_steady :: "addr list \<Rightarrow> addr \<Rightarrow> (addr \<rightharpoonup> zsocket) \<Rightarrow> (addr \<rightharpoonup> zsocket) \<Rightarrow> bool" where
  "others_steady xs s m m' \<longleftrightarrow>
     (\<forall>y \<in> set xs - {s}. \<forall>z. m y = Some z \<longrightarrow> (\<exists>z'. m' y = Some z' \<and> steady z z'))"

text \<open>
  A callback may add sockets to the front of the list. The socket it is called for stays steady,
  or, where nothing is to be written to it, may be closed: the walk looks at it once more when it
  is writable too. A read callback returns how much it consumed, leaves the read buffer alone,
  and when it closes the socket there is room left in that buffer.
\<close>

definition callback_ok :: "'os sys \<Rightarrow> addr list \<Rightarrow> addr \<Rightarrow> zsocket \<Rightarrow> 'os world \<Rightarrow> 'os world \<Rightarrow> bool" where
  "callback_ok S xs s z w w' \<longleftrightarrow> (\<exists>as. zinv S (as @ xs) w') \<and> in_looping w' \<and> others_steady xs s (zs w) (zs w') \<and>
     (\<exists>z'. zs w' s = Some z' \<and> fd z' = fd z \<and> (steady z z' \<or> \<not> is_set ZS_S_WRITE_ENABLE z))"

definition handlers_ok :: "'os sys \<Rightarrow> 'os handlers \<Rightarrow> bool" where
  "handlers_ok S H \<longleftrightarrow>
     (\<forall>xs w s z c. zinv S xs w \<longrightarrow> in_looping w \<longrightarrow> s \<in> set xs \<longrightarrow> zs w s = Some z \<longrightarrow> live z \<longrightarrow>
        (\<exists>w'. on_connection H c s w = Inr w' \<and> callback_ok S xs s z w w')) \<and>
     (\<forall>xs w s z c q len. zinv S xs w \<longrightarrow> in_looping w \<longrightarrow> s \<in> set xs \<longrightarrow> zs w s = Some z \<longrightarrow> live z \<longrightarrow>
        rbuf z = Some q \<longrightarrow>
        (\<exists>nr w' z'. on_read H c s (contents q) len w = Inr (nr, w') \<and> 0 \<le> nr \<and> nr \<le> int (length (contents q)) \<and>
           callback_ok S xs s z w w' \<and> zs w' s = Some z' \<and> rbuf z' = Some q \<and>
           (\<not> live z' \<longrightarrow> (\<exists>q1. consume (word_of_int nr) q = Inr q1 \<and> qbuf_spare q1 \<noteq> 0))))"

definition io_ok :: "'os sys \<Rightarrow> bool" where
  "io_ok S \<longleftrightarrow> (\<forall>f n o1. fst (sys_recv S f n o1) \<noteq> -1) \<and> (\<forall>o1. fst (sys_realloc S o1) \<noteq> None)"

lemma steady_refl [simp]: "steady z z"
  by (simp add: steady_def)

lemma steady_trans: "steady z z1 \<Longrightarrow> steady z1 z2 \<Longrightarrow> steady z z2"
  by (simp add: steady_def)

lemma others_steady_refl: "others_steady xs s m m"
  by (simp add: others_steady_def)

lemma others_steady_trans:
  assumes "others_steady xs s m m1" and "others_steady (as @ xs) s m1 m2"
  shows "others_steady xs s m m2"
  unfolding others_steady_def
proof (intro ballI allI impI)
  fix y z assume y: "y \<in> set xs - {s}" "m y = Some z"
  then obtain z1 where z1: "m1 y = Some z1" "steady z z1" using assms(1) by (auto simp: others_steady_def)
  then obtain z2 where "m2 y = Some z2" "steady z1 z2" using assms(2) y(1) by (auto simp: others_steady_def)
  with z1 show "\<exists>z'. m2 y = Some z' \<and> steady z z'" using steady_trans by blast
qed

lemma others_steady_upd: "others_steady xs s m (m(s \<mapsto> z))"
  by (auto simp: others_steady_def)

section \<open>One socket of the walk\<close>

lemma small_spare:
  assumes "qbuf_inv q" and "unat (bsize q) < 2 ^ 30"
  shows "unat (qbuf_spare q) < 2 ^ 31" and "length (contents q) < 2 ^ 31"
  using qbuf_nat [OF assms(1)] length_contents [OF assms(1)] assms(2) by simp_all

lemma recv_spare:
  assumes "sys_ok S" and "buf_ok (rbuf z)" and "small_buf (rbuf z)" and "recv_buffer S z o1 = (Some q, o2)"
  shows "unat (qbuf_spare q) < 2 ^ 31" and "unat (bsize q) < 2 ^ 30"
proof -
  have inv: "qbuf_inv q" by (rule recv_buffer_inv(1) [OF assms(1,2,4)])
  show "unat (bsize q) < 2 ^ 30"
  proof (cases "rbuf z")
    case None
    with assms(4) have "new_qbuf S READ_BUF_SIZE o1 = (Some q, o2)" by (simp add: recv_buffer_def)
    from new_qbuf_inv(3) [OF assms(1) this, of q] show ?thesis by (simp add: READ_BUF_SIZE_def)
  next
    case (Some q1)
    with assms(3,4) show ?thesis by (simp add: recv_buffer_def small_buf_def)
  qed
  then show "unat (qbuf_spare q) < 2 ^ 31" by (rule small_spare(1) [OF inv])
qed

text \<open>What a step owes the rest of the walk: \<open>s\<close> can still be written to if it could before.\<close>

definition step_ok :: "'os sys \<Rightarrow> addr list \<Rightarrow> addr \<Rightarrow> zsocket \<Rightarrow> 'os world \<Rightarrow> 'os world \<Rightarrow> bool" where
  "step_ok S xs s z w w' \<longleftrightarrow> (\<exists>as. zinv S (as @ xs) w') \<and> in_looping w' \<and> others_steady xs s (zs w) (zs w') \<and>
     (\<exists>z'. zs w' s = Some z' \<and> fd z' = fd z \<and>
       (live z \<longrightarrow> is_set ZS_S_WRITE_ENABLE z \<longrightarrow> live z' \<and> is_set ZS_S_WRITE_ENABLE z' \<and>
          (small_buf (wbuf z) \<longrightarrow> small_buf (wbuf z'))))"

lemma callback_step: "callback_ok S xs s z w w' \<Longrightarrow> step_ok S xs s z w w'"
  unfolding callback_ok_def step_ok_def steady_def by blast

lemma step_ok_refl: "zinv S xs w \<Longrightarrow> in_looping w \<Longrightarrow> zs w s = Some z \<Longrightarrow> step_ok S xs s z w w"
  unfolding step_ok_def by (auto simp: others_steady_refl intro: exI [of _ "[]"])

text \<open>A step may begin with a store that leaves the descriptor, the flags and the queue to send.\<close>

lemma step_ok_store:
  assumes "step_ok S xs s z1 w1 w'" and "zs w1 = (zs w)(s \<mapsto> z1)"
    and "fd z1 = fd z" and "wbuf z1 = wbuf z" and "state z1 = state z"
  shows "step_ok S xs s z w w'"
proof -
  have "others_steady xs s ((zs w)(s \<mapsto> z1)) (zs w')" using assms(1) by (simp add: step_ok_def assms(2))
  then have "others_steady xs s (zs w) (zs w')"
    using others_steady_trans [where as = "[]", OF others_steady_upd] by simp
  with assms show ?thesis by (simp add: step_ok_def is_set_def)
qed

text \<open>The call of the read callback and what is done with its answer.\<close>

lemma callback_consumed:
  assumes inv: "zinv S xs w" and S: "sys_ok S" and io: "io_ok S" and H: "handlers_ok S H" and s: "s \<in> set xs"
    and z: "zs w s = Some z" "live z" "rbuf z = Some q" and loop: "in_looping w" and small: "unat (bsize q) < 2 ^ 30"
  shows "\<exists>w'. bnd (on_read H c s (contents q) (to_int (int (length (contents q)))) w)
      (\<lambda>(nr, w). after_callback S k s (qbuf_used q) nr w) = Inr w' \<and> step_ok S xs s z w w'"
proof -
  obtain nr w2 z2 where w2: "on_read H c s (contents q) (to_int (int (length (contents q)))) w = Inr (nr, w2)"
    "0 \<le> nr" "nr \<le> int (length (contents q))" "callback_ok S xs s z w w2" "zs w2 s = Some z2" "rbuf z2 = Some q"
    "\<not> live z2 \<longrightarrow> (\<exists>q'. consume (word_of_int nr) q = Inr q' \<and> qbuf_spare q' \<noteq> 0)"
    using H inv loop z s unfolding handlers_ok_def by metis
  obtain as where i2: "zinv S (as @ xs) w2" and loop2: "in_looping w2"
    using callback_step [OF w2(4)] by (auto simp: step_ok_def)
  have s2: "s \<in> set (as @ xs)" using s by simp
  obtain w3 z3 where w3: "after_callback S k s (qbuf_used q) nr w2 = Inr w3" "zinv S (as @ xs) w3"
    "zs w3 = (zs w2)(s \<mapsto> z3)" "in_looping w3" "fd z3 = fd z2" "wbuf z3 = wbuf z2"
    "z3 = z2\<lparr>rbuf := rbuf z3\<rparr> \<or> fst (sys_realloc S (os w2)) = None \<or> OBJECT_MAX \<le> 2 * unat (bsize q)"
    using after_callback_inv [OF i2 S s2 w2(5) _ loop2 w2(6,2,3), of k] w2(7) by blast
  have "fst (sys_realloc S (os w2)) \<noteq> None" using io unfolding io_ok_def by blast
  moreover have "\<not> OBJECT_MAX \<le> 2 * unat (bsize q)" using small by (simp add: OBJECT_MAX_def)
  ultimately have "z3 = z2\<lparr>rbuf := rbuf z3\<rparr>" using w3(7) by (elim disjE) (assumption | (erule notE, assumption))+
  from arg_cong [OF this, of state] have st: "state z3 = state z2" by simp
  have "others_steady xs s (zs w2) (zs w3)" unfolding w3(3) by (rule others_steady_upd)
  then have "others_steady xs s (zs w) (zs w3)"
    using others_steady_trans [where as = "[]"] w2(4) unfolding callback_ok_def by (metis append_Nil)
  moreover have "\<exists>z'. zs w2 s = Some z' \<and> fd z' = fd z \<and> (steady z z' \<or> \<not> is_set ZS_S_WRITE_ENABLE z)"
    using w2(4) by (simp add: callback_ok_def)
  ultimately have "step_ok S xs s z w w3"
    unfolding step_ok_def using w3(2-6) w2(5) z(2) st by (auto simp: steady_def is_set_def)
  with w2(1) w3(1) show ?thesis by auto
qed

lemma read_step:
  assumes inv: "zinv S xs w" and S: "sys_ok S" and io: "io_ok S" and H: "handlers_ok S H" and s: "s \<in> set xs"
    and z: "zs w s = Some z" "live z" and en: "is_set ZS_S_READ_ENABLE z" "stype z \<noteq> ZS_T_SERVER"
    and loop: "in_looping w" and small: "small_buf (rbuf z)"
    and b: "recv_buffer S z (os w) = (Some q, o1)"
  shows "\<exists>w'. zsocket_handle_recv S H k s w = Inr w' \<and> step_ok S xs s z w w'"
proof -
  have ok: "sock_ok (fds_read w) (fds_write w) z" using zinv_listed [OF inv s] z by auto
  then obtain c where c: "read_cb z = Some c" using z(2) en by (auto simp: sock_ok_def)
  have bz: "buf_ok (rbuf z)" using ok by (simp add: sock_ok_def)
  note sp = recv_spare [OF S bz small b]
  obtain n bs o2 where r: "sys_recv S (fd z) (qbuf_spare q) o1 = (n, bs, o2)"
    by (cases "sys_recv S (fd z) (qbuf_spare q) o1")
  have "fst (sys_recv S (fd z) (qbuf_spare q) o1) \<noteq> -1" using io unfolding io_ok_def by blast
  then have n: "n \<noteq> -1" using r by simp
  obtain w1 z1 q1 where w1: "zsocket_handle_recv S H k s w =
      bnd (on_read H c s (contents q1) (to_int (int (length (contents q1)))) w1)
        (\<lambda>(nr, w). after_callback S k s (qbuf_used q1) nr w)"
    "zinv S xs w1" "zs w1 = (zs w)(s \<mapsto> z1)" "live z1" "in_looping w1" "fd z1 = fd z" "wbuf z1 = wbuf z"
    "rbuf z1 = Some q1" "bsize q1 = bsize q" "state z1 = state z"
    using handle_recv_callback [OF inv S s z en c loop b sp(1) r n, of H k] by blast
  have "zs w1 s = Some z1" using w1(3) by simp
  then obtain w' where "zsocket_handle_recv S H k s w = Inr w'" "step_ok S xs s z1 w1 w'"
    using callback_consumed [OF w1(2) S io H s _ w1(4,8,5), of c k] w1(1,9) sp(2) by auto
  with step_ok_store [OF _ w1(3,6,7,10)] show ?thesis by blast
qed

text \<open>A readable socket of any kind, and a writable one.\<close>

lemma recv_step:
  assumes inv: "zinv S xs w" and S: "sys_ok S" and io: "io_ok S" and H: "handlers_ok S H" and s: "s \<in> set xs"
    and z: "zs w s = Some z" "live z" and en: "is_set ZS_S_READ_ENABLE z" and loop: "in_looping w"
    and small: "small_buf (rbuf z)"
  shows "\<exists>w'. zsocket_handle_recv S H k s w = Inr w' \<and> step_ok S xs s z w w'"
proof (cases "stype z = ZS_T_SERVER")
  case True
  have ok: "sock_ok (fds_read w) (fds_write w) z" using zinv_listed [OF inv s] z by auto
  then obtain c where c: "connection_cb z = Some c" using True z(2) by (auto simp: sock_ok_def)
  obtain w' where "on_connection H c s w = Inr w'" "callback_ok S xs s z w w'"
    using H inv loop s z unfolding handlers_ok_def by blast
  with True z en c show ?thesis by (simp add: zsocket_handle_recv_def callback_step)
next
  case False
  have ok: "sock_ok (fds_read w) (fds_write w) z" using zinv_listed [OF inv s] z by auto
  obtain b o1 where b: "recv_buffer S z (os w) = (b, o1)" by (cases "recv_buffer S z (os w)")
  show ?thesis
  proof (cases b)
    case None
    then have nb: "rbuf z = None" "new_qbuf S READ_BUF_SIZE (os w) = (None, o1)"
      using b by (auto simp: recv_buffer_def split: option.splits)
    then have "zsocket_handle_recv S H k s w = Inr (w\<lparr>os := o1\<rparr>)"
      using z en False ok by (simp add: zsocket_handle_recv_def sock_ok_def)
    moreover have "zinv S xs (w\<lparr>os := o1\<rparr>)" using zinv_os [OF inv] new_qbuf_inv(1) [OF S nb(2)] by simp
    then have "step_ok S xs s z w (w\<lparr>os := o1\<rparr>)"
      using step_ok_refl [of S xs "w\<lparr>os := o1\<rparr>" s z] loop z(1) by (simp add: step_ok_def)
    ultimately show ?thesis by blast
  next
    case (Some q)
    with b read_step [OF inv S io H s z en False loop small] show ?thesis by blast
  qed
qed

lemma send_step:
  assumes inv: "zinv S xs w" and S: "sys_ok S" and s: "s \<in> set xs"
    and z: "zs w s = Some z" "live z" and en: "is_set ZS_S_WRITE_ENABLE z" and loop: "in_looping w"
    and small: "small_buf (wbuf z)"
  shows "\<exists>w'. zsocket_handle_send S k s w = Inr w' \<and> zinv S xs w' \<and> in_looping w' \<and>
    links w' = links w \<and> others_steady xs s (zs w) (zs w')"
proof -
  obtain q where q: "wbuf z = Some q" "qbuf_inv q" using write_enabled(1) [OF inv s z en] by blast
  then have "length (out_queue z) < 2 ^ 31" using small small_spare(2) by (simp add: queue_of_def small_buf_def)
  from handle_send_inv [OF inv S s z en loop this, of k] obtain w' z' where
    "zsocket_handle_send S k s w = Inr w'" "zinv S xs w'" "zs w' = (zs w)(s \<mapsto> z')" "in_looping w'"
    "links w' = links w" by blast
  then show ?thesis by (auto simp: others_steady_upd)
qed

section \<open>The walk\<close>

text \<open>
  \<open>ready rs ws m x\<close>: where \<open>select\<close> reported the descriptor of \<open>x\<close>, the socket is open and enabled.
  It holds of every listed socket at the \<open>select\<close>, and steady steps keep it.
\<close>

definition ready :: "int set \<Rightarrow> int set \<Rightarrow> (addr \<rightharpoonup> zsocket) \<Rightarrow> addr \<Rightarrow> bool" where
  "ready rs ws m x \<longleftrightarrow> (\<exists>z. m x = Some z \<and> small_buf (rbuf z) \<and> small_buf (wbuf z) \<and>
     (fd z \<in> rs \<longrightarrow> live z \<and> is_set ZS_S_READ_ENABLE z) \<and>
     (fd z \<in> ws \<longrightarrow> live z \<and> is_set ZS_S_WRITE_ENABLE z))"

lemma ready_others:
  assumes "others_steady xs s m m'" and "x \<in> set xs" and "x \<noteq> s" and "ready rs ws m x"
  shows "ready rs ws m' x"
proof -
  obtain z where z: "m x = Some z" "small_buf (rbuf z)" "small_buf (wbuf z)"
    "fd z \<in> rs \<longrightarrow> live z \<and> is_set ZS_S_READ_ENABLE z" "fd z \<in> ws \<longrightarrow> live z \<and> is_set ZS_S_WRITE_ENABLE z"
    using assms(4) by (auto simp: ready_def)
  then obtain z' where "m' x = Some z'" "steady z z'" using assms(1-3) by (auto simp: others_steady_def)
  with z show ?thesis by (auto simp: ready_def steady_def)
qed

lemma poll_one:
  assumes inv: "zinv S xs w" and S: "sys_ok S" and io: "io_ok S" and H: "handlers_ok S H" and s: "s \<in> set xs"
    and loop: "in_looping w" and rdy: "ready rs ws (zs w) s" and z: "zs w s = Some z"
  shows "\<exists>as w1 w2. (if fd z \<in> rs then zsocket_handle_recv S H k s w else Inr w) = Inr w1 \<and>
    (\<exists>z1. zs w1 s = Some z1 \<and> fd z1 = fd z) \<and>
    (if fd z \<in> ws then zsocket_handle_send S k s w1 else Inr w1) = Inr w2 \<and>
    zinv S (as @ xs) w2 \<and> in_looping w2 \<and> others_steady xs s (zs w) (zs w2)"
proof -
  have rz: "fd z \<in> rs \<longrightarrow> live z \<and> is_set ZS_S_READ_ENABLE z" "fd z \<in> ws \<longrightarrow> live z \<and> is_set ZS_S_WRITE_ENABLE z"
    "small_buf (rbuf z)" "small_buf (wbuf z)" using rdy z by (auto simp: ready_def)
  obtain w1 where w1: "(if fd z \<in> rs then zsocket_handle_recv S H k s w else Inr w) = Inr w1" "step_ok S xs s z w w1"
    using recv_step [OF inv S io H s z _ _ loop rz(3), of k] rz(1) step_ok_refl [OF inv loop z]
    by (cases "fd z \<in> rs") auto
  obtain as z1 where i1: "zinv S (as @ xs) w1" "in_looping w1" "others_steady xs s (zs w) (zs w1)"
    and z1: "zs w1 s = Some z1" "fd z1 = fd z"
    "live z \<Longrightarrow> is_set ZS_S_WRITE_ENABLE z \<Longrightarrow> live z1 \<and> is_set ZS_S_WRITE_ENABLE z1 \<and>
       (small_buf (wbuf z) \<longrightarrow> small_buf (wbuf z1))" using w1(2) unfolding step_ok_def by blast
  have "\<exists>w2. (if fd z \<in> ws then zsocket_handle_send S k s w1 else Inr w1) = Inr w2 \<and>
      zinv S (as @ xs) w2 \<and> in_looping w2 \<and> others_steady (as @ xs) s (zs w1) (zs w2)"
  proof (cases "fd z \<in> ws")
    case True
    with rz z1(3) have "live z1" "is_set ZS_S_WRITE_ENABLE z1" "small_buf (wbuf z1)" by auto
    from send_step [OF i1(1) S _ z1(1) this(1,2) i1(2) this(3), of k] s True show ?thesis by auto
  next
    case False
    with i1 show ?thesis by (simp add: others_steady_refl)
  qed
  then obtain w2 where "(if fd z \<in> ws then zsocket_handle_send S k s w1 else Inr w1) = Inr w2"
    "zinv S (as @ xs) w2" "in_looping w2" "others_steady (as @ xs) s (zs w1) (zs w2)" by blast
  with w1(1) z1 others_steady_trans [OF i1(3)] show ?thesis by blast
qed

lemma poll_walk_inv:
  assumes "zinv S (ds @ bs) w" and S: "sys_ok S" and io: "io_ok S" and H: "handlers_ok S H" and "in_looping w"
    and "\<forall>x \<in> set bs. ready rs ws (zs w) x" and "length bs < k"
  shows "\<exists>as w'. poll_walk S H k (behind bs socks) rs ws nsel w = Inr w' \<and> zinv S (as @ ds @ bs) w' \<and> in_looping w'"
  using assms(1,5,6,7)
proof (induction bs arbitrary: ds w k nsel)
  case Nil
  then obtain k' where "k = Suc k'" by (cases k) auto
  with Nil show ?case by (intro exI [of _ "[]"] exI [of _ w]) simp
next
  case (Cons x bs)
  then obtain k' where k: "k = Suc k'" by (cases k) auto
  note inv = Cons.prems(1)
  have x: "x \<in> set (ds @ x # bs)" "x \<noteq> socks" "x \<notin> set bs" using zinv_distinct [OF inv] by auto
  obtain z where z: "zs w x = Some z" "sock_ok (fds_read w) (fds_write w) z" by (rule zinv_listed [OF inv x(1)])
  have f: "FD_ISSET (fd z) A = Inr (fd z \<in> A)" for A using z(2) by (simp add: sock_ok_def FD_ISSET_def)
  have "ready rs ws (zs w) x" using Cons.prems(3) by simp
  from poll_one [OF inv S io H x(1) Cons.prems(2) this z(1), of k'] obtain as w1 w2 z1 where
    w1: "(if fd z \<in> rs then zsocket_handle_recv S H k' x w else Inr w) = Inr w1" "zs w1 x = Some z1" "fd z1 = fd z"
    and w2: "(if fd z \<in> ws then zsocket_handle_send S k' x w1 else Inr w1) = Inr w2"
      "zinv S (as @ ds @ x # bs) w2" "in_looping w2" "others_steady (ds @ x # bs) x (zs w) (zs w2)" by blast
  have rdy: "\<forall>y \<in> set bs. ready rs ws (zs w2) y"
    using ready_others [OF w2(4)] Cons.prems(3) x(3) by auto
  have n: "get_nxt x (links w2) = Inr (behind bs socks)"
    using w2(2) ring_neighbours(2) [of "links w2" socks "as @ ds" x bs] by (simp add: zinv_def list_ok_def)
  have "\<exists>as' w'. poll_walk S H k' (behind bs socks) rs ws m w2 = Inr w' \<and>
      zinv S (as' @ (as @ ds @ [x]) @ bs) w' \<and> in_looping w'" for m
    by (rule Cons.IH) (use w2 rdy Cons.prems(4) k in auto)
  then obtain as' w' where w': "poll_walk S H k' (behind bs socks) rs ws
      (if fd z \<in> rs \<or> fd z \<in> ws then nsel - 1 else nsel) w2 = Inr w'"
    "zinv S (as' @ (as @ ds @ [x]) @ bs) w'" "in_looping w'" by blast
  have "poll_walk S H k (behind (x # bs) socks) rs ws nsel w =
      (if (fd z \<in> rs \<or> fd z \<in> ws) \<and> nsel - 1 = 0 then Inr w2 else Inr w')"
    using w'(1) x(2) z(1) w1 w2(1) n f by (cases "fd z \<in> rs"; cases "fd z \<in> ws") (simp_all add: k)
  moreover have "zinv S ((as' @ as) @ ds @ x # bs) w'" using w'(2) by simp
  ultimately show ?case using w'(3) w2(2,3) by (metis (full_types))
qed

section \<open>A poll and a round\<close>

lemma sys_ok_select:
  assumes "sys_ok S" and r: "sys_select S n R W t o1 = (c, e, R', W', o2)"
  shows "R' \<subseteq> R" and "W' \<subseteq> W" and "sys_fds S o2 = sys_fds S o1"
proof -
  have all: "\<forall>n R W t o1. case sys_select S n R W t o1 of (c, e, R', W', o2) \<Rightarrow>
      R' \<subseteq> R \<and> W' \<subseteq> W \<and> sys_fds S o2 = sys_fds S o1"
    using assms(1) unfolding sys_ok_def by (elim conjE) assumption
  have "case sys_select S n R W t o1 of (c, e, R', W', o2) \<Rightarrow>
      R' \<subseteq> R \<and> W' \<subseteq> W \<and> sys_fds S o2 = sys_fds S o1"
    by (rule all [THEN spec, THEN spec, THEN spec, THEN spec, THEN spec])
  with r show "R' \<subseteq> R" and "W' \<subseteq> W" and "sys_fds S o2 = sys_fds S o1" by simp_all
qed

definition all_small :: "addr list \<Rightarrow> (addr \<rightharpoonup> zsocket) \<Rightarrow> bool" where
  "all_small xs m \<longleftrightarrow> (\<forall>x \<in> set xs. \<forall>z. m x = Some z \<longrightarrow> small_buf (rbuf z) \<and> small_buf (wbuf z))"

lemma ready_listed:
  assumes inv: "zinv S xs w" and "all_small xs (zs w)" and x: "x \<in> set xs"
    and sub: "rs \<subseteq> fds_read w" "ws \<subseteq> fds_write w"
  shows "ready rs ws (zs w) x"
proof -
  obtain z where z: "zs w x = Some z" "sock_ok (fds_read w) (fds_write w) z" by (rule zinv_listed [OF inv x])
  have "fd z \<in> fds_read w \<Longrightarrow> live z \<and> is_set ZS_S_READ_ENABLE z"
    "fd z \<in> fds_write w \<Longrightarrow> live z \<and> is_set ZS_S_WRITE_ENABLE z"
    using z(2) unfolding sock_ok_def by (metis)+
  with z(1) sub assms(2) x show ?thesis by (auto simp: ready_def all_small_def)
qed

lemma poll_inv:
  assumes inv: "zinv S xs w" and S: "sys_ok S" and io: "io_ok S" and H: "handlers_ok S H" and loop: "in_looping w"
    and small: "all_small xs (zs w)" and k: "length xs < k"
  shows "\<exists>r as w'. zsocket_poll S H k timeout w = Inr (r, w') \<and> (r = 0 \<or> r = -1) \<and>
    zinv S (as @ xs) w' \<and> in_looping w'"
proof -
  obtain c e rs ws o1 where sel: "sys_select S (if nfds_read w > nfds_write w then nfds_read w else nfds_write w)
      (fds_read w) (fds_write w) (timeval_of timeout) (os w) = (c, e, rs, ws, o1)" by (metis prod_cases5)
  note so = sys_ok_select [OF S sel]
  define w1 where "w1 = w\<lparr>os := o1\<rparr>"
  have i1: "zinv S xs w1" unfolding w1_def using zinv_os [OF inv] so(3) by simp
  show ?thesis
  proof (cases "c = 0 \<or> c = -1")
    case True
    then have "zsocket_poll S H k timeout w = Inr (if c = 0 \<or> e then 0 else -1, w1)"
      using sel by (auto simp: zsocket_poll_def w1_def)
    with i1 loop show ?thesis by (intro exI [of _ "if c = 0 \<or> e then 0 else -1"] exI [of _ "[]"] exI [of _ w1]) (simp add: w1_def)
  next
    case False
    have r: "\<forall>x \<in> set xs. ready rs ws (zs w1) x"
      using ready_listed [OF inv small _ so(1,2)] by (simp add: w1_def)
    have g: "get_nxt socks (links w1) = Inr (behind xs socks)"
      using i1 by (auto simp: zinv_def list_ok_def intro: ring_ends(1))
    obtain as w' where "poll_walk S H k (behind xs socks) rs ws c w1 = Inr w'" "zinv S (as @ xs) w'" "in_looping w'"
      using poll_walk_inv [of S "[]" xs w1 H rs ws k c] i1 S io H loop r k by (auto simp: w1_def)
    with False sel g show ?thesis
      by (intro exI [of _ 0] exI [of _ as] exI [of _ w']) (simp add: zsocket_poll_def w1_def Let_def)
  qed
qed

lemma zinv_in_looping [simp]: "zinv S xs (w\<lparr>in_looping := b\<rparr>) = zinv S xs w"
  by (simp add: zinv_def list_ok_def fds_ok_def)

lemma loop_inv:
  assumes inv: "zinv S xs w" and S: "sys_ok S" and io: "io_ok S" and H: "handlers_ok S H"
    and small: "all_small xs (zs w)" and k: "length xs < k"
  shows "\<exists>r as w1. zsocket_poll S H k timeout (w\<lparr>in_looping := True\<rparr>) = Inr (r, w1) \<and> zinv S (as @ xs) w1 \<and>
    (r = -1 \<and> zsocket_loop S H k timeout w = Inr (-1, w1) \<and> in_looping w1 \<or>
     r = 0 \<and> (sweep_ok S (as @ xs) (zs w1) \<longrightarrow> 2 * length (as @ xs) < k \<longrightarrow>
       (\<exists>ys w'. zsocket_loop S H k timeout w = Inr (0, w') \<and> zinv S ys w' \<and> \<not> in_looping w' \<and>
          swept [] (as @ xs) ys (zs w1) (zs w'))))"
proof -
  obtain r as w1 where w1: "zsocket_poll S H k timeout (w\<lparr>in_looping := True\<rparr>) = Inr (r, w1)" "r = 0 \<or> r = -1"
    "zinv S (as @ xs) w1" "in_looping w1"
    using poll_inv [of S xs "w\<lparr>in_looping := True\<rparr>" H k timeout] assms by auto
  have "\<exists>ys w'. zsocket_loop S H k timeout w = Inr (0, w') \<and> zinv S ys w' \<and> \<not> in_looping w' \<and>
      swept [] (as @ xs) ys (zs w1) (zs w')"
    if r: "r = 0" and ok: "sweep_ok S (as @ xs) (zs w1)" and k: "2 * length (as @ xs) < k"
  proof -
    obtain ys w2 where w2: "\<forall>H. zsocket_do_close S H k w1 = Inr w2" "zinv S ys w2"
      "swept [] (as @ xs) ys (zs w1) (zs w2)" using do_close_inv [OF w1(3) S w1(4) ok k] by blast
    then show ?thesis using w1(1) r
      by (intro exI [of _ ys] exI [of _ "w2\<lparr>in_looping := False\<rparr>"]) (simp add: zsocket_loop_def)
  qed
  with w1 show ?thesis
    by (intro exI [of _ r] exI [of _ as] exI [of _ w1]) (auto simp: zsocket_loop_def)
qed

end
