(* ===== verification/Zsocket_Reach.thy ===== *)
theory Zsocket_Reach
  imports Zsocket_Poll
begin

text \<open>
  The library as a state machine: \<open>api_step\<close> is one call of the application, used as the library
  expects; \<open>reach\<close> is any sequence of them from the state at program start. The invariant holds
  of every reachable world.
\<close>

section \<open>Steps\<close>

text \<open>\<open>unlisted\<close>: the structure is not in the list of \<open>w\<close>, and was initialised and not used since.\<close>

definition unlisted :: "addr \<Rightarrow> 'os world \<Rightarrow> bool" where
  "unlisted s w \<longleftrightarrow> (\<exists>z. zs w s = Some z \<and> idle z) \<and> lib_init w \<and>
     (\<forall>xs. ring (links w) socks xs \<longrightarrow> s \<notin> set xs)"

definition listed :: "addr \<Rightarrow> 'os world \<Rightarrow> zsocket \<Rightarrow> bool" where
  "listed s w z \<longleftrightarrow> zs w s = Some z \<and> live z \<and> (\<exists>xs. ring (links w) socks xs \<and> s \<in> set xs)"

text \<open>No other listed socket is bound to the port of a server that is closed outside the loop.\<close>

definition closable :: "addr \<Rightarrow> 'os world \<Rightarrow> zsocket \<Rightarrow> bool" where
  "closable s w z \<longleftrightarrow> in_looping w \<or> stype z \<noteq> ZS_T_SERVER \<or>
     (\<forall>xs. ring (links w) socks xs \<longrightarrow> (\<forall>x \<in> set xs. x \<noteq> s \<longrightarrow> \<not> bound_to z (zs w x)))"

definition sweepable :: "'os sys \<Rightarrow> nat \<Rightarrow> 'os world \<Rightarrow> bool" where
  "sweepable S k w \<longleftrightarrow> (\<forall>xs. ring (links w) socks xs \<longrightarrow> sweep_ok S xs (zs w) \<and> 2 * length xs < k)"

definition connected_ok :: "'os sys \<Rightarrow> 'os handlers \<Rightarrow> bool" where
  "connected_ok S H \<longleftrightarrow> (\<forall>c s xs w. zinv S xs w \<longrightarrow>
     (\<exists>w' ys. on_connected H c s w = Inr w' \<and> zinv S ys w'))"

inductive api_step :: "'os sys \<Rightarrow> 'os handlers \<Rightarrow> nat \<Rightarrow> 'os world \<Rightarrow> 'os world \<Rightarrow> bool"
  for S :: "'os sys" and H :: "'os handlers" and k :: nat where
  new_socket: "s \<notin> dom (links w) \<union> {0, LIST_POISON1, LIST_POISON2} \<Longrightarrow>
    zsocket_init s ((put_zs s zero_zsocket w)\<lparr>links := (links w)(s \<mapsto> n)\<rparr>) = Inr w' \<Longrightarrow> api_step S H k w w'"
| connect_call: "unlisted s w \<Longrightarrow> zsocket_connect S H s a cb w = Inr (r, w') \<Longrightarrow> api_step S H k w w'"
| listen_call: "unlisted s w \<Longrightarrow> zsocket_listen S s a cb w = Inr (r, w') \<Longrightarrow> api_step S H k w w'"
| accept_call: "listed s w z \<Longrightarrow> zsocket_accept S k s w = Inr (c, w') \<Longrightarrow> api_step S H k w w'"
| read_start_call: "listed s w z \<Longrightarrow> zsocket_read_start s cb w = Inr w' \<Longrightarrow> api_step S H k w w'"
| read_stop_call: "listed s w z \<Longrightarrow> stype z \<noteq> ZS_T_SERVER \<Longrightarrow> zsocket_read_stop s w = Inr w' \<Longrightarrow> api_step S H k w w'"
| write_call: "listed s w z \<Longrightarrow> unat len < 2 ^ 63 \<Longrightarrow> unat len \<le> length buf \<Longrightarrow>
    zsocket_write S s buf len w = Inr (m, w') \<Longrightarrow> api_step S H k w w'"
| close_call: "listed s w z \<Longrightarrow> closable s w z \<Longrightarrow> (\<forall>xs. ring (links w) socks xs \<longrightarrow> length xs \<le> k) \<Longrightarrow>
    zsocket_close S k s cb w = Inr w' \<Longrightarrow> api_step S H k w w'"
| loop_call: "(\<forall>xs. ring (links w) socks xs \<longrightarrow> all_small xs (zs w) \<and> length xs < k) \<Longrightarrow>
    (\<And>v. zsocket_poll S H k timeout (w\<lparr>in_looping := True\<rparr>) = Inr (0, v) \<Longrightarrow> sweepable S k v) \<Longrightarrow>
    zsocket_loop S H k timeout w = Inr (r, w') \<Longrightarrow> api_step S H k w w'"

definition start_world :: "'os \<Rightarrow> 'os world" where
  "start_world o1 = \<lparr>lib_init = False, in_looping = False, nfds_read = 0, fds_read = {}, nfds_write = 0,
     fds_write = {}, status = \<lparr>nr_current = 0, nr_total = 0, nr_closed = 0, nr_current_client = 0,
     nr_current_server = 0, nr_current_connection = 0\<rparr>,
     links = [socks \<mapsto> \<lparr>prv = socks, nxt = socks\<rparr>], zs = Map.empty, os = o1\<rparr>"

inductive reach :: "'os sys \<Rightarrow> 'os handlers \<Rightarrow> nat \<Rightarrow> 'os world \<Rightarrow> bool"
  for S :: "'os sys" and H :: "'os handlers" and k :: nat where
  start: "reach S H k (start_world o1)"
| step: "reach S H k w \<Longrightarrow> api_step S H k w w' \<Longrightarrow> reach S H k w'"

section \<open>The invariant\<close>

lemma start_inv: "zinv S [] (start_world o1)"
  by (auto simp: zinv_def list_ok_def fds_ok_def stat_ok_def n_live_def below_def start_world_def ring_def
      nxt_of_def prv_of_def socks_def LIST_POISON1_def LIST_POISON2_def)

lemma zinv_ring: "zinv S xs w \<Longrightarrow> ring (links w) socks xs"
  by (simp add: zinv_def list_ok_def)

lemma zinv_ring_unique: "zinv S xs w \<Longrightarrow> ring (links w) socks ys \<Longrightarrow> ys = xs"
  by (rule ring_unique [OF _ zinv_ring])

lemma listed_in: "zinv S xs w \<Longrightarrow> listed s w z \<Longrightarrow> s \<in> set xs \<and> zs w s = Some z \<and> live z"
  using zinv_ring_unique [of S xs w] by (auto simp: listed_def)

lemma unlisted_out: "zinv S xs w \<Longrightarrow> unlisted s w \<Longrightarrow> s \<notin> set xs \<and> lib_init w \<and> (\<exists>z. zs w s = Some z \<and> idle z)"
  using zinv_ring [of S xs w] by (auto simp: unlisted_def)

lemma new_socket_inv:
  assumes inv: "zinv S xs w" and s: "s \<notin> dom (links w) \<union> {0, LIST_POISON1, LIST_POISON2}"
    and w': "zsocket_init s ((put_zs s zero_zsocket w)\<lparr>links := (links w)(s \<mapsto> n)\<rparr>) = Inr w'"
  shows "zinv S xs w'"
proof -
  have "(put_zs s zero_zsocket w)\<lparr>links := (links w)(s \<mapsto> n)\<rparr> =
      (put_zs s zero_zsocket w)\<lparr>links := (links w)(s \<mapsto> n), os := os w\<rparr>" by (simp add: put_zs_def)
  moreover note alloc_inv(1) [where ?o1.0 = "os w" and n = n, OF inv s] alloc_inv(2) [where ?o1.0 = "os w", OF inv s]
  ultimately have "zinv S xs ((put_zs s zero_zsocket w)\<lparr>links := (links w)(s \<mapsto> n)\<rparr>)" "s \<notin> set xs" by auto
  from init_inv [OF this(1) _ this(2)] w' show ?thesis by (auto simp: put_zs_def)
qed

lemma connect_step:
  assumes inv: "zinv S xs w" and S: "sys_ok S" and H: "connected_ok S H" and s: "unlisted s w"
    and w': "zsocket_connect S H s a cb w = Inr (r, w')"
  shows "\<exists>ys. zinv S ys w'"
proof -
  obtain z where u: "s \<notin> set xs" "lib_init w" "zs w s = Some z" "idle z" using unlisted_out [OF inv s] by blast
  from connect_inv [OF inv S u(1,3,4,2), where H = H and addr = a and cb = cb] show ?thesis
  proof (elim disjE exE conjE)
    fix v assume "zsocket_connect S H s a cb w = Inr (-1, v)" "zinv S xs v"
    with w' show ?thesis by auto
  next
    fix v assume e: "zsocket_connect S H s a cb w =
        (case cb of None \<Rightarrow> Inr (0, v) | Some c \<Rightarrow> bnd (on_connected H c s v) (\<lambda>w. Inr (0, w)))"
      and v: "zinv S (s # xs) v"
    show ?thesis
    proof (cases cb)
      case None
      with e w' v show ?thesis by auto
    next
      case (Some c)
      obtain v' ys where "on_connected H c s v = Inr v'" "zinv S ys v'"
        using H v unfolding connected_ok_def by blast
      with Some e w' show ?thesis by auto
    qed
  qed
qed

lemma accept_step:
  assumes inv: "zinv S xs w" and S: "sys_ok S" and s: "listed s w z"
    and w': "zsocket_accept S k s w = Inr (c, w')"
  shows "\<exists>ys. zinv S ys w'"
proof -
  have z: "zs w s = Some z" "live z" using listed_in [OF inv s] by auto
  have "\<forall>d o1. sys_malloc S (dom (links w)) SIZEOF_ZSOCKET (os w) = (Some d, o1) \<longrightarrow>
      fst (sys_accept S (fd z) o1) \<noteq> -1"
    using accept_fails [OF inv S z, where k = k] w' by auto
  from accept_inv [OF inv S z this, where k = k] w' show ?thesis by (auto split: option.splits)
qed

lemma close_step_outside:
  assumes inv: "zinv S xs w" and S: "sys_ok S" and s: "listed s w z" and c: "closable s w z"
    and k: "length xs \<le> k" and w': "zsocket_close S k s cb w = Inr w'"
  shows "\<exists>ys. zinv S ys w'"
proof -
  have z: "s \<in> set xs" "zs w s = Some z" "live z" using listed_in [OF inv s] by auto
  show ?thesis
  proof (cases "in_looping w")
    case True
    with mark_closed_inv [OF inv z, of cb] w' show ?thesis by auto
  next
    case False
    with c zinv_ring [OF inv] have "stype z = ZS_T_SERVER \<Longrightarrow> \<forall>x \<in> set xs. x \<noteq> s \<longrightarrow> \<not> bound_to z (zs w x)"
      by (auto simp: closable_def)
    from zsocket_close_outside [OF inv S z k False this, of cb] w' show ?thesis
      by (auto simp del: zsocket_close.simps)
  qed
qed

lemma loop_step:
  assumes inv: "zinv S xs w" and S: "sys_ok S" and io: "io_ok S" and H: "handlers_ok S H"
    and small: "all_small xs (zs w)" and k: "length xs < k"
    and sw: "\<And>v. zsocket_poll S H k timeout (w\<lparr>in_looping := True\<rparr>) = Inr (0, v) \<Longrightarrow> sweepable S k v"
    and w': "zsocket_loop S H k timeout w = Inr (r, w')"
  shows "\<exists>ys. zinv S ys w'"
proof -
  obtain r1 as w1 where w1: "zsocket_poll S H k timeout (w\<lparr>in_looping := True\<rparr>) = Inr (r1, w1)"
    "zinv S (as @ xs) w1" "r1 = -1 \<and> zsocket_loop S H k timeout w = Inr (-1, w1) \<and> in_looping w1 \<or>
     r1 = 0 \<and> (sweep_ok S (as @ xs) (zs w1) \<longrightarrow> 2 * length (as @ xs) < k \<longrightarrow>
       (\<exists>ys w'. zsocket_loop S H k timeout w = Inr (0, w') \<and> zinv S ys w' \<and> \<not> in_looping w' \<and>
          swept [] (as @ xs) ys (zs w1) (zs w')))" using loop_inv [OF inv S io H small k, of timeout] by blast
  from w1(3) show ?thesis
  proof (elim disjE conjE)
    assume "zsocket_loop S H k timeout w = Inr (-1, w1)"
    with w' w1(2) show ?thesis by auto
  next
    assume r: "r1 = 0" and *: "sweep_ok S (as @ xs) (zs w1) \<longrightarrow> 2 * length (as @ xs) < k \<longrightarrow>
       (\<exists>ys w'. zsocket_loop S H k timeout w = Inr (0, w') \<and> zinv S ys w' \<and> \<not> in_looping w' \<and>
          swept [] (as @ xs) ys (zs w1) (zs w'))"
    have "sweepable S k w1" using sw w1(1) r by simp
    with zinv_ring [OF w1(2)] * obtain ys v where "zsocket_loop S H k timeout w = Inr (0, v)" "zinv S ys v"
      unfolding sweepable_def by blast
    with w' show ?thesis by auto
  qed
qed

lemma api_step_inv:
  assumes step: "api_step S H k w w'" and inv: "zinv S xs w" and S: "sys_ok S" and io: "io_ok S"
    and H: "handlers_ok S H" "connected_ok S H"
  shows "\<exists>ys. zinv S ys w'"
  using step
proof cases
  case (new_socket s n)
  with new_socket_inv [OF inv] show ?thesis by blast
next
  case (connect_call s a cb r)
  then show ?thesis using connect_step [OF inv S H(2)] by blast
next
  case (listen_call s a cb r)
  obtain z where u: "s \<notin> set xs" "lib_init w" "zs w s = Some z" "idle z" using unlisted_out [OF inv listen_call(1)] by blast
  have "cb \<noteq> None"
    using listen_call(2) u(3,4) by (auto simp: zsocket_listen_def idle_def is_set_def)
  from listen_inv [OF inv S u(1,3,4,2) this, of a] listen_call(2) show ?thesis by auto
next
  case (accept_call s z c)
  then show ?thesis using accept_step [OF inv S] by blast
next
  case (read_start_call s z cb)
  have z: "s \<in> set xs" "zs w s = Some z" "live z" using listed_in [OF inv read_start_call(1)] by auto
  have "\<not> is_set ZS_S_READ_ENABLE z" "cb \<noteq> None"
    using read_start_call(2) z by (auto simp: zsocket_read_start_def)
  from read_start_inv [OF inv z this] read_start_call(2) show ?thesis by auto
next
  case (read_stop_call s z)
  have z: "s \<in> set xs" "zs w s = Some z" "live z" using listed_in [OF inv read_stop_call(1)] by auto
  have "is_set ZS_S_READ_ENABLE z" using read_stop_call(3) z by (auto simp: zsocket_read_stop_def)
  from read_stop_inv [OF inv z this read_stop_call(2)] read_stop_call(3) show ?thesis by auto
next
  case (write_call s z len buf m)
  have z: "s \<in> set xs" "zs w s = Some z" "live z" using listed_in [OF inv write_call(1)] by auto
  from write_inv [OF inv S z write_call(2,3)] write_call(4) show ?thesis by auto
next
  case (close_call s z cb)
  then have "length xs \<le> k" using zinv_ring [OF inv] by blast
  with close_call show ?thesis using close_step_outside [OF inv S] by blast
next
  case (loop_call timeout r)
  then have "all_small xs (zs w)" "length xs < k" using zinv_ring [OF inv] by blast+
  from loop_step [OF inv S io H(1) this loop_call(2,3)] show ?thesis .
qed

end
