(* ===== verification/Zsocket_Faults.thy ===== *)
theory Zsocket_Faults
  imports Zsocket_Sweep
begin

text \<open>
  Where \<open>src/zsocket.c\<close> does not keep its own invariant or runs into a fault, as lemmas about the
  model: closing a server outside the loop, an expired connection that is marked already, a
  \<open>recv\<close> that fails, a \<open>select\<close> that fails, a read callback that closes a socket which is
  writable in the same round.
\<close>

section \<open>A closed node is poisoned\<close>

lemma list_del_poison:
  assumes "list_del s h = Inr h'"
  shows "get_nxt s h' = Inr LIST_POISON1"
proof -
  obtain h1 h2 where h: "set_nxt s LIST_POISON1 h1 = Inr h2" "set_prv s LIST_POISON2 h2 = Inr h'"
    using assms by (auto simp: list_del_def)
  then obtain n where "h1 s = Some n" "h2 = h1(s \<mapsto> n\<lparr>nxt := LIST_POISON1\<rparr>)" by (auto simp: set_nxt_def)
  with h(2) show ?thesis by (auto simp: set_prv_def get_nxt_def)
qed

lemma close_plain_poison:
  assumes inv: "zinv S xs w" and s: "s \<in> set xs" and z: "zs w s = Some z" "live z" "stype z \<noteq> ZS_T_SERVER"
    and out: "\<not> in_looping w"
  shows "\<exists>w'. zsocket_close S k s None w = Inr w' \<and> get_nxt s (links w') = Inr LIST_POISON1 \<and>
    dom (zs w') = dom (zs w) \<and> (\<forall>x. x \<noteq> s \<longrightarrow> zs w' x = zs w x)"
proof -
  define z1 where "z1 = z\<lparr>state := state z OR ZS_S_EOF, close_cb := None\<rparr>"
  obtain w1 where w1: "mark_closed s None w = Inr w1" "zinv S xs w1" "zs w1 = (zs w)(s \<mapsto> z1)"
    "in_looping w1 = in_looping w" unfolding z1_def using mark_closed_inv [OF inv s z(1,2), of None] by blast
  have z1: "zs w1 s = Some z1" "\<not> live z1" "stype z1 = stype z"
    using w1(3) by (simp_all add: z1_def is_set_def flag_simps)
  obtain l where l: "list_del s (links w1) = Inr l" using unlist_inv [OF w1(2) s z1(1,2)] by blast
  have t: "stype z1 \<noteq> ZS_T_NONE" using zinv_listed [OF w1(2) s] z1 by (auto simp: sock_ok_def)
  obtain w2 where w2: "release_zsocket S s (w1\<lparr>links := l\<rparr>) = Inr w2" "links w2 = l" "zs w2 = (zs w1)(s \<mapsto> released z1)"
    using z1(1) by (simp add: release_zsocket_def put_zs_def released_def)
  have "zsocket_close S k s None w = Inr w2"
    using w1(1,4) out z1 z(3) t l w2(1) by simp
  moreover have "dom (zs w2) = dom (zs w)" using w2(3) w1(3) z(1) by auto
  ultimately show ?thesis using w2 w1(3) list_del_poison [OF l] by auto
qed

section \<open>Closing a server outside the loop\<close>

text \<open>
  \<open>__zsocket_close\<close> walks the list with \<open>list_for_each_entry\<close> and closes the sockets bound to the
  port on the way. Outside the event loop such a socket leaves the list at once, so the step to
  its successor follows \<open>LIST_POISON1\<close>.
\<close>

lemma close_same_port_poison:
  assumes "zinv S xs w" and "xs = ds @ as @ x # bs" and "zs w s = Some z" and "s \<notin> set xs"
    and "\<forall>y \<in> set as. \<not> bound_to z (zs w y)"
    and x: "zs w x = Some p" "bound_to z (Some p)" "live p" "stype p \<noteq> ZS_T_SERVER"
    and "\<not> in_looping w" and "length as + 1 < k"
  shows "close_same_port S k (behind (as @ [x]) socks) s w = Inl Bad_Pointer"
  using assms(2,5,11)
proof (induction as arbitrary: ds k)
  case Nil
  then obtain k' where k: "k = Suc (Suc k')" by (cases k; cases "k - 1") auto
  have xs: "x \<in> set xs" using Nil by simp
  then have "x \<noteq> socks" using zinv_distinct [OF assms(1)] by auto
  obtain w' where w': "zsocket_close S (Suc k') x None w = Inr w'" "get_nxt x (links w') = Inr LIST_POISON1"
    "dom (zs w') = dom (zs w)" using close_plain_poison [OF assms(1) xs x(1,3,4) assms(10)] by blast
  have "LIST_POISON1 \<notin> dom (zs w')" "LIST_POISON1 \<noteq> socks"
    using assms(1) w'(3) by (auto simp: zinv_def list_ok_def LIST_POISON1_def socks_def)
  then have "zs w' LIST_POISON1 = None" by (simp add: domIff)
  with \<open>LIST_POISON1 \<noteq> socks\<close> show ?case
    using w' \<open>x \<noteq> socks\<close> assms(3) x by (simp add: k del: zsocket_close.simps)
next
  case (Cons a as)
  then obtain k' where k: "k = Suc k'" by (cases k) auto
  have a: "a \<in> set xs" using Cons.prems by simp
  obtain q where q: "zs w a = Some q" by (rule zinv_listed [OF assms(1) a])
  have "a \<noteq> socks" using zinv_distinct [OF assms(1)] a by auto
  have "ring (links w) socks (ds @ a # as @ x # bs)"
    using assms(1) Cons.prems(1) by (simp add: zinv_def list_ok_def)
  then have n: "get_nxt a (links w) = Inr (behind (as @ [x]) socks)"
    using ring_neighbours(2) [of "links w" socks ds a "as @ x # bs"] by (cases as) auto
  have "close_same_port S k' (behind (as @ [x]) socks) s w = Inl Bad_Pointer"
    by (rule Cons.IH [of "ds @ [a]"]) (use Cons.prems k in auto)
  with n q \<open>a \<noteq> socks\<close> Cons.prems(2) assms(3) show ?case by (simp add: k del: zsocket_close.simps)
qed

text \<open>
  C39: Outside the event loop, closing a server while a connection it accepted is still open
  dereferences a list poison: \<open>__zsocket_close\<close> closes the connection in the middle of a walk that
  is not safe against removal.
\<close>

theorem close_server_faults:
  assumes inv: "zinv S xs w" and s: "s \<in> set xs" and z: "zs w s = Some z" "live z" "stype z = ZS_T_SERVER"
    and out: "\<not> in_looping w" and x: "x \<in> set xs" "x \<noteq> s" "bound_to z (zs w x)"
    and bound: "\<And>y p. y \<in> set xs \<Longrightarrow> y \<noteq> s \<Longrightarrow> zs w y = Some p \<Longrightarrow> bound_to z (Some p) \<Longrightarrow>
      live p \<and> stype p \<noteq> ZS_T_SERVER"
    and k: "length xs < k"
  shows "zsocket_close S k s cb w = Inl Bad_Pointer"
proof -
  define z1 where "z1 = z\<lparr>state := state z OR ZS_S_EOF, close_cb := cb\<rparr>"
  obtain w1 where w1: "mark_closed s cb w = Inr w1" "zinv S xs w1" "zs w1 = (zs w)(s \<mapsto> z1)"
    "in_looping w1 = in_looping w" unfolding z1_def using mark_closed_inv [OF inv s z(1,2), of cb] by blast
  have z1: "zs w1 s = Some z1" "\<not> live z1" "stype z1 = ZS_T_SERVER" "laddr z1 = laddr z"
    using w1(3) z by (simp_all add: z1_def is_set_def flag_simps)
  obtain l where l: "list_del s (links w1) = Inr l" "zinv S (remove1 s xs) (w1\<lparr>links := l\<rparr>)"
    "ring l socks (remove1 s xs)" using unlist_inv [OF w1(2) s z1(1,2)] by blast
  have d: "distinct xs" using zinv_distinct [OF inv] by simp
  then have "\<exists>y \<in> set (remove1 s xs). bound_to z (zs w y)" using x by auto
  then obtain as y bs where sp: "remove1 s xs = as @ y # bs" "bound_to z (zs w y)" "\<forall>a \<in> set as. \<not> bound_to z (zs w a)"
    by (auto dest!: split_list_first_prop [where P = "\<lambda>y. bound_to z (zs w y)"])
  have sub: "set (as @ y # bs) = set xs - {s}" using d sp(1) by (metis set_remove1_eq)
  then have y: "y \<in> set xs" "y \<noteq> s" and s': "s \<notin> set (as @ y # bs)" by auto
  then obtain p where p: "zs w y = Some p" using zinv_listed [OF inv] by blast
  have lv: "live p" "stype p \<noteq> ZS_T_SERVER" using bound [OF y p] sp(2) p by auto
  have same: "zs w1 a = zs w a" if "a \<noteq> s" for a using w1(3) that by simp
  have unb: "\<not> bound_to z1 (zs w1 a)" if "a \<in> set as" for a
  proof -
    have "a \<noteq> s" using that sub by auto
    then show ?thesis using same that sp(3) z1(4) by (auto split: option.splits)
  qed
  have "length (remove1 s xs) < length xs" using s length_pos_if_in_set [OF s] by (simp add: length_remove1)
  then have len: "length as + 1 < k" using k sp(1) by simp
  have "close_same_port S k (behind (as @ [y]) socks) s (w1\<lparr>links := l\<rparr>) = Inl Bad_Pointer"
    by (rule close_same_port_poison [OF l(2), where ds = "[]" and bs = bs and z = z1 and p = p])
      (use sp(1,2) z1 y p lv same unb len w1(4) out s' in simp_all)
  moreover have "behind (remove1 s xs) socks = behind (as @ [y]) socks" using sp(1) by (cases as) simp_all
  ultimately have "zsocket_close_now S k s w1 = Inl Bad_Pointer"
    using z1 l(1) ring_ends(1) [OF l(3)] by simp
  with w1(1,4) out show ?thesis by simp
qed

section \<open>An expired connection that is marked already\<close>

text \<open>
  The timeout of \<open>zsocket_do_close\<close> closes a connection again that is marked closed already:
  its \<open>&=\<close> clears the mark with the other state bits, so the assertion of \<open>zsocket_close\<close> passes
  and the connection is counted as closed twice, though the number of open ones is the same.
\<close>

theorem expire_again:
  assumes inv: "zinv S xs w" and s: "s \<in> set xs" and z: "zs w s = Some z" "\<not> live z" "stype z = ZS_T_CONNECTION"
    and loop: "in_looping w" and t: "fst (sys_time S (os w)) - tick z > stall z"
  shows "\<exists>w'. expire S k s w = Inr w' \<and> status w' = count_closed ZS_T_CONNECTION (status w) \<and>
    n_live ZS_T_CONNECTION (zs w') xs = n_live ZS_T_CONNECTION (zs w) xs"
proof -
  obtain now o1 where o1: "sys_time S (os w) = (now, o1)" by (cases "sys_time S (os w)")
  have "sock_ok (fds_read w) (fds_write w) z" using zinv_listed [OF inv s] z by auto
  then have f: "0 \<le> fd z" "fd z < FD_SETSIZE" by (auto simp: sock_ok_def)
  define z1 where "z1 = z\<lparr>state := state z AND ZS_S_TIMEOUT\<rparr>"
  define z2 where "z2 = z1\<lparr>state := state z1 OR ZS_S_EOF, close_cb := None\<rparr>"
  have z1: "live z1" "fd z1 = fd z" "stype z1 = ZS_T_CONNECTION"
    using z(3) by (simp_all add: z1_def is_set_def flag_simps)
  have "\<exists>w'. mark_closed s None (put_zs s z1 (w\<lparr>os := o1\<rparr>)) = Inr w' \<and>
      status w' = count_closed ZS_T_CONNECTION (status w) \<and> zs w' = (zs w)(s \<mapsto> z2) \<and> in_looping w'"
    using z1 f loop by (simp add: mark_closed_def put_zs_def FD_CLR_def Let_def z2_def)
  then obtain w' where w': "mark_closed s None (put_zs s z1 (w\<lparr>os := o1\<rparr>)) = Inr w'"
      "status w' = count_closed ZS_T_CONNECTION (status w)" "zs w' = (zs w)(s \<mapsto> z2)" "in_looping w'" by blast
  have "expire S k s w = zsocket_close S k s None (put_zs s z1 (w\<lparr>os := o1\<rparr>))"
    using z t o1 by (simp add: expire_def z1_def del: zsocket_close.simps)
  with w' have "expire S k s w = Inr w'" by simp
  moreover have "n_live ZS_T_CONNECTION (zs w') xs = n_live ZS_T_CONNECTION (zs w) xs"
    using w'(3) zinv_distinct [OF inv] s z
    by (simp add: n_live_upd counts_def z2_def is_set_def flag_simps)
  ultimately show ?thesis using w'(2) by blast
qed

section \<open>A failing \<open>recv\<close>\<close>

text \<open>
  A \<open>recv\<close> that fails clears the flag \<open>ZS_S_READ_ENABLE\<close> with the others (the \<open>&=\<close> again) but
  leaves the descriptor in the set, so the next time the socket is found readable an assertion of
  \<open>zsocket_handle_recv\<close> fails.
\<close>

theorem recv_fails:
  assumes inv: "zinv S xs w" and s: "s \<in> set xs" and z: "zs w s = Some z" "live z"
    and en: "is_set ZS_S_READ_ENABLE z" "stype z \<noteq> ZS_T_SERVER" "read_cb z = Some c"
    and q: "rbuf z = Some q" "qbuf_spare q \<noteq> 0"
    and r: "sys_recv S (fd z) (qbuf_spare q) (os w) = (-1, bs, o2)"
    and cb: "\<And>buf len v. on_read H c s buf len v = Inr (0, v)"
  shows "\<exists>w'. zsocket_handle_recv S H k s w = Inr w' \<and> fd z \<in> fds_read w' \<and>
    zsocket_handle_recv S H k s w' = Inl Assert_Failed"
proof -
  have ok: "sock_ok (fds_read w) (fds_write w) z" using zinv_listed [OF inv s] z by auto
  then have t: "stype z \<noteq> ZS_T_NONE" "fd z \<in> fds_read w" "qbuf_inv q"
    using z(2) en q by (auto simp: sock_ok_def buf_ok_def)
  obtain now o3 where now: "sys_time S o2 = (now, o3)" by (cases "sys_time S o2")
  define z1 where "z1 = z\<lparr>rbuf := Some q, state := state z AND ZS_S_READ_FAILED, tick := now\<rparr>"
  define w1 where "w1 = w\<lparr>zs := (zs w)(s \<mapsto> z1), os := o3\<rparr>"
  have z1: "z1\<lparr>rbuf := Some q\<rparr> = z1" "rbuf z1 = Some q" "zs w1 s = Some z1" by (simp_all add: z1_def w1_def)
  have "recv_into S z q (os w) = Inr (z1, o3)"
    using r now by (simp add: recv_into_def to_int_def z1_def)
  moreover have "after_read S k s 0 w1 = Inr w1"
    using q(2) z1 by (simp add: after_read_def consume_def put_zs_def fun_upd_idem)
  moreover have "put_zs s z1 w\<lparr>os := o3\<rparr> = w1" by (simp add: w1_def put_zs_def)
  ultimately have "zsocket_handle_recv S H k s w = Inr w1"
    using z en q t cb queue_read [OF t(3)] by (simp add: zsocket_handle_recv_def z1_def Let_def)
  moreover have "zsocket_handle_recv S H k s w1 = Inl Assert_Failed"
    using t(1) en by (simp add: zsocket_handle_recv_def w1_def z1_def is_set_def flag_simps c_assert_def)
  ultimately show ?thesis using t(2) by (auto simp: w1_def)
qed

section \<open>A failing \<open>select\<close>\<close>

text \<open>
  Where \<open>select\<close> fails, \<open>zsocket_loop\<close> returns -1 with the flag \<open>in_looping\<close> still set: from then
  on \<open>zsocket_close\<close> only marks sockets, though no loop runs that would release them.
\<close>

theorem select_fails:
  assumes "\<And>n R W t. sys_select S n R W t (os w) = (-1, False, R', W', o1)"
  shows "zsocket_loop S H k timeout w = Inr (-1, w\<lparr>in_looping := True, os := o1\<rparr>) \<and>
    zsocket_close S k s cb (w\<lparr>in_looping := True, os := o1\<rparr>) = mark_closed s cb (w\<lparr>in_looping := True, os := o1\<rparr>)"
proof
  show "zsocket_loop S H k timeout w = Inr (-1, w\<lparr>in_looping := True, os := o1\<rparr>)"
    using assms by (simp add: zsocket_loop_def zsocket_poll_def)
  show "zsocket_close S k s cb (w\<lparr>in_looping := True, os := o1\<rparr>) = mark_closed s cb (w\<lparr>in_looping := True, os := o1\<rparr>)"
    by (rule zsocket_close_loop) simp
qed

section \<open>Closing in the read callback of a socket that is writable as well\<close>

text \<open>
  The peer has closed, \<open>recv\<close> returns 0 and the read callback closes the socket. Where \<open>select\<close>
  found the descriptor writable too, the walk goes on to send, and an assertion fails.
\<close>

theorem close_then_send:
  assumes inv: "zinv S xs w" and s: "s \<in> set xs" and z: "zs w s = Some z" "live z"
    and en: "is_set ZS_S_READ_ENABLE z" "stype z \<noteq> ZS_T_SERVER" "read_cb z = Some c" and loop: "in_looping w"
    and q: "rbuf z = Some q" "qbuf_spare q \<noteq> 0"
    and r: "sys_recv S (fd z) (qbuf_spare q) (os w) = (0, bs, o2)"
    and cb: "\<And>buf len v. on_read H c s buf len v = bnd (zsocket_close S k s None v) (\<lambda>v. Inr (0, v))"
    and sel: "fd z \<in> rs" "fd z \<in> ws"
  shows "poll_walk S H (Suc k) s rs ws nsel w = Inl Assert_Failed"
proof -
  have "sock_ok (fds_read w) (fds_write w) z" using zinv_listed [OF inv s] z by auto
  then have t: "stype z \<noteq> ZS_T_NONE" "qbuf_inv q" "0 \<le> fd z" "fd z < FD_SETSIZE"
    using q by (auto simp: sock_ok_def buf_ok_def)
  have "s \<noteq> socks" using zinv_distinct [OF inv] s by auto
  obtain now o3 where now: "sys_time S o2 = (now, o3)" by (cases "sys_time S o2")
  define z1 where "z1 = z\<lparr>rbuf := Some q, tick := now\<rparr>"
  define z2 where "z2 = z1\<lparr>state := state z1 OR ZS_S_EOF, close_cb := None\<rparr>"
  have z1: "live z1" "fd z1 = fd z" "read_cb z1 = Some c" "rbuf z1 = Some q"
    using z(2) en by (simp_all add: z1_def is_set_def)
  have z2: "is_set ZS_S_EOF z2" "fd z2 = fd z" "stype z2 = stype z" "rbuf z2 = Some q"
    by (simp_all add: z2_def z1_def is_set_def flag_simps)
  have e1: "recv_into S z q (os w) = Inr (z1, o3)" using r now by (simp add: recv_into_def to_int_def z1_def)
  have "\<exists>w2. zsocket_close S k s None (put_zs s z1 w\<lparr>os := o3\<rparr>) = Inr w2 \<and> zs w2 s = Some z2"
    using z1 t loop by (simp add: mark_closed_def put_zs_def FD_CLR_def Let_def z2_def)
  then obtain w2 where w2: "zsocket_close S k s None (put_zs s z1 w\<lparr>os := o3\<rparr>) = Inr w2" "zs w2 s = Some z2"
    by blast
  have e3: "after_read S k s 0 w2 = Inr (put_zs s (z2\<lparr>rbuf := Some q\<rparr>) w2)"
    using w2(2) z2 q(2) by (simp add: after_read_def consume_def)
  have "zsocket_handle_recv S H k s w = Inr (put_zs s (z2\<lparr>rbuf := Some q\<rparr>) w2)"
    using z en q(1) t e1 cb w2(1) e3 z1 queue_read [OF t(2)]
    by (simp add: zsocket_handle_recv_def Let_def del: zsocket_close.simps)
  moreover have "zsocket_handle_send S k s (put_zs s (z2\<lparr>rbuf := Some q\<rparr>) w2) = Inl Assert_Failed"
    using z2 t(1) by (simp add: zsocket_handle_send_def put_zs_def is_set_def)
  ultimately show ?thesis using z(1) t \<open>s \<noteq> socks\<close> sel z2(2) by (simp add: FD_ISSET_def put_zs_def)
qed

end
