(* ===== verification/Demo_World.thy ===== *)
theory Demo_World
  imports Zsocket_Reach Zsocket_Faults
begin

text \<open>
  A concrete operating system and concrete worlds. They model no code: they are the inputs at
  which the witnesses evaluate the properties of the socket library, and they show that the
  contract \<open>sys_ok\<close> of the system calls and the invariant \<open>zinv\<close> can hold together. The state of
  the outside world is the list of the open descriptors.
\<close>

section \<open>A system\<close>

definition demo_fd :: "int list \<Rightarrow> int \<times> int list" where
  "demo_fd o1 = (case filter (\<lambda>f. f \<notin> set o1) [3, 4, 5, 6, 7, 8] of [] \<Rightarrow> (-1, o1) | f # _ \<Rightarrow> (f, f # o1))"

definition demo_sys :: "int list sys" where
  "demo_sys = \<lparr>
     sys_socket = demo_fd,
     sys_connect = (\<lambda>f a o1. (0, o1)),
     sys_bind = (\<lambda>f a o1. (0, o1)),
     sys_listen = (\<lambda>f n o1. o1),
     sys_accept = (\<lambda>f o1. let (g, o2) = demo_fd o1 in (g, zero_addr, o2)),
     sys_setsockopt = (\<lambda>f o1. o1),
     sys_getsockname = (\<lambda>f o1. (zero_addr, o1)),
     sys_shutdown = (\<lambda>f o1. o1),
     sys_close = (\<lambda>f o1. removeAll f o1),
     sys_recv = (\<lambda>f n o1. if n \<ge> 3 then (3, [10, 20, 30], o1) else (0, [], o1)),
     sys_send = (\<lambda>f b o1. (int (length (take 2 b)), o1)),
     sys_select = (\<lambda>n R W t o1. (1, False, R, W, o1)),
     sys_time = (\<lambda>o1. (1000, o1)),
     sys_alloc = (\<lambda>n o1. (True, o1)),
     sys_realloc = (\<lambda>o1. (Some (\<lambda>_. 0), o1)),
     sys_malloc = (\<lambda>A n o1. (if 0x9000 \<in> A then None else Some 0x9000, o1)),
     sys_fds = set\<rparr>"

text \<open>The same system where \<open>accept\<close> fails, where \<open>recv\<close> fails, where \<open>select\<close> fails.\<close>

definition demo_no_accept :: "int list sys" where
  "demo_no_accept = demo_sys\<lparr>sys_accept := (\<lambda>f o1. (-1, zero_addr, o1))\<rparr>"

definition demo_no_recv :: "int list sys" where
  "demo_no_recv = demo_sys\<lparr>sys_recv := (\<lambda>f n o1. (-1, [], o1))\<rparr>"

definition demo_no_select :: "int list sys" where
  "demo_no_select = demo_sys\<lparr>sys_select := (\<lambda>n R W t o1. (-1, False, {}, {}, o1))\<rparr>"

text \<open>The same system where a client waits for the server (descriptor 3) and nothing else happens.\<close>

definition demo_client_waits :: "int list sys" where
  "demo_client_waits = demo_sys\<lparr>sys_select := (\<lambda>n R W t o1. (1, False, R \<inter> {3}, {}, o1))\<rparr>"

lemma demo_fd_cases:
  assumes "demo_fd o1 = (f, o2)"
  shows "f = -1 \<and> o2 = o1 \<or> 0 \<le> f \<and> f < FD_SETSIZE \<and> f \<notin> set o1 \<and> o2 = f # o1"
proof (cases "filter (\<lambda>f. f \<notin> set o1) [3, 4, 5, 6, 7, 8]")
  case Nil
  with assms show ?thesis by (simp add: demo_fd_def)
next
  case (Cons g gs)
  then have "g \<in> set (filter (\<lambda>f. f \<notin> set o1) [3, 4, 5, 6, 7, 8])" by (simp only: list.set_intros)
  then have "g \<notin> set o1" "0 \<le> g" "g < FD_SETSIZE" unfolding set_filter by (auto simp: FD_SETSIZE_def)
  with Cons assms show ?thesis by (auto simp: demo_fd_def)
qed

lemma demo_new_fd [simp]:
  assumes "sys_fds S = set"
  shows "demo_fd o1 = (f, o2) \<Longrightarrow> new_fd S f o1 o2"
  using demo_fd_cases [of o1 f o2] assms by (auto simp: new_fd_def)

lemma demo_sys_ok: "sys_ok demo_sys"
  unfolding sys_ok_def
  by (intro conjI allI; simp add: demo_sys_def LIST_POISON1_def LIST_POISON2_def word_le_def split: prod.splits)

lemma demo_no_accept_ok: "sys_ok demo_no_accept"
  using demo_sys_ok by (simp add: sys_ok_def demo_no_accept_def new_fd_def)

lemma demo_client_waits_ok: "sys_ok demo_client_waits"
  using demo_sys_ok by (simp add: sys_ok_def demo_client_waits_def new_fd_def)

section \<open>Worlds\<close>

text \<open>
  A server at \<open>0x1000\<close> on port 80, a connection at \<open>0x2000\<close> in the list before it, and a socket at
  \<open>0x3000\<close> that is initialised but not in use. \<open>demo_world loop z R W\<close> has the connection \<open>z\<close> and
  the descriptor sets \<open>R\<close> and \<open>W\<close>.
\<close>

abbreviation srv_at :: addr where "srv_at \<equiv> 0x1000"
abbreviation con_at :: addr where "con_at \<equiv> 0x2000"
abbreviation idle_at :: addr where "idle_at \<equiv> 0x3000"

definition port_80 :: sockaddr_in where
  "port_80 = \<lparr>sin_family = 2, sin_port = 80, sin_addr = 0\<rparr>"

definition demo_server :: zsocket where
  "demo_server = init_zsocket\<lparr>fd := 3, laddr := port_80, stype := ZS_T_SERVER, state := ZS_S_READ_ENABLE,
     connection_cb := Some 0\<rparr>"

definition demo_conn :: zsocket where
  "demo_conn = init_zsocket\<lparr>fd := 4, laddr := port_80, stype := ZS_T_CONNECTION,
     state := ZS_S_READ_ENABLE OR ZS_S_WRITE_ENABLE, tick := 900, read_cb := Some 0,
     rbuf := Some sample_qbuf, wbuf := Some sample_qbuf\<rparr>"

definition demo_links :: lheap where
  "demo_links = [socks \<mapsto> \<lparr>prv = srv_at, nxt = con_at\<rparr>, con_at \<mapsto> \<lparr>prv = socks, nxt = srv_at\<rparr>,
     srv_at \<mapsto> \<lparr>prv = con_at, nxt = socks\<rparr>, idle_at \<mapsto> \<lparr>prv = idle_at, nxt = idle_at\<rparr>]"

definition demo_world :: "bool \<Rightarrow> zsocket \<Rightarrow> int set \<Rightarrow> int set \<Rightarrow> int list world" where
  "demo_world loop z R W = \<lparr>lib_init = True, in_looping = loop, nfds_read = 5, fds_read = R,
     nfds_write = 5, fds_write = W,
     status = (let n = if live z then 1 else 0 in
       \<lparr>nr_current = 1 + n, nr_total = 2, nr_closed = 1 - n, nr_current_client = 0,
        nr_current_server = 1, nr_current_connection = n\<rparr>),
     links = demo_links, zs = [srv_at \<mapsto> demo_server, con_at \<mapsto> z, idle_at \<mapsto> init_zsocket], os = [4, 3]\<rparr>"

abbreviation demo_live :: "bool \<Rightarrow> int list world" where
  "demo_live loop \<equiv> demo_world loop demo_conn {3, 4} {4}"

abbreviation demo_dead :: "bool \<Rightarrow> int list world" where
  "demo_dead loop \<equiv> demo_world loop (marked demo_conn) {3} {}"

lemma demo_ring: "ring demo_links socks [con_at, srv_at]"
  by (simp add: ring_def demo_links_def nxt_of_def prv_of_def socks_def)

lemma demo_server_ok: "sock_ok R W demo_server \<longleftrightarrow> 3 \<in> R \<and> 3 \<notin> W"
  by (simp add: sock_ok_def demo_server_def init_zsocket_def buf_ok_def FD_SETSIZE_def is_set_def flag_defs)

lemma demo_server_live: "live demo_server" "fd demo_server = 3" "stype demo_server = ZS_T_SERVER" "laddr demo_server = port_80"
  by (simp_all add: demo_server_def init_zsocket_def is_set_def flag_defs)

lemma demo_inv:
  assumes S: "sys_fds S = set" and z: "fd z = 4" "stype z = ZS_T_CONNECTION" "sock_ok R W z"
    and R: "3 \<in> R" "3 \<notin> W" "R \<subseteq> {3, 4}" "W \<subseteq> {4}"
  shows "zinv S [con_at, srv_at] (demo_world loop z R W)"
proof -
  let ?w = "demo_world loop z R W"
  have zs: "zs ?w con_at = Some z" "zs ?w srv_at = Some demo_server" by (simp_all add: demo_world_def)
  have "list_ok [con_at, srv_at] ?w"
    using demo_ring
    by (auto simp: list_ok_def demo_world_def demo_links_def socks_def LIST_POISON1_def LIST_POISON2_def)
  moreover have "below R 5" "below W 5" using R by (auto simp: below_def)
  then have "fds_ok S [con_at, srv_at] ?w"
    using S z R demo_server_live demo_server_ok [of R W] by (auto simp: fds_ok_def demo_world_def)
  moreover have "stat_ok (status ?w) (zs ?w) [con_at, srv_at]"
    using z demo_server_live by (simp add: stat_ok_def n_live_def demo_world_def Let_def)
  ultimately show ?thesis by (simp add: zinv_def)
qed

lemma demo_conn_fields: "live demo_conn" "fd demo_conn = 4" "stype demo_conn = ZS_T_CONNECTION"
  "rbuf demo_conn = Some sample_qbuf" "wbuf demo_conn = Some sample_qbuf" "read_cb demo_conn = Some 0"
  "is_set ZS_S_READ_ENABLE demo_conn" "is_set ZS_S_WRITE_ENABLE demo_conn" "tick demo_conn = 900"
  "stall demo_conn = 300" "laddr demo_conn = port_80"
  by (simp_all add: demo_conn_def init_zsocket_def is_set_def flag_defs STALL_INTERVAL_def)

lemma demo_live_inv: "sys_fds S = set \<Longrightarrow> zinv S [con_at, srv_at] (demo_live loop)"
  by (rule demo_inv)
    (simp_all add: sock_ok_def demo_conn_fields buf_ok_def sample_qbuf_inv FD_SETSIZE_def)

lemma demo_dead_inv: "sys_fds S = set \<Longrightarrow> zinv S [con_at, srv_at] (demo_dead loop)"
  by (rule demo_inv)
    (simp_all add: sock_ok_def buf_ok_def sample_qbuf_inv FD_SETSIZE_def is_set_def flag_simps marked_def,
     simp_all add: demo_conn_fields buf_ok_def sample_qbuf_inv)

section \<open>An application\<close>

text \<open>Callbacks that consume what they are handed and change nothing.\<close>

definition demo_handlers :: "int list handlers" where
  "demo_handlers = \<lparr>on_close = (\<lambda>c s w. Inr w), on_read = (\<lambda>c s buf len w. Inr (int (length buf), w)),
     on_connected = (\<lambda>c s w. Inr w), on_connection = (\<lambda>c s w. Inr w)\<rparr>"

lemma demo_handlers_ok: "handlers_ok S demo_handlers" "connected_ok S demo_handlers"
proof -
  have "callback_ok S xs s z w w" if "zinv S xs w" "in_looping w" "zs w s = Some z" for xs s z w
    using that unfolding callback_ok_def by (auto simp: others_steady_refl intro: exI [of _ "[]"])
  then show "handlers_ok S demo_handlers" by (auto simp: handlers_ok_def demo_handlers_def)
  show "connected_ok S demo_handlers" by (auto simp: connected_ok_def demo_handlers_def)
qed

lemma demo_io_ok: "io_ok demo_sys" "io_ok demo_client_waits"
  by (simp_all add: io_ok_def demo_sys_def demo_client_waits_def)

end
