(* ===== verification/Zsocket_Stream.thy ===== *)
theory Zsocket_Stream
  imports Demo_World "HOL-Library.Sublist"
begin

text \<open>
  The byte streams of a socket over any number of calls. \<open>traced\<close> is the system of another model
  with logs beside its state: what \<open>send\<close> took and what \<open>recv\<close> gave on each descriptor, and
  what the read callback of a socket consumed. \<open>stream_step\<close> is a call of \<open>zsocket_write\<close> or a
  turn of the event loop for one of any number of sockets; in every state it reaches, what was sent
  is a prefix of what was accepted for writing, what was consumed is a prefix of what arrived,
  and the queues hold just the difference.
\<close>

section \<open>The logs\<close>

record 'o traced =
  base :: 'o
  sent :: "int \<Rightarrow> byte list"
  arrived :: "int \<Rightarrow> byte list"
  eaten :: "addr \<Rightarrow> byte list"
  accepted :: "addr \<Rightarrow> byte list"

definition lift_os :: "('o \<Rightarrow> 'a \<times> 'o) \<Rightarrow> 'o traced \<Rightarrow> 'a \<times> 'o traced" where
  "lift_os f t = (let (a, o1) = f (base t) in (a, t\<lparr>base := o1\<rparr>))"

definition traced :: "'o sys \<Rightarrow> 'o traced sys" where
  "traced S =
     \<lparr>sys_socket = lift_os (sys_socket S),
      sys_connect = (\<lambda>f a. lift_os (sys_connect S f a)),
      sys_bind = (\<lambda>f a. lift_os (sys_bind S f a)),
      sys_listen = (\<lambda>f n t. t\<lparr>base := sys_listen S f n (base t)\<rparr>),
      sys_accept = (\<lambda>f t. let (c, a, o1) = sys_accept S f (base t) in (c, a, t\<lparr>base := o1\<rparr>)),
      sys_setsockopt = (\<lambda>f t. t\<lparr>base := sys_setsockopt S f (base t)\<rparr>),
      sys_getsockname = (\<lambda>f. lift_os (sys_getsockname S f)),
      sys_shutdown = (\<lambda>f t. t\<lparr>base := sys_shutdown S f (base t)\<rparr>),
      sys_close = (\<lambda>f t. t\<lparr>base := sys_close S f (base t)\<rparr>),
      sys_recv = (\<lambda>f n t. let (r, bs, o1) = sys_recv S f n (base t) in
         (r, bs, t\<lparr>base := o1, arrived := (arrived t)(f := arrived t f @ take (nat r) bs)\<rparr>)),
      sys_send = (\<lambda>f bs t. let (r, o1) = sys_send S f bs (base t) in
         (r, t\<lparr>base := o1, sent := (sent t)(f := sent t f @ take (nat r) bs)\<rparr>)),
      sys_select = (\<lambda>n R W tv t. let (c, e, R', W', o1) = sys_select S n R W tv (base t) in
         (c, e, R', W', t\<lparr>base := o1\<rparr>)),
      sys_time = lift_os (sys_time S),
      sys_alloc = (\<lambda>n. lift_os (sys_alloc S n)),
      sys_realloc = lift_os (sys_realloc S),
      sys_malloc = (\<lambda>A n. lift_os (sys_malloc S A n)),
      sys_fds = (\<lambda>t. sys_fds S (base t))\<rparr>"

lemma lift_os_simps [simp]:
  "fst (lift_os f t) = fst (f (base t))" "snd (lift_os f t) = t\<lparr>base := snd (f (base t))\<rparr>"
  by (simp_all add: lift_os_def split: prod.splits)

lemma new_fd_traced: "new_fd (traced S) f t (t'\<lparr>base := o2\<rparr>) = new_fd S f (base t) o2"
  by (simp add: new_fd_def traced_def)

lemma traced_ok:
  assumes "sys_ok S"
  shows "sys_ok (traced S)"
  using assms by (simp add: sys_ok_def new_fd_def traced_def case_prod_beta Let_def)

definition log_of :: "'o traced \<Rightarrow> (int \<Rightarrow> byte list) \<times> (int \<Rightarrow> byte list) \<times> (addr \<Rightarrow> byte list) \<times> (addr \<Rightarrow> byte list)" where
  "log_of t = (sent t, arrived t, eaten t, accepted t)"

lemma log_of_base [simp]: "log_of (t\<lparr>base := o1\<rparr>) = log_of t"
  by (simp add: log_of_def)

lemma traced_quiet:
  "sys_alloc (traced S) n t = (b, t') \<Longrightarrow> log_of t' = log_of t"
  "sys_realloc (traced S) t = (ra, t') \<Longrightarrow> log_of t' = log_of t"
  "log_of (snd (sys_time (traced S) t)) = log_of t"
  by (auto simp: traced_def lift_os_def split: prod.splits)

lemma traced_send:
  "log_of (snd (sys_send (traced S) f bs t)) =
     ((sent t)(f := sent t f @ take (nat (fst (sys_send (traced S) f bs t))) bs), arrived t, eaten t, accepted t)"
  by (simp add: traced_def log_of_def split: prod.splits)

lemma traced_recv:
  "sys_recv (traced S) f n t = (r, bs, t') \<Longrightarrow>
     log_of t' = (sent t, (arrived t)(f := arrived t f @ take (nat r) bs), eaten t, accepted t)"
  by (auto simp: traced_def log_of_def split: prod.splits)

lemma new_qbuf_quiet: "new_qbuf (traced S) n t = (b, t') \<Longrightarrow> log_of t' = log_of t"
  by (auto simp: new_qbuf_def Let_def split: prod.splits if_splits dest!: traced_quiet(1))

section \<open>The application\<close>

text \<open>
  The application writes a block and notes what was accepted of it, from the front. Its read
  callback looks at the bytes it is handed, answers with a block (or with none) and consumes
  some of them from the front, as \<open>g\<close> decides for each socket.
\<close>

definition app_write :: "'o sys \<Rightarrow> addr \<Rightarrow> byte list \<Rightarrow> 'o traced world \<Rightarrow> (size_t \<times> 'o traced world) cres" where
  "app_write S s bs w =
     bnd (zsocket_write (traced S) s bs (of_nat (length bs)) w) (\<lambda>(n, w).
     let got = (if n = -1 then [] else take (unat n) bs); t = os w in
     Inr (n, w\<lparr>os := t\<lparr>accepted := (accepted t)(s := accepted t s @ got)\<rparr>\<rparr>))"

definition note_eaten :: "addr \<Rightarrow> byte list \<Rightarrow> 'o traced world \<Rightarrow> 'o traced world" where
  "note_eaten s bs w = (let t = os w in w\<lparr>os := t\<lparr>eaten := (eaten t)(s := eaten t s @ bs)\<rparr>\<rparr>)"

definition app_read ::
  "'o sys \<Rightarrow> (addr \<Rightarrow> byte list \<Rightarrow> nat \<times> byte list) \<Rightarrow> addr \<Rightarrow> byte list \<Rightarrow> 'o traced world \<Rightarrow> (int \<times> 'o traced world) cres" where
  "app_read S g s buf w =
     (let (m, answer) = g s buf; m = min m (length buf) in
      bnd (if answer = [] then Inr (0, w) else app_write S s answer w) (\<lambda>(_, w).
      Inr (int m, note_eaten s (take m buf) w)))"

definition stream_app :: "'o sys \<Rightarrow> (addr \<Rightarrow> byte list \<Rightarrow> nat \<times> byte list) \<Rightarrow> 'o traced handlers" where
  "stream_app S g =
     \<lparr>on_close = (\<lambda>c s w. Inr w), on_read = (\<lambda>c s buf len w. app_read S g s buf w),
      on_connected = (\<lambda>c s w. Inr w), on_connection = (\<lambda>c s w. Inr w)\<rparr>"

section \<open>The invariant\<close>

definition streams :: "'o sys \<Rightarrow> addr \<Rightarrow> int \<Rightarrow> 'o traced world \<Rightarrow> bool" where
  "streams S s f w \<longleftrightarrow>
     (\<exists>xs z. zinv (traced S) xs w \<and> s \<in> set xs \<and> zs w s = Some z \<and> fd z = f \<and>
        prefix (sent (os w) f) (accepted (os w) s) \<and>
        (live z \<longrightarrow> accepted (os w) s = sent (os w) f @ out_queue z) \<and>
        arrived (os w) f = eaten (os w) s @ in_queue z)"

text \<open>
  What a call for the socket \<open>s\<close> with descriptor \<open>f\<close> leaves alone: the list, the other sockets, and the
  logs of theirs.
\<close>

definition only :: "addr \<Rightarrow> int \<Rightarrow> 'o traced world \<Rightarrow> 'o traced world \<Rightarrow> bool" where
  "only s f w w' \<longleftrightarrow> links w' = links w \<and>
     (\<forall>t. t \<noteq> s \<longrightarrow> zs w' t = zs w t \<and> eaten (os w') t = eaten (os w) t \<and> accepted (os w') t = accepted (os w) t) \<and>
     (\<forall>h. h \<noteq> f \<longrightarrow> sent (os w') h = sent (os w) h \<and> arrived (os w') h = arrived (os w) h)"

lemma only_refl: "only s f w w"
  by (simp add: only_def)

lemma only_trans: "only s f w v \<Longrightarrow> only s f v u \<Longrightarrow> only s f w u"
  by (simp add: only_def)

lemma streams_fd:
  assumes "streams S s f w" and "streams S t h w" and "t \<noteq> s"
  shows "h \<noteq> f"
proof -
  obtain xs z where x: "zinv (traced S) xs w" "s \<in> set xs" "zs w s = Some z" "fd z = f"
    using assms(1) unfolding streams_def by blast
  obtain ys y where y: "zinv (traced S) ys w" "t \<in> set ys" "zs w t = Some y" "fd y = h"
    using assms(2) unfolding streams_def by blast
  have "ys = xs" by (rule zinv_ring_unique [OF x(1) zinv_ring [OF y(1)]])
  with zinv_fd_inj [OF x(1,2) _ x(3) y(3)] x(4) y(2,4) assms(3) show ?thesis by auto
qed

lemma streams_other:
  assumes "streams S s f w'" and "only s f w w'" and "streams S t h w" and "t \<noteq> s" and "h \<noteq> f"
  shows "streams S t h w'"
proof -
  obtain xs where x: "zinv (traced S) xs w'" using assms(1) unfolding streams_def by blast
  obtain ys y where y: "zinv (traced S) ys w" "t \<in> set ys" "zs w t = Some y" "fd y = h"
    "prefix (sent (os w) h) (accepted (os w) t)" "live y \<longrightarrow> accepted (os w) t = sent (os w) h @ out_queue y"
    "arrived (os w) h = eaten (os w) t @ in_queue y"
    using assms(3) unfolding streams_def by blast
  have "ring (links w) socks xs" using zinv_ring [OF x] assms(2) by (simp add: only_def)
  then have "xs = ys" by (rule zinv_ring_unique [OF y(1)])
  with x y assms(2,4,5) show ?thesis unfolding streams_def only_def by (intro exI [of _ ys] exI [of _ y]) simp
qed

lemma write_quiet: "zsocket_write (traced S) s bs len w = Inr (n, w') \<Longrightarrow> log_of (os w') = log_of (os w)"
  by (auto simp: zsocket_write_def write_wbuf_def enable_write_def put_zs_def Let_def
      split: if_splits option.splits prod.splits dest!: traced_quiet(2) new_qbuf_quiet)

lemma log_of_eq: "log_of t' = log_of t \<longleftrightarrow> sent t' = sent t \<and> arrived t' = arrived t \<and> eaten t' = eaten t \<and> accepted t' = accepted t"
  by (auto simp: log_of_def)

lemma zinv_logs: "zinv (traced S) xs w \<Longrightarrow> base t = base (os w) \<Longrightarrow> zinv (traced S) xs (w\<lparr>os := t\<rparr>)"
  by (rule zinv_os) (simp_all add: traced_def)

section \<open>Each call keeps it\<close>

lemma write_streams:
  assumes S: "sys_ok S" and st: "streams S s f w" and z: "zs w s = Some z" "live z" and len: "length bs < 2 ^ 63"
  shows "\<exists>n w' z'. app_write S s bs w = Inr (n, w') \<and> streams S s f w' \<and> in_looping w' = in_looping w \<and>
    zs w' s = Some z' \<and> live z' \<and> rbuf z' = rbuf z \<and> only s f w w'"
proof -
  obtain xs where inv: "zinv (traced S) xs w" and s: "s \<in> set xs" and f: "fd z = f"
    and out: "accepted (os w) s = sent (os w) f @ out_queue z" and inp: "arrived (os w) f = eaten (os w) s @ in_queue z"
    using st z unfolding streams_def by auto
  let ?n = "of_nat (length bs) :: size_t"
  have l: "unat ?n = length bs" by (rule unat_of_nat_size_t) (use len in simp)
  then have l': "unat ?n < 2 ^ 63" "unat ?n \<le> length bs" using len by simp_all
  obtain n w1 where w1: "zsocket_write (traced S) s bs ?n w = Inr (n, w1)" "zinv (traced S) xs w1"
    "in_looping w1 = in_looping w" "links w1 = links w"
    "n = -1 \<and> wbuf z = None \<and> zs w1 = zs w \<or>
     n \<le> ?n \<and> (\<exists>z'. zs w1 = (zs w)(s \<mapsto> z') \<and> write_result z z' (take (unat n) bs))"
    using write_inv [OF inv traced_ok [OF S] s z l'] by blast
  define got where "got = (if n = -1 then [] else take (unat n) bs)"
  have "unat (-1 :: size_t) = 2 ^ 64 - 1" by (simp add: unsigned_minus_1_eq_mask mask_eq_exp_minus_1)
  then have "n \<noteq> -1" if "n \<le> ?n" using that l len by (auto simp: word_le_nat_alt)
  then obtain z' where z': "zs w1 s = Some z'" "live z'" "fd z' = f" "rbuf z' = rbuf z" "out_queue z' = out_queue z @ got"
    using w1(5) z f by (auto simp: got_def write_result_def) (metis zsocket.select_convs(1,8) zsocket.surjective zsocket.update_convs(5,9))+
  define w' where "w' = w1\<lparr>os := (os w1)\<lparr>accepted := (accepted (os w1))(s := accepted (os w1) s @ got)\<rparr>\<rparr>"
  have "app_write S s bs w = Inr (n, w')" by (simp add: app_write_def w1(1) w'_def got_def Let_def)
  moreover have "zinv (traced S) xs w'" unfolding w'_def by (rule zinv_logs [OF w1(2)]) simp
  moreover have "log_of (os w1) = log_of (os w)" by (rule write_quiet [OF w1(1)])
  moreover have "zs w1 t = zs w t" if "t \<noteq> s" for t using w1(5) that by auto
  ultimately show ?thesis
    using s z' out inp w1(3,4) by (auto simp: streams_def only_def w'_def log_of_eq)
qed

text \<open>A turn of sending. In the event loop closing a socket only marks it and calls nothing.\<close>

lemma mark_closed_os: "mark_closed s cb w = Inr w' \<Longrightarrow> os w' = os w \<and> in_looping w' = in_looping w"
  by (auto simp: mark_closed_def put_zs_def Let_def split: if_splits)

lemma close_looping_os: "zsocket_close S k s cb w = Inr w' \<Longrightarrow> in_looping w \<Longrightarrow> os w' = os w"
  by (auto dest!: mark_closed_os split: if_splits)

lemma send_os:
  assumes "zsocket_handle_send S k s w = Inr w'" and "in_looping w" and "zs w s = Some z" and "wbuf z = Some q"
    and "qbuf_inv q"
  shows "os w' = (if contents q = [] then os w else snd (sys_send S (fd z) (contents q) (os w)))"
  using assms queue_read [OF assms(5)] used_eq_0 [OF assms(5)]
  by (auto simp: zsocket_handle_send_def put_zs_def Let_def simp del: zsocket_close.simps
      split: if_splits prod.splits dest!: close_looping_os)

lemma send_streams:
  assumes S: "sys_ok S" and st: "streams S s f w" and z: "zs w s = Some z" "live z" "is_set ZS_S_WRITE_ENABLE z"
    and small: "small_buf (wbuf z)" and loop: "in_looping w"
  shows "\<exists>w'. zsocket_handle_send (traced S) k s w = Inr w' \<and> streams S s f w' \<and> only s f w w'"
proof -
  obtain xs where inv: "zinv (traced S) xs w" and s: "s \<in> set xs" and f: "fd z = f"
    and out: "accepted (os w) s = sent (os w) f @ out_queue z" and inp: "arrived (os w) f = eaten (os w) s @ in_queue z"
    using st z unfolding streams_def by auto
  obtain q where q: "wbuf z = Some q" "qbuf_inv q" using write_enabled(1) [OF inv s z] by blast
  then have oq: "out_queue z = contents q" by (simp add: queue_of_def)
  have len: "length (out_queue z) < 2 ^ 31" using small_spare(2) [OF q(2)] small q oq by (simp add: small_buf_def)
  define n where "n = fst (sys_send (traced S) (fd z) (out_queue z) (os w))"
  obtain w' z' where w': "zsocket_handle_send (traced S) k s w = Inr w'" "zinv (traced S) xs w'"
    "zs w' = (zs w)(s \<mapsto> z')" "fd z' = fd z" "rbuf z' = rbuf z" "links w' = links w"
    "if out_queue z = [] then w' = w else if n = -1 then \<not> live z' else out_queue z' = drop (nat n) (out_queue z)"
    using handle_send_inv [OF inv traced_ok [OF S] s z loop len, of k] by (auto simp: Let_def n_def)
  have "os w' = (if out_queue z = [] then os w else snd (sys_send (traced S) f (out_queue z) (os w)))"
    using send_os [OF w'(1) loop z(1) q] oq f by simp
  then have l: "sent (os w') = (sent (os w))(f := sent (os w) f @ (if out_queue z = [] then [] else take (nat n) (out_queue z)))"
    "arrived (os w') = arrived (os w)" "eaten (os w') = eaten (os w)" "accepted (os w') = accepted (os w)"
    using traced_send [of S f "out_queue z" "os w"] f by (simp_all add: log_of_def n_def)
  have "prefix (sent (os w') f) (accepted (os w') s)"
    using l out by (auto simp: take_is_prefix)
  moreover have "accepted (os w') s = sent (os w') f @ out_queue z'" if "live z'"
    using that fun_cong [OF w'(3), of s] w'(7) l out z(1) by (auto split: if_splits)
  ultimately have "streams S s f w'"
    unfolding streams_def using w'(2-5) s f inp l(2,3) by (intro exI [of _ xs] exI [of _ z']) simp
  moreover have "only s f w w'" using w'(3,6) l by (simp add: only_def)
  ultimately show ?thesis using w'(1) by blast
qed

text \<open>A turn of receiving, up to the callback, in the callback, and after it.\<close>

definition recv_works :: "'o sys \<Rightarrow> bool" where
  "recv_works S \<longleftrightarrow> (\<forall>f n o1. fst (sys_recv S f n o1) \<noteq> -1)"

lemma after_callback_quiet:
  "after_callback (traced S) k s len nr w = Inr w' \<Longrightarrow> in_looping w \<Longrightarrow> log_of (os w') = log_of (os w)"
  by (auto simp: after_callback_def after_read_def put_zs_def Let_def simp del: zsocket_close.simps
      split: if_splits option.splits prod.splits dest!: close_looping_os traced_quiet(2))

lemma recv_buffer_quiet: "recv_buffer (traced S) z t = (b, t') \<Longrightarrow> log_of t' = log_of t"
  by (auto simp: recv_buffer_def split: option.splits dest: new_qbuf_quiet)

lemma arrive_streams:
  assumes S: "sys_ok S" "recv_works S" and st: "streams S s f w" and z: "zs w s = Some z" "live z" "small_buf (rbuf z)"
    and en: "is_set ZS_S_READ_ENABLE z" "stype z \<noteq> ZS_T_SERVER" "read_cb z = Some c" and loop: "in_looping w"
    and b: "recv_buffer (traced S) z (os w) = (Some q, o1)"
  shows "\<exists>w1 z1 q1. zsocket_handle_recv (traced S) H k s w =
      bnd (on_read H c s (contents q1) (to_int (int (length (contents q1)))) w1)
        (\<lambda>(nr, w). after_callback (traced S) k s (qbuf_used q1) nr w) \<and>
    streams S s f w1 \<and> zs w1 s = Some z1 \<and> live z1 \<and> in_looping w1 \<and> rbuf z1 = Some q1 \<and> only s f w w1"
proof -
  obtain xs where inv: "zinv (traced S) xs w" and s: "s \<in> set xs" and f: "fd z = f"
    and out: "accepted (os w) s = sent (os w) f @ out_queue z" and inp: "arrived (os w) f = eaten (os w) s @ in_queue z"
    using st z unfolding streams_def by auto
  note T = traced_ok [OF S(1)]
  have "sock_ok (fds_read w) (fds_write w) z" using zinv_listed [OF inv s] z by auto
  then have "buf_ok (rbuf z)" by (simp add: sock_ok_def)
  note sp = recv_spare(1) [OF T this z(3) b]
  obtain n bs o2 where r: "sys_recv (traced S) (fd z) (qbuf_spare q) o1 = (n, bs, o2)" by (metis prod_cases3)
  moreover have "fst (sys_recv (traced S) (fd z) (qbuf_spare q) o1) = fst (sys_recv S (fd z) (qbuf_spare q) (base o1))"
    by (simp add: traced_def split: prod.splits)
  ultimately have n: "n \<noteq> -1" using S(2) by (auto simp: recv_works_def)
  with sys_ok_recv [OF T r] have bs: "take (nat n) bs = bs" by auto
  obtain w1 z1 q1 where w1: "zsocket_handle_recv (traced S) H k s w =
      bnd (on_read H c s (contents q1) (to_int (int (length (contents q1)))) w1)
        (\<lambda>(nr, w). after_callback (traced S) k s (qbuf_used q1) nr w)"
    "zinv (traced S) xs w1" "zs w1 = (zs w)(s \<mapsto> z1)" "live z1" "in_looping w1" "fd z1 = fd z"
    "wbuf z1 = wbuf z" "rbuf z1 = Some q1" "contents q1 = in_queue z @ bs" "os w1 = snd (sys_time (traced S) o2)"
    "links w1 = links w"
    using handle_recv_callback [OF inv T s z(1,2) en loop b sp r n, of H k] by blast
  have "log_of (os w1) = log_of o2" using w1(10) traced_quiet(3) by simp
  then have l: "sent (os w1) = sent (os w)" "arrived (os w1) = (arrived (os w))(f := arrived (os w) f @ bs)" "eaten (os w1) = eaten (os w)"
    "accepted (os w1) = accepted (os w)"
    using traced_recv [OF r] recv_buffer_quiet [OF b] f bs by (simp_all add: log_of_def)
  then have "streams S s f w1"
    unfolding streams_def using w1(2-4,6-9) s f out inp
    by (intro exI [of _ xs] exI [of _ z1]) (simp add: queue_of_def)
  moreover have "only s f w w1" using w1(3,11) l by (simp add: only_def)
  ultimately show ?thesis using w1(1,3-5,8) by (intro exI [of _ w1] exI [of _ z1] exI [of _ q1]) simp
qed

lemma consumed_streams:
  assumes S: "sys_ok S" and st: "streams S s f w" and z: "zs w s = Some z" "live z" "rbuf z = Some q"
    and loop: "in_looping w" and m: "m \<le> length (contents q)"
  shows "\<exists>w'. after_callback (traced S) k s (qbuf_used q) (int m) (note_eaten s (take m (contents q)) w) = Inr w' \<and>
    streams S s f w' \<and> only s f w w'"
proof -
  let ?w = "note_eaten s (take m (contents q)) w"
  obtain xs where inv: "zinv (traced S) xs w" and s: "s \<in> set xs" and f: "fd z = f"
    and out: "accepted (os w) s = sent (os w) f @ out_queue z" and inp: "arrived (os w) f = eaten (os w) s @ in_queue z"
    using st z unfolding streams_def by auto
  have inv': "zinv (traced S) xs ?w" unfolding note_eaten_def Let_def by (rule zinv_logs [OF inv]) simp
  have z': "zs ?w s = Some z" "in_looping ?w" "int m \<le> int (length (contents q))"
    using z(1) loop m by (simp_all add: note_eaten_def Let_def)
  have room: "\<not> live z \<Longrightarrow> \<exists>q1. consume (word_of_int (int m)) q = Inr q1 \<and> qbuf_spare q1 \<noteq> 0" using z(2) by blast
  obtain w' z' where w': "after_callback (traced S) k s (qbuf_used q) (int m) ?w = Inr w'" "zinv (traced S) xs w'"
    "zs w' = (zs ?w)(s \<mapsto> z')" "fd z' = fd z" "wbuf z' = wbuf z" "in_queue z' = drop m (contents q)" "links w' = links ?w"
    using after_callback_inv [OF inv' traced_ok [OF S] s z'(1) room z'(2) z(3) _ z'(3), of k] by auto
  have "log_of (os w') = log_of (os ?w)" by (rule after_callback_quiet [OF w'(1) z'(2)])
  then have l: "sent (os w') = sent (os w)" "arrived (os w') = arrived (os w)" "accepted (os w') = accepted (os w)"
    "eaten (os w') = (eaten (os w))(s := eaten (os w) s @ take m (contents q))"
    by (simp_all add: log_of_eq note_eaten_def Let_def)
  then have "streams S s f w'"
    unfolding streams_def using w'(2-6) s f out inp z(3)
    by (intro exI [of _ xs] exI [of _ z']) (simp add: queue_of_def)
  moreover have "only s f w w'" using w'(3,7) l by (simp add: only_def note_eaten_def Let_def)
  ultimately show ?thesis using w'(1) by blast
qed

lemma recv_streams:
  assumes S: "sys_ok S" "recv_works S" and g: "\<And>s b. length (snd (g s b)) < 2 ^ 63"
    and st: "streams S s f w" and z: "zs w s = Some z" "live z" "small_buf (rbuf z)"
    and en: "is_set ZS_S_READ_ENABLE z" "stype z \<noteq> ZS_T_SERVER" and loop: "in_looping w"
  shows "\<exists>w'. zsocket_handle_recv (traced S) (stream_app S g) k s w = Inr w' \<and> streams S s f w' \<and> only s f w w'"
proof -
  obtain xs where inv: "zinv (traced S) xs w" and s: "s \<in> set xs" using st unfolding streams_def by blast
  have "sock_ok (fds_read w) (fds_write w) z" using zinv_listed [OF inv s] z by auto
  then obtain c where c: "read_cb z = Some c" and t: "stype z \<noteq> ZS_T_NONE" using z en by (auto simp: sock_ok_def)
  obtain b o1 where b: "recv_buffer (traced S) z (os w) = (b, o1)" by (cases "recv_buffer (traced S) z (os w)")
  show ?thesis
  proof (cases b)
    case None
    then have "zsocket_handle_recv (traced S) (stream_app S g) k s w = Inr (w\<lparr>os := o1\<rparr>)"
      using b z en t by (simp add: zsocket_handle_recv_def recv_buffer_def)
    moreover have "zinv (traced S) ys (w\<lparr>os := o1\<rparr>)" if "zinv (traced S) ys w" for ys
      by (rule zinv_os [OF that])
        (use b new_qbuf_inv(1) [OF traced_ok [OF S(1)]] in \<open>auto simp: recv_buffer_def split: option.splits\<close>)
    ultimately show ?thesis using st recv_buffer_quiet [OF b] by (auto simp: streams_def only_def log_of_eq)
  next
    case (Some q)
    obtain w1 z1 q1 where w1: "zsocket_handle_recv (traced S) (stream_app S g) k s w =
        bnd (app_read S g s (contents q1) w1) (\<lambda>(nr, w). after_callback (traced S) k s (qbuf_used q1) nr w)"
      "streams S s f w1" "zs w1 s = Some z1" "live z1" "in_looping w1" "rbuf z1 = Some q1" "only s f w w1"
      using arrive_streams [OF S st z en c loop, of q o1 "stream_app S g" k] b Some by (auto simp: stream_app_def)
    obtain m answer where a: "g s (contents q1) = (m, answer)" by (cases "g s (contents q1)")
    obtain r w2 z2 where w2: "(if answer = [] then Inr (0, w1) else app_write S s answer w1) = Inr (r, w2)"
      "streams S s f w2" "zs w2 s = Some z2" "live z2" "in_looping w2" "rbuf z2 = Some q1" "only s f w1 w2"
      using write_streams [OF S(1) w1(2-4), of answer] g [of s "contents q1"] a w1(2-6) by (cases "answer = []") (auto simp: only_refl)
    show ?thesis
      using consumed_streams [OF S(1) w2(2-4,6,5), of "min m (length (contents q1))" k] w1(1) w2(1) a
        only_trans [OF only_trans [OF w1(7) w2(7)]] by (auto simp: app_read_def Let_def)
  qed
qed

section \<open>Any number of calls\<close>

text \<open>The world \<open>w\<close> with empty logs, where the streams begin.\<close>

definition with_logs :: "'o world \<Rightarrow> 'o traced world" where
  "with_logs w =
     \<lparr>lib_init = lib_init w, in_looping = in_looping w, nfds_read = nfds_read w, fds_read = fds_read w,
      nfds_write = nfds_write w, fds_write = fds_write w, status = status w, links = links w, zs = zs w,
      os = \<lparr>base = os w, sent = (\<lambda>_. []), arrived = (\<lambda>_. []), eaten = (\<lambda>_. []), accepted = (\<lambda>_. [])\<rparr>\<rparr>"

lemma with_logs_inv: "zinv S xs w \<Longrightarrow> zinv (traced S) xs (with_logs w)"
proof -
  have "list_ok xs (with_logs w) = list_ok xs w" by (simp only: list_ok_def) (simp add: with_logs_def)
  moreover have "fds_ok (traced S) xs (with_logs w) = fds_ok S xs w" by (simp add: fds_ok_def with_logs_def traced_def)
  ultimately show "zinv S xs w \<Longrightarrow> zinv (traced S) xs (with_logs w)" by (simp add: zinv_def) (simp add: with_logs_def)
qed

text \<open>
  The calls for the sockets \<open>M\<close>, in any order: the application starts and stops to read and writes, the
  event loop sends and receives. A turn has a queue below \<open>2 ^ 30\<close> bytes. Between them other things
  happen (\<open>others\<close>: system calls, calls for other sockets), which leave these sockets, their place in
  the list and what came and went on their descriptors alone.
\<close>

definition turn :: "'o traced world \<Rightarrow> 'o traced world" where
  "turn w = w\<lparr>in_looping := True\<rparr>"

definition open_at :: "addr \<Rightarrow> 'o world \<Rightarrow> zsocket \<Rightarrow> bool" where
  "open_at s w z \<longleftrightarrow> zs w s = Some z \<and> live z"

definition others :: "'o sys \<Rightarrow> addr set \<Rightarrow> 'o traced world \<Rightarrow> 'o traced world \<Rightarrow> bool" where
  "others S M w w' \<longleftrightarrow>
     (\<forall>xs. zinv (traced S) xs w \<longrightarrow> M \<subseteq> set xs \<longrightarrow> (\<exists>ys. zinv (traced S) ys w' \<and> M \<subseteq> set ys)) \<and>
     (\<forall>s \<in> M. zs w' s = zs w s \<and> eaten (os w') s = eaten (os w) s \<and> accepted (os w') s = accepted (os w) s) \<and>
     (\<forall>s \<in> M. \<forall>z. zs w s = Some z \<longrightarrow> sent (os w') (fd z) = sent (os w) (fd z) \<and> arrived (os w') (fd z) = arrived (os w) (fd z))"

inductive stream_step ::
  "'o sys \<Rightarrow> (addr \<Rightarrow> byte list \<Rightarrow> nat \<times> byte list) \<Rightarrow> addr set \<Rightarrow> 'o traced world \<Rightarrow> 'o traced world \<Rightarrow> bool" for S g M where
  Start: "s \<in> M \<Longrightarrow> open_at s w z \<Longrightarrow> \<not> is_set ZS_S_READ_ENABLE z \<Longrightarrow> zsocket_read_start s (Some c) w = Inr w' \<Longrightarrow>
    stream_step S g M w w'"
| Stop: "s \<in> M \<Longrightarrow> open_at s w z \<Longrightarrow> stype z \<noteq> ZS_T_SERVER \<Longrightarrow> is_set ZS_S_READ_ENABLE z \<Longrightarrow>
    zsocket_read_stop s w = Inr w' \<Longrightarrow> stream_step S g M w w'"
| Write: "s \<in> M \<Longrightarrow> open_at s w z \<Longrightarrow> length bs < 2 ^ 63 \<Longrightarrow> app_write S s bs w = Inr (n, w') \<Longrightarrow> stream_step S g M w w'"
| Send: "s \<in> M \<Longrightarrow> open_at s w z \<Longrightarrow> is_set ZS_S_WRITE_ENABLE z \<Longrightarrow> small_buf (wbuf z) \<Longrightarrow>
    zsocket_handle_send (traced S) k s (turn w) = Inr w' \<Longrightarrow> stream_step S g M w w'"
| Recv: "s \<in> M \<Longrightarrow> open_at s w z \<Longrightarrow> is_set ZS_S_READ_ENABLE z \<Longrightarrow> stype z \<noteq> ZS_T_SERVER \<Longrightarrow> small_buf (rbuf z) \<Longrightarrow>
    zsocket_handle_recv (traced S) (stream_app S g) k s (turn w) = Inr w' \<Longrightarrow> stream_step S g M w w'"
| Others: "others S M w w' \<Longrightarrow> stream_step S g M w w'"

lemma turn_simps [simp]: "zs (turn w) = zs w" "os (turn w) = os w" "links (turn w) = links w" "in_looping (turn w)"
  "zinv S xs (turn w) = zinv S xs w"
  by (simp_all add: turn_def)

lemma turn_streams [simp]: "streams S s f (turn w) = streams S s f w" "only s f (turn w) w' = only s f w w'"
  by (simp_all add: streams_def only_def)

lemma read_quiet:
  "zsocket_read_start s cb w = Inr w' \<Longrightarrow> os w' = os w \<and> links w' = links w"
  "zsocket_read_stop s w = Inr w' \<Longrightarrow> os w' = os w \<and> links w' = links w"
  by (auto simp: zsocket_read_start_def zsocket_read_stop_def enable_read_def put_zs_def Let_def split: if_splits)

text \<open>A change of flags and callbacks of the socket keeps its streams.\<close>

lemma streams_flags:
  assumes "streams S s f w" and "zs w s = Some z" "live z" and "\<And>xs. zinv (traced S) xs w \<Longrightarrow> s \<in> set xs \<Longrightarrow>
    \<exists>w'. m = Inr w' \<and> zinv (traced S) xs w' \<and> zs w' = (zs w)(s \<mapsto> z')"
    and "m = Inr w'" and "os w' = os w \<and> links w' = links w" and "fd z' = fd z" "wbuf z' = wbuf z" "rbuf z' = rbuf z"
  shows "streams S s f w' \<and> only s f w w'"
proof -
  obtain xs where xs: "zinv (traced S) xs w" "s \<in> set xs" "fd z = f"
    "accepted (os w) s = sent (os w) f @ out_queue z" "arrived (os w) f = eaten (os w) s @ in_queue z"
    using assms(1-3) by (auto simp: streams_def)
  with assms(4) [OF xs(1,2)] assms(5-9) show ?thesis
    by (auto simp: streams_def only_def intro!: exI [of _ xs])
qed

text \<open>A step is a call for one of the sockets, which keeps its streams and touches no other, or none.\<close>

lemma stream_step_cases:
  assumes S: "sys_ok S" "recv_works S" and g: "\<And>s b. length (snd (g s b)) < 2 ^ 63"
    and step: "stream_step S g M w w'" and st: "\<forall>s \<in> M. streams S s (F s) w"
  shows "others S M w w' \<or> (\<exists>s \<in> M. streams S s (F s) w' \<and> only s (F s) w w')"
  using step
proof cases
  case (Start s z c)
  have "streams S s (F s) w" using st Start(1) by blast
  from streams_flags [OF this _ _ _ Start(4) read_quiet(1) [OF Start(4)], of z "z\<lparr>state := state z OR ZS_S_READ_ENABLE, read_cb := Some c\<rparr>"]
    Start read_start_inv [of "traced S" _ w s z "Some c"] show ?thesis by (fastforce simp: open_at_def)
next
  case (Stop s z)
  have "streams S s (F s) w" using st Stop(1) by blast
  from streams_flags [OF this _ _ _ Stop(5) read_quiet(2) [OF Stop(5)], of z "z\<lparr>state := state z AND NOT ZS_S_READ_ENABLE, read_cb := None\<rparr>"]
    Stop read_stop_inv [of "traced S" _ w s z] show ?thesis by (fastforce simp: open_at_def)
next
  case (Write s z bs n)
  have "streams S s (F s) w" using st Write(1) by blast
  from write_streams [OF S(1) this, of z bs] Write show ?thesis by (fastforce simp: open_at_def)
next
  case (Send s z k)
  have "streams S s (F s) (turn w)" using st Send(1) by simp
  from send_streams [OF S(1) this, of z k] Send show ?thesis by (fastforce simp: open_at_def)
next
  case (Recv s z k)
  have "streams S s (F s) (turn w)" using st Recv(1) by simp
  from recv_streams [OF S, where g = g, OF g this, of z k] Recv show ?thesis by (fastforce simp: open_at_def)
qed simp

lemma others_streams:
  assumes "others S M w w'" and st: "\<forall>s \<in> M. streams S s (F s) w" and "s \<in> M"
  shows "streams S s (F s) w'"
proof -
  obtain xs z where x: "zinv (traced S) xs w" "zs w s = Some z" "fd z = F s"
    "prefix (sent (os w) (F s)) (accepted (os w) s)" "live z \<longrightarrow> accepted (os w) s = sent (os w) (F s) @ out_queue z"
    "arrived (os w) (F s) = eaten (os w) s @ in_queue z"
    using bspec [OF st assms(3)] unfolding streams_def by auto
  have "t \<in> set xs" if t: "t \<in> M" for t
  proof -
    obtain ys where y: "zinv (traced S) ys w" "t \<in> set ys" using bspec [OF st t] unfolding streams_def by auto
    with zinv_ring_unique [OF x(1) zinv_ring [OF y(1)]] show ?thesis by simp
  qed
  then obtain ys where "zinv (traced S) ys w'" "M \<subseteq> set ys" using assms(1) x(1) unfolding others_def by blast
  moreover have "zs w' s = zs w s \<and> eaten (os w') s = eaten (os w) s \<and> accepted (os w') s = accepted (os w) s"
    and "\<forall>z. zs w s = Some z \<longrightarrow> sent (os w') (fd z) = sent (os w) (fd z) \<and> arrived (os w') (fd z) = arrived (os w) (fd z)"
    using assms(1,3) unfolding others_def by blast+
  then have "zs w' s = Some z" "eaten (os w') s = eaten (os w) s" "accepted (os w') s = accepted (os w) s"
    "sent (os w') (F s) = sent (os w) (F s)" "arrived (os w') (F s) = arrived (os w) (F s)"
    using x(2,3) by auto
  ultimately show ?thesis unfolding streams_def using x(3-6) assms(3) by (intro exI [of _ ys] exI [of _ z]) auto
qed

lemma stream_step_inv:
  assumes S: "sys_ok S" "recv_works S" and g: "\<And>s b. length (snd (g s b)) < 2 ^ 63"
    and step: "stream_step S g M w w'" and st: "\<forall>s \<in> M. streams S s (F s) w"
  shows "\<forall>s \<in> M. streams S s (F s) w'"
proof
  fix t assume t: "t \<in> M"
  from stream_step_cases [OF S g step st] show "streams S t (F t) w'"
  proof
    assume "\<exists>s \<in> M. streams S s (F s) w' \<and> only s (F s) w w'"
    then obtain s where s: "s \<in> M" "streams S s (F s) w'" "only s (F s) w w'" by blast
    have "F t \<noteq> F s" if "t \<noteq> s" by (rule streams_fd [OF _ _ that]) (use st s(1) t in blast)+
    then show ?thesis using s streams_other [OF s(2,3)] st t by (cases "t = s") auto
  qed (rule others_streams [OF _ st t])
qed

text \<open>Where the streams begin: listed sockets with no queue yet.\<close>

definition fresh_streams :: "'o sys \<Rightarrow> addr set \<Rightarrow> 'o world \<Rightarrow> bool" where
  "fresh_streams S M w \<longleftrightarrow>
     (\<exists>xs. zinv S xs w \<and> M \<subseteq> set xs \<and> (\<forall>s \<in> M. \<exists>z. zs w s = Some z \<and> rbuf z = None \<and> wbuf z = None))"

lemma streams_reached:
  assumes "sys_ok S" and "recv_works S" and "\<And>s b. length (snd (g s b)) < 2 ^ 63"
    and "fresh_streams S M w0" and "(stream_step S g M)\<^sup>*\<^sup>* (with_logs w0) w" and "s \<in> M" and "zs w0 s = Some z0"
  shows "streams S s (fd z0) w"
proof -
  define F where "F t = fd (the (zs w0 t))" for t
  obtain xs where xs: "zinv S xs w0" "M \<subseteq> set xs" "\<forall>s \<in> M. \<exists>z. zs w0 s = Some z \<and> rbuf z = None \<and> wbuf z = None"
    using assms(4) unfolding fresh_streams_def by blast
  have "streams S t (F t) (with_logs w0)" if "t \<in> M" for t
  proof -
    obtain z where "zs w0 t = Some z" "rbuf z = None" "wbuf z = None" using xs(3) \<open>t \<in> M\<close> by blast
    then show ?thesis
      unfolding streams_def F_def using with_logs_inv [OF xs(1)] xs(2) \<open>t \<in> M\<close>
      by (intro exI [of _ xs] exI [of _ z]) (auto simp: with_logs_def queue_of_def)
  qed
  then have "\<forall>t \<in> M. streams S t (F t) (with_logs w0)" by blast
  with assms(5) have "\<forall>t \<in> M. streams S t (F t) w"
    by (induction rule: rtranclp_induct) (auto intro: stream_step_inv [OF assms(1-3), THEN bspec])
  then have "streams S s (F s) w" using assms(6) by blast
  then show ?thesis using assms(7) by (simp add: F_def)
qed

section \<open>The properties\<close>



section \<open>At concrete inputs\<close>

text \<open>A connection with nothing queued yet, and an application that echoes what it is handed.\<close>

definition new_conn :: zsocket where
  "new_conn = init_zsocket\<lparr>fd := 4, laddr := port_80, stype := ZS_T_CONNECTION\<rparr>"

abbreviation new_world :: "int list world" where
  "new_world \<equiv> demo_world False new_conn {3} {}"

lemma new_conn_fields: "live new_conn" "fd new_conn = 4" "stype new_conn = ZS_T_CONNECTION" "rbuf new_conn = None"
  "wbuf new_conn = None" "\<not> is_set ZS_S_READ_ENABLE new_conn" "\<not> is_set ZS_S_WRITE_ENABLE new_conn"
  by (simp_all add: new_conn_def init_zsocket_def is_set_def)

lemma new_world_inv: "zinv demo_sys [con_at, srv_at] new_world"
  by (rule demo_inv) (simp_all add: demo_sys_def new_conn_fields sock_ok_def buf_ok_def FD_SETSIZE_def)

lemma demo_recv_works: "recv_works demo_sys"
  by (simp add: recv_works_def demo_sys_def)

lemma new_world_at: "zs new_world con_at = Some new_conn"
  by (simp add: demo_world_def)

lemma new_fresh: "fresh_streams demo_sys {con_at} new_world"
  using new_world_inv new_world_at new_conn_fields(4,5) unfolding fresh_streams_def
  by (intro exI [of _ "[con_at, srv_at]"]) simp

lemma echo_short: "length (snd (length b, take 8 b)) < 2 ^ 63" for b :: "byte list"
  by simp

lemma new_run: "\<exists>w. (stream_step demo_sys (\<lambda>s b. (length b, take 8 b)) {con_at})\<^sup>*\<^sup>* (with_logs new_world) w \<and>
    (\<exists>n. app_write demo_sys con_at [1, 2, 3] (with_logs new_world) = Inr (n, w))"
proof -
  have z: "zs (with_logs new_world) con_at = Some new_conn" by (simp add: with_logs_def new_world_at)
  have st: "streams demo_sys con_at (fd new_conn) (with_logs new_world)"
    by (rule streams_reached [OF demo_sys_ok demo_recv_works echo_short new_fresh rtranclp.rtrancl_refl _ new_world_at]) simp
  obtain n w where w: "app_write demo_sys con_at [1, 2, 3] (with_logs new_world) = Inr (n, w)"
    using write_streams [OF demo_sys_ok st z new_conn_fields(1), of "[1, 2, 3]"] by auto
  have "open_at con_at (with_logs new_world) new_conn" using z new_conn_fields(1) by (simp add: open_at_def)
  from stream_step.Write [OF _ this _ w, of "{con_at}" "\<lambda>s b. (length b, take 8 b)"]
  have "stream_step demo_sys (\<lambda>s b. (length b, take 8 b)) {con_at} (with_logs new_world) w" by simp
  with w show ?thesis by blast
qed



end
