(* ===== verification/Spec2Isabelle.thy ===== *)
theory Spec2Isabelle
  imports Hlist_Loops Qbuf_Heap Serial_Public Serial_Threads Socket_Public Socket_Threads Socket_Win Windows_Client Zsocket_Stream
begin

text \<open>
  A model of \<^verbatim>\<open>libzio\<close>, a small C library for sockets and serial ports, with proofs that it
  keeps its data structures and does with bytes, sockets, ports and callbacks what it should.

  \<^bold>\<open>The program.\<close> It has three parts that share \<^verbatim>\<open>src/list.h\<close>.
    \<^item> \<^verbatim>\<open>src/zsocket.c\<close>: an application makes \<open>struct zsocket\<close>s, connects, listens or accepts with them,
      and calls \<open>zsocket_loop\<close> again and again. A round of the loop waits in \<open>select\<close>, hands each
      readable socket to \<open>zsocket_handle_recv\<close> (which receives into the socket's byte queue,
      \<^verbatim>\<open>src/qbuf.c\<close>, and calls back the application), each writable one to \<open>zsocket_handle_send\<close>
      (which sends from the other queue), and then sweeps out the sockets that were closed. Open
      sockets are nodes of one intrusive list.
    \<^item> \<^verbatim>\<open>src/serial\<close>: \<open>serial_new\<close> gives an object for a serial port, the same one to every client that
      asks for the same port with the same parameters. A list of managers counts who refers to
      an object and who has it open; the first open and the last close reach the backend, which
      is \<^verbatim>\<open>serial_unix.c\<close> or \<^verbatim>\<open>serial_win.c\<close>, through a table of functions.
    \<^item> \<^verbatim>\<open>src/socket\<close>: a TCP client that connects, reads with a timeout, reads until a buffer is
      full, writes all of a buffer and disconnects, or reads in a thread of its own.

  \<^bold>\<open>The theories.\<close>
    \<^item> \<open>Prelude\<close>: machine types, results of code that may fault, block reads and writes. \<open>Posix\<close>: what the
      components use of C and POSIX alike (conversions to \<open>int\<close>, descriptor sets, mutexes).
    \<^item> \<open>List_Head\<close>: \<open>struct list_head\<close> and its operations over a heap of nodes; \<open>ring h head xs\<close> says
      that the list of \<open>head\<close> holds \<open>xs\<close>. The locale \<open>intrusive_list\<close> is the contract of adding and
      deleting, interpreted on \<open>list_add\<close> and on \<open>list_add_tail\<close> with \<open>list_del\<close>. \<open>List_Loops\<close>: the loop
      macros over the enclosing structures, with bodies that may delete what they visit.
    \<^item> \<open>Hlist\<close>, \<open>Hlist_Loops\<close>: the singly headed hash chains of the same file; \<open>hchain h head xs\<close>.
    \<^item> \<open>Qbuf\<close>: the byte queue; \<open>contents\<close> is the list of bytes it holds, \<open>qbuf_inv\<close> its invariant. The
      locale \<open>byte_fifo\<close> is the contract of a byte queue, interpreted on \<open>qbuf_write\<close> and \<open>qbuf_peek\<close>.
    \<^item> \<open>Qbuf_Heap\<close>: the same operations on a heap of allocated blocks, with \<open>qbuf_delete\<close>: they refine
      those on values, so that the other theories may keep a queue as a value; the second
      interpretation of \<open>byte_fifo\<close>. \<open>Paired_Maps\<close>: structures that each own a second block, as byte
      queues and TCP clients do.
    \<^item> \<open>Zsocket_State\<close>, \<open>Zsocket\<close>, \<open>Zsocket_Loop\<close>: \<^verbatim>\<open>src/zsocket.h\<close> and \<^verbatim>\<open>src/zsocket.c\<close>. The static
      variables, the list nodes and the allocated sockets are one record \<open>world\<close>; each function is
      a function of the world, under the name it has in C.
    \<^item> \<open>Zsocket_Inv\<close>, \<open>Zsocket_Io\<close>, \<open>Zsocket_Sweep\<close>, \<open>Zsocket_Poll\<close>: the invariant \<open>zinv\<close> of the world and
      that every operation keeps it; what each operation does on each branch.
    \<^item> \<open>Zsocket_Reach\<close>: the steps an application may take (\<open>api_step\<close>) and the worlds it reaches.
    \<^item> \<open>Zsocket_Stream\<close>: the bytes of any number of sockets over any number of calls, with logs of what the system and
      the application saw: what was accepted for writing, sent, received and consumed, and that one
      program's callback consumes, in order, what another program wrote.
    \<^item> \<open>Zsocket_Faults\<close>: where the code goes wrong. \<open>Demo_World\<close>: a concrete outside world.
    \<^item> \<open>Serial_State\<close>, \<open>Serial_Port\<close>: the data of \<^verbatim>\<open>serial_port.h\<close>, the list of managers and every
      operation of \<^verbatim>\<open>serial_port.c\<close>, over any platform. \<open>Serial_Unix\<close>, \<open>Serial_Win\<close>: the two backends.
    \<^item> \<open>Serial_Inv\<close>, \<open>Serial_Ops\<close>, \<open>Serial_New\<close>: the invariant \<open>sinv\<close> of the managers and what the
      operations do, proved once in the locale \<open>serial_platform\<close>, the contract of a backend.
      \<open>Serial_Linux\<close> and \<open>Serial_Windows\<close> prove that the two backends keep it, as its interpretations.
    \<^item> \<open>Serial_Client\<close>, \<open>Windows_Client\<close>: the properties of the serial ports on each platform, reachable
      states, runs of opening and closing. \<open>Serial_Demo\<close>: a concrete terminal.
    \<^item> \<open>Serial_Threads\<close>: \<open>serial_open\<close> and \<open>serial_close\<close> as steps between which other threads run.
    \<^item> \<open>Socket_Cli\<close>: \<^verbatim>\<open>socket_cli.c\<close>. \<open>Socket_Client\<close>: what its operations do, with a concrete peer.
      \<open>Socket_Life\<close>: the states that an application reaches with any number of clients, and clearing
      the input. \<open>Socket_Threads\<close>: the reading thread and a thread that disconnects, step by step.
      \<open>Socket_Win\<close>: the build for Windows, and that it reaches no state the other build does not reach
      on the same calls.
    \<^item> \<open>Serial_Public\<close>, \<open>Socket_Public\<close>: the results that \<^verbatim>\<open>serial_public.h\<close> and \<^verbatim>\<open>socket_public.h\<close> promise,
      and which calls keep the promise.

  \<^bold>\<open>Faults.\<close> An operation gives \<open>Inr\<close> of its result or \<open>Inl\<close> of a fault: a failed assertion, a bad
  pointer, an access out of bounds, a read of what was never written, a mutex that the thread
  itself holds. Assertions are taken as enabled. Messages that are printed are left out, save that
  printing a buffer as a string reads up to its NUL.

  \<^bold>\<open>Outside the code.\<close> System calls and the allocator are parameters: \<open>sys\<close> with the hypothesis
  \<open>sys_ok\<close> (\<open>Zsocket_Inv\<close>) on descriptors, lengths and addresses; \<open>tty_sys\<close> with \<open>tty_ok\<close> and \<open>tty_write_ok\<close>, \<open>win_sys\<close> with \<open>win_ok\<close>;
  \<open>net\<close> (\<open>winsock\<close> on Windows) with \<open>send_ok\<close>, \<open>recv_ok\<close>, \<open>counts_ok\<close>, \<open>counts_left\<close>, \<open>fresh_ok\<close> and \<open>logs\<close>; an \<open>allocator\<close> with
  \<open>alloc_ok\<close>. The callbacks of \<^verbatim>\<open>zsocket.c\<close> are the parameter
  \<open>handlers\<close> with \<open>handlers_ok\<close> (\<open>Zsocket_Poll\<close>): they keep the invariant and do not close in a way
  that the library does not survive.

  \<^bold>\<open>Bounds.\<close> Loops over a list take fuel. A walk over \<open>n\<close> listed sockets ends with fuel above \<open>n\<close>,
  the sweep with fuel above \<open>2 * n\<close> (a server it closes walks the list again), and the lemmas prove
  that these are enough, so \<open>No_Fuel\<close> is no result of the theorems. The walk over the managers has
  a fixed bound, 257 turns: device names differ and hold an index of 8 bits, so there are at most
  256 managers. Reading until a buffer of \<open>len\<close> bytes is full ends with fuel above \<open>len\<close> where the peer
  keeps the connection, and with no fuel where it does not, as a theorem shows; clearing the
  input ends with fuel above the number of bytes that have arrived. Loops that take
  no fuel have a measure: bytes left to read or to write. Sizes of buffers stay below
  \<open>2 ^ 63\<close>, as no object is larger; one read or write of a queue handles less than \<open>2 ^ 31\<close> bytes where
  the code keeps the count in an \<open>int\<close>, and a theorem shows what happens above.

  \<^bold>\<open>Threads.\<close> A schedule is a list of turns; a step is a test, a call or a store that another thread
  can see, and theorems show that a thread which is not interrupted does what the function does. A
  call that blocks leaves its thread where it is.

  \<^bold>\<open>Not modelled.\<close> Threads other than those that
  open and close one serial port and those that read from and disconnect one TCP client, steps
  of theirs within a call of the backend or of the system, and stores that another thread sees
  late; the macros that initialise list heads, which \<open>INIT_LIST_HEAD\<close> does for the model, and those of
  \<^verbatim>\<open>zsocket.h\<close> that read a word at an address, which nothing uses; tests and build files. \<^verbatim>\<open>zsocket.c\<close> as built
  for Windows differs in its first call (\<open>zsocket_init_win\<close>) and in types; the calls it makes are
  those of \<open>sys\<close> there as well.
\<close>

section \<open>The library as a whole\<close>




text \<open>
  The close callback that the application passes to \<open>zsocket_close\<close> is never called: the sweep
  gives the same result for any two sets of callbacks, because \<open>__zsocket_close\<close> has cleared the
  pointer before \<open>zsocket_do_close\<close> tests it.
\<close>

theorem close_callbacks_never_run:
  "zsocket_do_close S H k w = zsocket_do_close S H' k w"
proof -
  have released_cb: "\<exists>z. zs w' s = Some z \<and> close_cb z = None" if "zsocket_close_now S k s w = Inr w'" for k s w w'
    using that by (auto simp: release_zsocket_def put_zs_def Let_def split: if_splits)
  have "sweep S H k s w = sweep S H' k s w" for k s w
    unfolding sweep_def
    by (intro bnd_cong refl if_cong) (auto dest!: released_cb simp del: zsocket_close_now.simps)
  then have "do_close_walk S H k s n w = do_close_walk S H' k s n w" for s n w
    by (induction k arbitrary: s n w) simp_all
  then show ?thesis by (simp add: zsocket_do_close_def)
qed

section \<open>Closing\<close>

text \<open>
  In the event loop, \<open>zsocket_close\<close> on an open listed socket only marks it: it stays listed
  with its descriptor and its buffers, its descriptor leaves both sets, the counters count it as
  closed, and nothing happens to the operating system or to another socket.
\<close>

theorem close_in_loop:
  assumes "zinv S xs w" and "in_looping w" and "s \<in> set xs" and "zs w s = Some z" and "live z"
  shows "\<exists>w'. zsocket_close S k s cb w = Inr w' \<and> zinv S xs w' \<and> os w' = os w \<and> links w' = links w \<and>
    fds_read w' = fds_read w - {fd z} \<and> fds_write w' = fds_write w - {fd z} \<and>
    zs w' = (zs w)(s \<mapsto> z\<lparr>state := state z OR ZS_S_EOF, close_cb := cb\<rparr>) \<and>
    status w' = count_closed (stype z) (status w)"
  using mark_closed_inv [OF assms(1,3-5), of cb] zsocket_close_loop [OF assms(2), of S k s cb] by auto


text \<open>
  C31: When the sweep closes a server, every other listed socket bound to its port is marked
  closed, to be swept in the next round, and the server leaves the list.
\<close>

theorem close_server_in_loop:
  assumes "zinv S xs w" and "sys_ok S" and "in_looping w" and "s \<in> set xs" and "zs w s = Some z" and "\<not> live z"
    and "stype z = ZS_T_SERVER" and "length xs \<le> k"
    and "\<forall>x \<in> set xs. \<forall>p. x \<noteq> s \<longrightarrow> zs w x = Some p \<longrightarrow> bound_to z (Some p) \<longrightarrow> live p"
  shows "\<exists>w'. zsocket_close_now S k s w = Inr w' \<and> zinv S (remove1 s xs) w' \<and>
    (\<forall>x \<in> set (remove1 s xs). \<forall>p. zs w x = Some p \<longrightarrow>
       zs w' x = Some (if bound_to z (Some p) then marked p else p))"
proof -
  have d: "distinct xs" using zinv_distinct [OF assms(1)] by simp
  have "port_free s z xs w" using assms(3,9) d by (auto simp: port_free_def)
  from close_now_inv [OF assms(1,2,4,5,6,8) this] obtain w' where
    "zsocket_close_now S k s w = Inr w'" "zinv S (remove1 s xs) w'" "zs w' = closed_zs s z xs (zs w)" by blast
  then show ?thesis using assms(7) d
    by (intro exI [of _ w']) (simp add: closed_zs_def mark_bound_def marked_def del: zsocket_close_now.simps)
qed

section \<open>Opening\<close>

text \<open>
  \<open>zsocket_connect\<close> without a callback, on an initialised unlisted socket, returns -1 and
  changes neither list nor socket nor open descriptors, or returns 0 with the socket listed first
  as an open client of that address; the invariant holds either way.
\<close>

theorem connect_lists:
  assumes "zinv S xs w" and "sys_ok S" and "s \<notin> set xs" and "zs w s = Some z" and "idle z" and "lib_init w"
  shows "\<exists>r w'. zsocket_connect S H s a None w = Inr (r, w') \<and>
    (r = -1 \<and> zinv S xs w' \<and> zs w' = zs w \<and> sys_fds S (os w') = sys_fds S (os w) \<or>
     r = 0 \<and> zinv S (s # xs) w' \<and>
       (\<exists>z'. zs w' = (zs w)(s \<mapsto> z') \<and> stype z' = ZS_T_CLIENT \<and> live z' \<and> raddr z' = a))"
  using connect_inv [OF assms, of H a None] by auto

text \<open>
  \<open>zsocket_listen\<close> returns -1 and changes nothing, or returns 0 with the socket listed first
  as an open server of that address whose descriptor is among those to read.
\<close>

theorem listen_lists:
  assumes "zinv S xs w" and "sys_ok S" and "s \<notin> set xs" and "zs w s = Some z" and "idle z" and "lib_init w"
  shows "\<exists>r w'. zsocket_listen S s a (Some c) w = Inr (r, w') \<and>
    (r = -1 \<and> zinv S xs w' \<and> zs w' = zs w \<and> sys_fds S (os w') = sys_fds S (os w) \<or>
     r = 0 \<and> zinv S (s # xs) w' \<and>
       (\<exists>z'. zs w' = (zs w)(s \<mapsto> z') \<and> stype z' = ZS_T_SERVER \<and> live z' \<and> laddr z' = a \<and>
         fds_read w' = insert (fd z') (fds_read w)))"
  using listen_inv [OF assms, of "Some c" a] by auto


text \<open>
  Where \<open>accept\<close> fails, \<open>zsocket_accept\<close> aborts the program: it hands the socket it has just
  initialised to \<open>__zsocket_close\<close>, whose first assertion does not hold of it.
\<close>

theorem accept_failure_aborts:
  assumes "zinv S xs w" and "sys_ok S" and "zs w s = Some sv" and "live sv"
    and "sys_malloc S (dom (links w)) SIZEOF_ZSOCKET (os w) = (Some c, o1)"
    and "fst (sys_accept S (fd sv) o1) = -1"
  shows "zsocket_accept S k s w = Inl Assert_Failed"
  by (rule accept_fails [OF assms])

section \<open>Reading and writing\<close>

text \<open>
  \<open>zsocket_read_stop\<close> undoes \<open>zsocket_read_start\<close>: the flags and the descriptor sets are what
  they were, and the callback is gone; between the two the descriptor is among those to read.
\<close>

theorem read_start_stop:
  assumes "zinv S xs w" and "s \<in> set xs" and "zs w s = Some z" and "live z"
    and "\<not> is_set ZS_S_READ_ENABLE z" and "stype z \<noteq> ZS_T_SERVER"
  shows "\<exists>w1 w2. zsocket_read_start s (Some c) w = Inr w1 \<and> zinv S xs w1 \<and> fds_read w1 = insert (fd z) (fds_read w) \<and>
    zsocket_read_stop s w1 = Inr w2 \<and> zinv S xs w2 \<and> fds_read w2 = fds_read w \<and> fds_write w2 = fds_write w \<and>
    zs w2 = (zs w)(s \<mapsto> z\<lparr>read_cb := None\<rparr>)"
proof -
  define z1 where "z1 = z\<lparr>state := state z OR ZS_S_READ_ENABLE, read_cb := Some c\<rparr>"
  obtain w1 where w1: "zsocket_read_start s (Some c) w = Inr w1" "zinv S xs w1"
    "fds_read w1 = insert (fd z) (fds_read w)" "fds_write w1 = fds_write w" "zs w1 = (zs w)(s \<mapsto> z1)"
    using read_start_inv [OF assms(1-5), of "Some c"] by (auto simp: z1_def)
  have z1: "zs w1 s = Some z1" "live z1" "is_set ZS_S_READ_ENABLE z1" "stype z1 \<noteq> ZS_T_SERVER" "fd z1 = fd z"
    using w1(5) assms(4,6) by (simp_all add: z1_def is_set_def flag_simps)
  obtain w2 where w2: "zsocket_read_stop s w1 = Inr w2" "zinv S xs w2" "fds_read w2 = fds_read w1 - {fd z}"
    "fds_write w2 = fds_write w1" "zs w2 = (zs w1)(s \<mapsto> z1\<lparr>state := state z1 AND NOT ZS_S_READ_ENABLE, read_cb := None\<rparr>)"
    using read_stop_inv [OF w1(2) assms(2) z1(1-4)] z1(5) by auto
  have "sock_ok (fds_read w) (fds_write w) z" using zinv_listed [OF assms(1,2)] assms(3) by auto
  then have "fd z \<notin> fds_read w" using assms(4,5) by (auto simp: sock_ok_def)
  moreover have "state z1 AND NOT ZS_S_READ_ENABLE = state z"
    using assms(5) flag_clear_unset [of "state z" ZS_S_READ_ENABLE] by (simp add: z1_def is_set_def)
  then have "z1\<lparr>state := state z1 AND NOT ZS_S_READ_ENABLE, read_cb := None\<rparr> = z\<lparr>read_cb := None\<rparr>"
    by (simp add: z1_def)
  ultimately show ?thesis using w1 w2 by auto
qed

text \<open>
  C21: \<open>zsocket_write\<close> on an open socket returns -1, having queued nothing, where its queue could
  not be allocated; otherwise it returns how many bytes of the block, from the front, it appended
  to the socket's queue, and the descriptor is among those to write. Nothing else of the
  socket, and no other socket, changes.
\<close>

theorem write_queues:
  assumes "zinv S xs w" and "sys_ok S" and "s \<in> set xs" and "zs w s = Some z" and "live z"
    and "unat len < 2 ^ 63" and "unat len \<le> length buf"
  shows "\<exists>n w'. zsocket_write S s buf len w = Inr (n, w') \<and> zinv S xs w' \<and> fds_read w' = fds_read w \<and>
    (n = -1 \<and> wbuf z = None \<and> zs w' = zs w \<or>
     n \<le> len \<and> fds_write w' = insert (fd z) (fds_write w) \<and>
     (\<exists>z'. zs w' = (zs w)(s \<mapsto> z') \<and> live z' \<and> out_queue z' = out_queue z @ take (unat n) buf \<and>
        z' = z\<lparr>wbuf := wbuf z', state := state z'\<rparr>))"
proof -
  obtain n w' where "zsocket_write S s buf len w = Inr (n, w')" "zinv S xs w'" "fds_read w' = fds_read w"
    "n = -1 \<and> wbuf z = None \<and> zs w' = zs w \<or>
     n \<le> len \<and> fds_write w' = insert (fd z) (fds_write w) \<and>
     (\<exists>z'. zs w' = (zs w)(s \<mapsto> z') \<and> write_result z z' (take (unat n) buf))"
    using write_inv [OF assms] by blast
  then show ?thesis unfolding write_result_def by blast
qed

text \<open>
  When a socket is writable, the event loop offers its whole queue to \<open>send\<close>, and what
  \<open>send\<close> took leaves the front of the queue; where \<open>send\<close> fails, the socket is marked closed; where
  the queue is empty, nothing happens. The queue is below \<open>2 ^ 31\<close> bytes.
\<close>

theorem send_drains:
  assumes "zinv S xs w" and "sys_ok S" and "s \<in> set xs" and "zs w s = Some z" and "live z"
    and "is_set ZS_S_WRITE_ENABLE z" and "in_looping w" and "length (out_queue z) < 2 ^ 31"
  shows "\<exists>w' z'. zsocket_handle_send S k s w = Inr w' \<and> zinv S xs w' \<and> zs w' = (zs w)(s \<mapsto> z') \<and> rbuf z' = rbuf z \<and>
    (let n = fst (sys_send S (fd z) (out_queue z) (os w)) in
     if out_queue z = [] then w' = w
     else if n = -1 then \<not> live z'
     else out_queue z' = drop (nat n) (out_queue z))"
  using handle_send_inv [OF assms, of k] by blast

text \<open>
  When a socket is readable and \<open>recv\<close> does not fail, the read callback is handed what was
  queued followed by what arrived. Where the callback returns how much of it it consumed and
  leaves the world alone, that much leaves the front of the queue and the rest stays for the
  next round; the socket stays open unless its buffer is full and cannot grow.
\<close>

theorem recv_delivers:
  assumes inv: "zinv S xs w" and S: "sys_ok S" and s: "s \<in> set xs" and z: "zs w s = Some z" "live z"
    and en: "is_set ZS_S_READ_ENABLE z" "stype z \<noteq> ZS_T_SERVER" "read_cb z = Some c" and loop: "in_looping w"
    and b: "recv_buffer S z (os w) = (Some q, o1)" and spare: "unat (qbuf_spare q) < 2 ^ 31"
    and r: "sys_recv S (fd z) (qbuf_spare q) o1 = (n, bs, o2)" "n \<noteq> -1"
    and cb: "\<And>len v. on_read H c s (in_queue z @ bs) len v = Inr (m, v)" "0 \<le> m" "m \<le> int (length (in_queue z @ bs))"
  shows "\<exists>w' z'. zsocket_handle_recv S H k s w = Inr w' \<and> zinv S xs w' \<and> zs w' = (zs w)(s \<mapsto> z') \<and>
    wbuf z' = wbuf z \<and> in_queue z' = drop (nat m) (in_queue z @ bs)"
proof -
  obtain w1 z1 q1 where w1: "zsocket_handle_recv S H k s w =
      bnd (on_read H c s (contents q1) (to_int (int (length (contents q1)))) w1)
        (\<lambda>(nr, w). after_callback S k s (qbuf_used q1) nr w)"
    "zinv S xs w1" "zs w1 = (zs w)(s \<mapsto> z1)" "live z1" "in_looping w1" "wbuf z1 = wbuf z"
    "rbuf z1 = Some q1" "contents q1 = in_queue z @ bs"
    using handle_recv_callback [OF inv S s z en loop b spare r, of H k] by blast
  have e: "zsocket_handle_recv S H k s w = after_callback S k s (qbuf_used q1) m w1"
    using w1(1,8) cb(1) by simp
  have z1: "zs w1 s = Some z1" "\<not> live z1 \<Longrightarrow> \<exists>q1'. consume (word_of_int m) q1 = Inr q1' \<and> qbuf_spare q1' \<noteq> 0"
    using w1(3,4) by simp_all
  have "m \<le> int (length (contents q1))" using cb(3) w1(8) by simp
  from after_callback_inv [OF w1(2) S s z1 w1(5,7) cb(2) this, of k] e w1(3,6,8) show ?thesis by auto
qed

text \<open>
  \<open>zsocket_init\<close> on an allocated structure outside the list gives a socket in its initial
  state, whose node is an empty list; the first call empties the descriptor sets.
\<close>

theorem init_socket:
  assumes "zinv S xs w" and "s \<in> dom (zs w)" and "s \<notin> set xs"
  shows "\<exists>w'. zsocket_init s w = Inr w' \<and> zinv S xs w' \<and> lib_init w' \<and> zs w' = (zs w)(s \<mapsto> init_zsocket) \<and>
    os w' = os w \<and> ring (links w') s []"
proof -
  obtain w' where w': "zsocket_init s w = Inr w'" "zinv S xs w'" "lib_init w'" "zs w' = (zs w)(s \<mapsto> init_zsocket)"
    "os w' = os w" using init_inv [OF assms] by blast
  moreover have "s \<in> dom (links w)" using assms(1,2) by (auto simp: zinv_def list_ok_def)
  then obtain l where "INIT_LIST_HEAD s (links w) = Inr l" "ring l s []" using INIT_LIST_HEAD_in by blast
  then have "ring (links w') s []"
    using w'(1) assms(2) by (auto simp: zsocket_init_def put_zs_def Let_def split: if_splits)
  ultimately show ?thesis by blast
qed

text \<open>
  On Windows the first call starts the socket library and goes on where that works; later calls
  do not start it again.
\<close>

theorem init_win:
  "zsocket_init_win startup s w =
     (if \<not> lib_init w \<and> fst (startup (os w)) \<noteq> 0 then None
      else Some (zsocket_init s (if lib_init w then w else w\<lparr>os := snd (startup (os w))\<rparr>)))"
  by (simp add: zsocket_init_win_def zsocket_init_def Let_def split: prod.split)

lemma init_win_once:
  assumes "zsocket_init_win startup s w = Some (Inr w')"
  shows "lib_init w' \<and> zsocket_init_win other s' w' = Some (zsocket_init s' w')"
  using assms by (auto simp: init_win zsocket_init_def put_zs_def Let_def split: if_splits)

text \<open>
  The timeout in milliseconds that \<open>zsocket_poll\<close> hands to \<open>select\<close>: for a non-negative one the
  seconds and microseconds add up to it and the microseconds are less than a second.
\<close>

theorem poll_timeout:
  assumes "0 \<le> t"
  shows "fst (timeval_of t) * 1000000 + snd (timeval_of t) = t * 1000 \<and>
    0 \<le> snd (timeval_of t) \<and> snd (timeval_of t) < 1000000"
proof -
  have "c_div t 1000 = t div 1000" using assms by (cases "t = 0") (simp_all add: c_div_def)
  moreover have "t mod 1000 = t - 1000 * (t div 1000)" by (simp add: minus_mult_div_eq_mod)
  moreover have "0 \<le> t mod 1000" "t mod 1000 < 1000" by simp_all
  ultimately show ?thesis by (simp add: timeval_of_def c_mod_def)
qed

section \<open>The properties at concrete inputs\<close>

lemma demo_setsys: "sys_fds demo_sys = set" "sys_fds demo_no_accept = set" "sys_fds demo_no_recv = set"
  "sys_fds demo_no_select = set"
  by (simp_all add: demo_sys_def demo_no_accept_def demo_no_recv_def demo_no_select_def)

lemma demo_zs: "zs (demo_world loop z R W) con_at = Some z" "zs (demo_world loop z R W) srv_at = Some demo_server"
  "zs (demo_world loop z R W) idle_at = Some init_zsocket" "in_looping (demo_world loop z R W) = loop"
  "lib_init (demo_world loop z R W)" "fds_read (demo_world loop z R W) = R" "fds_write (demo_world loop z R W) = W"
  by (simp_all add: demo_world_def)

lemma demo_idle: "idle init_zsocket" "live init_zsocket"
  by (simp_all add: idle_def init_zsocket_def is_set_def)


theorem close_in_loop_witness:
  "\<exists>w'. zsocket_close demo_sys 3 con_at (Some 7) (demo_live True) = Inr w' \<and> fds_read w' = {3} \<and>
    status w' = count_closed ZS_T_CONNECTION (status (demo_live True))"
  using close_in_loop [OF demo_live_inv [OF demo_setsys(1)], of True con_at demo_conn 3 "Some 7"]
  by (auto simp: demo_zs demo_conn_fields simp del: zsocket_close.simps)


theorem close_server_faults_witness:
  "zsocket_close demo_sys 3 srv_at None (demo_live False) = Inl Bad_Pointer"
  by (rule close_server_faults [OF demo_live_inv [OF demo_setsys(1)], where x = con_at])
    (auto simp: demo_zs demo_server_live demo_conn_fields split: if_splits)

theorem close_server_in_loop_witness:
  "\<exists>w w'. zsocket_close_now demo_sys 3 srv_at w = Inr w' \<and> zinv demo_sys [con_at] w' \<and>
    zs w' con_at = Some (marked demo_conn)"
proof -
  obtain w where w: "zinv demo_sys [con_at, srv_at] w" "in_looping w"
    "zs w = (zs (demo_live True))(srv_at \<mapsto> demo_server\<lparr>state := state demo_server OR ZS_S_EOF, close_cb := None\<rparr>)"
    using mark_closed_inv [OF demo_live_inv [OF demo_setsys(1)], of srv_at True demo_server None]
    by (auto simp: demo_zs demo_server_live)
  let ?z = "demo_server\<lparr>state := state demo_server OR ZS_S_EOF, close_cb := None\<rparr>"
  have z: "zs w srv_at = Some ?z" "\<not> live ?z" "stype ?z = ZS_T_SERVER" "zs w con_at = Some demo_conn"
    using w(3) by (simp_all add: demo_zs is_set_def flag_simps demo_server_live)
  have "\<forall>x \<in> set [con_at, srv_at]. \<forall>p. x \<noteq> srv_at \<longrightarrow> zs w x = Some p \<longrightarrow> bound_to ?z (Some p) \<longrightarrow> live p"
    using z(4) by (simp add: demo_conn_fields)
  from close_server_in_loop [OF w(1) demo_sys_ok w(2) _ z(1-3) _ this, of 3] z(4)
  obtain w' where "zsocket_close_now demo_sys 3 srv_at w = Inr w'" "zinv demo_sys [con_at] w'"
    "zs w' con_at = Some (marked demo_conn)"
    by (auto simp: demo_conn_fields demo_server_live simp del: zsocket_close_now.simps)
  then show ?thesis by blast
qed

theorem connect_lists_witness:
  "\<exists>r w'. zsocket_connect demo_sys demo_handlers idle_at port_80 None (demo_live False) = Inr (r, w') \<and>
    (r = -1 \<or> r = 0 \<and> zinv demo_sys [idle_at, con_at, srv_at] w')"
  using connect_lists [OF demo_live_inv [OF demo_setsys(1)] demo_sys_ok, of idle_at False init_zsocket demo_handlers port_80]
  by (auto simp: demo_zs demo_idle)

theorem listen_lists_witness:
  "\<exists>r w'. zsocket_listen demo_sys idle_at port_80 (Some 1) (demo_live False) = Inr (r, w') \<and>
    (r = -1 \<or> r = 0 \<and> zinv demo_sys [idle_at, con_at, srv_at] w')"
  using listen_lists [OF demo_live_inv [OF demo_setsys(1)] demo_sys_ok, of idle_at False init_zsocket port_80 1]
  by (auto simp: demo_zs demo_idle)


theorem accept_failure_aborts_witness:
  "zsocket_accept demo_no_accept 3 srv_at (demo_live True) = Inl Assert_Failed"
  by (rule accept_failure_aborts [OF demo_live_inv [OF demo_setsys(2)] demo_no_accept_ok, where sv = demo_server and c = "0x9000" and ?o1.0 = "[4, 3]"])
    (simp_all add: demo_zs demo_server_live demo_no_accept_def demo_sys_def demo_world_def demo_links_def socks_def)

theorem init_socket_witness:
  "\<exists>w'. zsocket_init idle_at (demo_live False) = Inr w' \<and> ring (links w') idle_at []"
  using init_socket [OF demo_live_inv [OF demo_setsys(1)], of idle_at False]
  by (auto simp: demo_world_def)

theorem poll_timeout_witness:
  "fst (timeval_of 2500) * 1000000 + snd (timeval_of 2500) = 2500 * 1000 \<and>
    0 \<le> snd (timeval_of 2500) \<and> snd (timeval_of 2500) < 1000000"
  by (rule poll_timeout) simp

theorem read_start_stop_witness:
  "\<exists>(w :: int list world) w1 w2. zsocket_read_start con_at (Some 5) w = Inr w1 \<and> fds_read w1 = {3, 4} \<and>
    zsocket_read_stop con_at w1 = Inr w2 \<and> fds_read w2 = {3}"
proof -
  let ?z = "demo_conn\<lparr>state := ZS_S_WRITE_ENABLE, read_cb := None\<rparr>"
  have f: "live ?z" "\<not> is_set ZS_S_READ_ENABLE ?z" "is_set ZS_S_WRITE_ENABLE ?z"
    by (simp_all add: is_set_def flag_defs)
  have "zinv demo_sys [con_at, srv_at] (demo_world False ?z {3} {4})"
    by (rule demo_inv [OF demo_setsys(1)]) (use f in \<open>simp_all add: sock_ok_def demo_conn_fields buf_ok_def FD_SETSIZE_def\<close>)
  from read_start_stop [OF this, of con_at ?z 5] f obtain w1 w2 where
    "zsocket_read_start con_at (Some 5) (demo_world False ?z {3} {4}) = Inr w1" "fds_read w1 = {3, 4}"
    "zsocket_read_stop con_at w1 = Inr w2" "fds_read w2 = {3}"
    by (auto simp: demo_zs demo_conn_fields insert_commute)
  then show ?thesis by blast
qed

theorem write_queues_witness:
  "\<exists>n w'. zsocket_write demo_sys con_at [5, 6, 7] 3 (demo_live True) = Inr (n, w') \<and>
    (\<exists>z'. zs w' con_at = Some z' \<and> out_queue z' = [2, 3, 4] @ take (unat n) [5, 6, 7])"
  using write_queues [OF demo_live_inv [OF demo_setsys(1)] demo_sys_ok, of con_at True demo_conn 3 "[5, 6, 7]"]
  by (auto simp: demo_zs demo_conn_fields queue_of_def)

theorem send_drains_witness:
  "\<exists>w' z'. zsocket_handle_send demo_sys 3 con_at (demo_live True) = Inr w' \<and> zs w' con_at = Some z' \<and>
    out_queue z' = [4]"
  using send_drains [OF demo_live_inv [OF demo_setsys(1)] demo_sys_ok, of con_at True demo_conn 3]
  by (auto simp: demo_zs demo_conn_fields queue_of_def demo_sys_def)

theorem recv_delivers_witness:
  "\<exists>w' z'. zsocket_handle_recv demo_sys (demo_handlers\<lparr>on_read := (\<lambda>c s buf len w. Inr (4, w))\<rparr>) 3 con_at
      (demo_live True) = Inr w' \<and> zs w' con_at = Some z' \<and> in_queue z' = [20, 30]"
proof -
  have b: "recv_buffer demo_sys demo_conn (os (demo_live True)) = (Some sample_qbuf, os (demo_live True))"
    by (simp add: recv_buffer_def demo_conn_fields)
  have r: "sys_recv demo_sys (fd demo_conn) (qbuf_spare sample_qbuf) (os (demo_live True)) = (3, [10, 20, 30], os (demo_live True))"
    by (simp add: demo_sys_def)
  have "\<exists>w' z'. zsocket_handle_recv demo_sys (demo_handlers\<lparr>on_read := (\<lambda>c s buf len w. Inr (4, w))\<rparr>) 3 con_at
      (demo_live True) = Inr w' \<and> zinv demo_sys [con_at, srv_at] w' \<and> zs w' = (zs (demo_live True))(con_at \<mapsto> z') \<and>
      wbuf z' = wbuf demo_conn \<and> in_queue z' = drop (nat 4) (in_queue demo_conn @ [10, 20, 30])"
    by (rule recv_delivers [OF demo_live_inv [OF demo_setsys(1)] demo_sys_ok _ _ _ _ _ _ _ b _ r])
      (simp_all add: demo_zs demo_conn_fields queue_of_def)
  then show ?thesis by (auto simp: demo_conn_fields queue_of_def)
qed

theorem expire_again_witness:
  "\<exists>w'. expire (demo_sys\<lparr>sys_time := (\<lambda>o1. (9999, o1))\<rparr>) 3 con_at (demo_dead True) = Inr w' \<and>
    nr_closed (status w') = 2 \<and> nr_total (status w') = 2 \<and> nr_current (status w') = 0"
  using expire_again [of "demo_sys\<lparr>sys_time := (\<lambda>o1. (9999, o1))\<rparr>" "[con_at, srv_at]" "demo_dead True" con_at "marked demo_conn" 3]
    demo_dead_inv [of "demo_sys\<lparr>sys_time := (\<lambda>o1. (9999, o1))\<rparr>" True]
  by (auto simp: demo_zs demo_setsys demo_conn_fields count_closed_def demo_world_def marked_def Let_def is_set_def flag_simps)

theorem recv_fails_witness:
  "\<exists>w'. zsocket_handle_recv demo_no_recv (demo_handlers\<lparr>on_read := (\<lambda>c s buf len w. Inr (0, w))\<rparr>) 3 con_at
      (demo_live True) = Inr w' \<and> 4 \<in> fds_read w' \<and>
    zsocket_handle_recv demo_no_recv (demo_handlers\<lparr>on_read := (\<lambda>c s buf len w. Inr (0, w))\<rparr>) 3 con_at w' = Inl Assert_Failed"
  using recv_fails [OF demo_live_inv [OF demo_setsys(3)], of con_at True demo_conn 0 sample_qbuf "[]" "[4, 3]"
      "demo_handlers\<lparr>on_read := (\<lambda>c s buf len w. Inr (0, w))\<rparr>" 3]
  by (auto simp: demo_zs demo_conn_fields demo_no_recv_def demo_world_def)

theorem select_fails_witness:
  "zsocket_loop demo_no_select demo_handlers 3 1000 (demo_live False) =
      Inr (-1, (demo_live False)\<lparr>in_looping := True, os := [4, 3]\<rparr>) \<and>
   zsocket_close demo_no_select 3 con_at None ((demo_live False)\<lparr>in_looping := True, os := [4, 3]\<rparr>) =
      mark_closed con_at None ((demo_live False)\<lparr>in_looping := True, os := [4, 3]\<rparr>)"
  by (rule select_fails) (simp add: demo_no_select_def demo_world_def)

theorem close_then_send_witness:
  "poll_walk (demo_sys\<lparr>sys_recv := (\<lambda>f n o1. (0, [], o1))\<rparr>)
     (demo_handlers\<lparr>on_read := (\<lambda>c s buf len v.
        bnd (zsocket_close (demo_sys\<lparr>sys_recv := (\<lambda>f n o1. (0, [], o1))\<rparr>) 3 s None v) (\<lambda>v. Inr (0, v)))\<rparr>)
     (Suc 3) con_at {4} {4} 1 (demo_live True) = Inl Assert_Failed"
  by (rule close_then_send [OF demo_live_inv, where z = demo_conn and c = 0 and q = sample_qbuf and bs = "[]" and ?o2.0 = "[4, 3]"])
    (simp_all add: demo_zs demo_setsys demo_conn_fields demo_world_def del: zsocket_close.simps)



end
